(* ===== verification/Prelude.thy ===== *)
theory Prelude
  imports Main "HOL-Library.Word" "HOL-Library.AList" "HOL-Library.Stream"
    "HOL-Library.Signed_Division" "HOL-Library.Multiset"
begin

section \<open>Shared types, containers and automation\<close>

text \<open>
  What every component of the model uses: the machine integer types of
  src/src/core/types/types.h, the standard-library containers the program keeps its
  state in, and the generic lemmas about them.

  \<^item> \<open>std::uint64_t\<close> identifiers are \<open>64 word\<close>: incrementing one wraps.
  \<^item> \<open>std::int64_t\<close> prices and quantities are \<open>int\<close>, read as the value of the signed
    integer. Signed overflow is undefined behaviour in C++, so an addition whose result can
    leave the range is written with \<open>i64_add\<close>, where \<open>None\<close> is that undefined behaviour;
    elsewhere the range is a proved invariant.
  \<^item> \<open>std::unordered_map\<close> is an association list. Its order stands for the (unspecified)
    iteration order; properties never depend on it.
  \<^item> \<open>system_clock::now()\<close> reads the next element of a stream of arbitrary readings.
\<close>

named_theorems umap_simps \<open>lookups after an update of an unordered map\<close>

subsection \<open>Machine integers\<close>

type_synonym u64 = "64 word"

definition i64_min :: int where
  "i64_min = - 9223372036854775808"

definition i64_max :: int where
  "i64_max = 9223372036854775807"

definition in_i64 :: "int \<Rightarrow> bool" where
  "in_i64 x \<longleftrightarrow> i64_min \<le> x \<and> x \<le> i64_max"

definition in_i32 :: "int \<Rightarrow> bool" where
  "in_i32 x \<longleftrightarrow> - 2147483648 \<le> x \<and> x \<le> 2147483647"

definition i64_add :: "int \<Rightarrow> int \<Rightarrow> int option" where
  "i64_add a b = (if in_i64 (a + b) then Some (a + b) else None)"

lemma i64_add_nonneg:
  "0 \<le> a \<Longrightarrow> 0 \<le> b \<Longrightarrow> i64_add a b = (if a + b \<le> i64_max then Some (a + b) else None)"
  by (auto simp: i64_add_def in_i64_def i64_min_def)

lemma i64_add_SomeD: "i64_add a b = Some c \<Longrightarrow> c = a + b \<and> in_i64 c"
  by (auto simp: i64_add_def split: if_splits)

subsection \<open>Clock\<close>

type_synonym timestamp = int
type_synonym clock = "timestamp stream"

definition Now :: "clock \<Rightarrow> timestamp \<times> clock" where
  "Now clk = (shd clk, stl clk)"

subsection \<open>Unordered maps\<close>

type_synonym ('k, 'v) umap = "('k \<times> 'v) list"

abbreviation um_find :: "('k, 'v) umap \<Rightarrow> 'k \<Rightarrow> 'v option" where
  "um_find m k \<equiv> map_of m k"

definition um_assign :: "'k \<Rightarrow> 'v \<Rightarrow> ('k, 'v) umap \<Rightarrow> ('k, 'v) umap" where
  \<comment> \<open>\<open>m[k] = v\<close>\<close>
  "um_assign k v m = AList.update k v m"

definition um_emplace :: "'k \<Rightarrow> 'v \<Rightarrow> ('k, 'v) umap \<Rightarrow> ('k, 'v) umap" where
  \<comment> \<open>\<open>m.emplace(k, v)\<close>: no effect when the key is present\<close>
  "um_emplace k v m = (case map_of m k of None \<Rightarrow> m @ [(k, v)] | Some _ \<Rightarrow> m)"

definition um_erase :: "'k \<Rightarrow> ('k, 'v) umap \<Rightarrow> ('k, 'v) umap" where
  "um_erase k m = filter (\<lambda>(k', _). k' \<noteq> k) m"

lemma um_find_assign [umap_simps]:
  "um_find (um_assign k v m) k' = (if k' = k then Some v else um_find m k')"
  by (simp add: um_assign_def update_conv')

lemma um_find_emplace [umap_simps]:
  "um_find (um_emplace k v m) k' =
     (if k' = k \<and> um_find m k = None then Some v else um_find m k')"
  by (auto simp: um_emplace_def map_add_def split: option.splits)

lemma um_find_erase [umap_simps]:
  "um_find (um_erase k m) k' = (if k' = k then None else um_find m k')"
  by (induction m) (auto simp: um_erase_def)

lemma um_assign_keys [umap_simps]: "fst ` set (um_assign k v m) = insert k (fst ` set m)"
  by (simp add: um_assign_def dom_update)

lemma distinct_um_assign [umap_simps]:
  "distinct (map fst m) \<Longrightarrow> distinct (map fst (um_assign k v m))"
  by (simp add: um_assign_def distinct_update)

lemma distinct_um_emplace [umap_simps]:
  "distinct (map fst m) \<Longrightarrow> distinct (map fst (um_emplace k v m))"
  by (auto simp: um_emplace_def map_of_eq_None_iff split: option.splits)

lemma distinct_um_erase [umap_simps]:
  "distinct (map fst m) \<Longrightarrow> distinct (map fst (um_erase k m))"
  unfolding um_erase_def by (induction m) auto

lemma um_find_set: "distinct (map fst m) \<Longrightarrow> (k, v) \<in> set m \<longleftrightarrow> um_find m k = Some v"
  by simp

subsection \<open>Lists\<close>

fun erase_first :: "('a \<Rightarrow> bool) \<Rightarrow> 'a list \<Rightarrow> 'a list" where
  \<comment> \<open>\<open>q.erase(find_if(q, P))\<close>\<close>
  "erase_first P [] = []"
| "erase_first P (x # xs) = (if P x then xs else x # erase_first P xs)"

lemma find_split:
  assumes "List.find P xs = Some x"
  obtains ys zs where "xs = ys @ x # zs" and "P x" and "\<forall>y \<in> set ys. \<not> P y"
    and "erase_first P xs = ys @ zs"
  using assms
proof (induction xs arbitrary: thesis)
  case (Cons a xs)
  show ?case
  proof (cases "P a")
    case True
    with Cons.prems show ?thesis by (intro Cons.prems(1) [of "[]" xs]) auto
  next
    case False
    with Cons.prems(2) have "List.find P xs = Some x" by simp
    then obtain ys zs where "xs = ys @ x # zs" "P x" "\<forall>y \<in> set ys. \<not> P y"
      "erase_first P xs = ys @ zs"
      using Cons.IH by blast
    with False show ?thesis by (intro Cons.prems(1) [of "a # ys" zs]) auto
  qed
qed simp

lemma takeWhile_split:
  assumes "\<forall>x \<in> set xs. P x" and "\<forall>y \<in> set ys. \<not> P y"
  shows "takeWhile P (xs @ ys) = xs" and "dropWhile P (xs @ ys) = ys"
  using assms by (induction xs; cases ys; auto)+

lemma find_distinct:
  "distinct (map f xs) \<Longrightarrow> x \<in> set xs \<Longrightarrow> List.find (\<lambda>y. f y = f x) xs = Some x"
  by (induction xs) force+

lemma sum_list_map_nonneg: "(\<forall>x \<in> set xs. 0 \<le> f x) \<Longrightarrow> 0 \<le> sum_list (map f xs)"
  for f :: "'a \<Rightarrow> int"
  by (induction xs) auto

lemma filter_neq_id: "k \<notin> f ` set xs \<Longrightarrow> filter (\<lambda>x. f x \<noteq> k) xs = xs"
  by (induction xs) auto

lemma filter_out_one:
  "distinct (map f (xs @ e # ys)) \<Longrightarrow> filter (\<lambda>x. f x \<noteq> f e) (xs @ e # ys) = xs @ ys"
  by (auto simp: filter_neq_id image_iff)

lemma distinct_map_inj:
  "distinct (map f xs) \<Longrightarrow> x \<in> set xs \<Longrightarrow> y \<in> set xs \<Longrightarrow> f x = f y \<Longrightarrow> x = y"
  by (auto simp: distinct_map dest: inj_onD)

lemma map_upt_append:
  "map f [0..<m] @ map (\<lambda>i. f (m + i)) [0..<n] = map f [0..<m + n]"
proof -
  have "map (\<lambda>i. f (m + i)) [0..<n] = map f (map (\<lambda>i. i + m) [0..<n])"
    by (simp add: comp_def add.commute)
  then show ?thesis
    using upt_add_eq_append [of 0 m n] by (simp add: map_add_upt add.commute)
qed

end
