(* ===== verification/Types.thy ===== *)
theory Types
  imports Prelude
begin

section \<open>Core value types (src/src/core/types/)\<close>

text \<open>
  The domain vocabulary of types.h, the error codes of error.h and the per-symbol reference
  data of instrument.h. Constructors keep the source's names. A \<open>Result\<close> is a sum:
  \<open>Inl\<close> holds the error code (\<open>std::unexpected\<close>), \<open>Inr\<close> the value.
\<close>

subsection \<open>types.h\<close>

type_synonym order_id = u64
type_synonym execution_id = u64
type_synonym price = int
type_synonym quantity = int

record symbol =
  sym_value :: string

datatype side = kBuy | kSell

datatype order_type = kLimit | kMarket

datatype order_status =
  kPendingNew | kAccepted | kPartiallyFilled | kFilled | kPendingCancel | kCancelled | kRejected

datatype time_in_force = kDay | kGtc | kIoc

fun SideName :: "side \<Rightarrow> string" where
  "SideName kBuy = ''Buy''"
| "SideName kSell = ''Sell''"

fun OrderTypeName :: "order_type \<Rightarrow> string" where
  "OrderTypeName kLimit = ''Limit''"
| "OrderTypeName kMarket = ''Market''"

fun OrderStatusName :: "order_status \<Rightarrow> string" where
  "OrderStatusName kPendingNew = ''PendingNew''"
| "OrderStatusName kAccepted = ''Accepted''"
| "OrderStatusName kPartiallyFilled = ''PartiallyFilled''"
| "OrderStatusName kFilled = ''Filled''"
| "OrderStatusName kPendingCancel = ''PendingCancel''"
| "OrderStatusName kCancelled = ''Cancelled''"
| "OrderStatusName kRejected = ''Rejected''"

subsection \<open>error.h\<close>

datatype oems_error =
  kInvalidQuantity | kInvalidPrice | kInvalidSymbol | kInvalidSide | kInvalidOrderType
| kOrderNotFound | kDuplicateOrder | kInvalidStateTransition
| kRiskBreachMaxQty | kRiskBreachNotional | kRiskBreachPriceBand | kRiskBreachRateLimit
| kRiskBreachLotSize | kRiskBreachTickSize | kRiskBreachDailyLimit
| kBookNotFound | kNoLiquidity
| kFixParseError | kFixSessionError | kFixInvalidMsgType
| kDatabaseError
| kHttpParseError | kRouteNotFound

type_synonym 'a result = "oems_error + 'a"

fun ErrorName :: "oems_error \<Rightarrow> string" where
  "ErrorName kInvalidQuantity = ''InvalidQuantity''"
| "ErrorName kInvalidPrice = ''InvalidPrice''"
| "ErrorName kInvalidSymbol = ''InvalidSymbol''"
| "ErrorName kInvalidSide = ''InvalidSide''"
| "ErrorName kInvalidOrderType = ''InvalidOrderType''"
| "ErrorName kOrderNotFound = ''OrderNotFound''"
| "ErrorName kDuplicateOrder = ''DuplicateOrder''"
| "ErrorName kInvalidStateTransition = ''InvalidStateTransition''"
| "ErrorName kRiskBreachMaxQty = ''RiskBreachMaxQty''"
| "ErrorName kRiskBreachNotional = ''RiskBreachNotional''"
| "ErrorName kRiskBreachPriceBand = ''RiskBreachPriceBand''"
| "ErrorName kRiskBreachRateLimit = ''RiskBreachRateLimit''"
| "ErrorName kRiskBreachLotSize = ''RiskBreachLotSize''"
| "ErrorName kRiskBreachTickSize = ''RiskBreachTickSize''"
| "ErrorName kRiskBreachDailyLimit = ''RiskBreachDailyLimit''"
| "ErrorName kBookNotFound = ''BookNotFound''"
| "ErrorName kNoLiquidity = ''NoLiquidity''"
| "ErrorName kFixParseError = ''FixParseError''"
| "ErrorName kFixSessionError = ''FixSessionError''"
| "ErrorName kFixInvalidMsgType = ''FixInvalidMsgType''"
| "ErrorName kDatabaseError = ''DatabaseError''"
| "ErrorName kHttpParseError = ''HttpParseError''"
| "ErrorName kRouteNotFound = ''RouteNotFound''"

subsection \<open>instrument.h\<close>

record tick_band =
  tb_low :: price
  tb_high :: price
  tb_tick :: price

record symbol_config =
  sc_symbol :: symbol
  sc_lot_size :: quantity
  sc_previous_close :: price
  sc_daily_limit_bps :: int
  sc_tick_bands :: "tick_band list"

definition BuildTseStandardTickBands :: "tick_band list" where
  "BuildTseStandardTickBands =
     [\<lparr>tb_low = 0, tb_high = 3000, tb_tick = 1\<rparr>,
      \<lparr>tb_low = 3001, tb_high = 5000, tb_tick = 5\<rparr>,
      \<lparr>tb_low = 5001, tb_high = 30000, tb_tick = 10\<rparr>,
      \<lparr>tb_low = 30001, tb_high = 50000, tb_tick = 50\<rparr>,
      \<lparr>tb_low = 50001, tb_high = 300000, tb_tick = 100\<rparr>,
      \<lparr>tb_low = 300001, tb_high = 500000, tb_tick = 500\<rparr>,
      \<lparr>tb_low = 500001, tb_high = 3000000, tb_tick = 1000\<rparr>,
      \<lparr>tb_low = 3000001, tb_high = i64_max, tb_tick = 10000\<rparr>]"

end
