(* ===== verification/Risk_Manager.thy ===== *)
theory Risk_Manager
  imports Types Complex_Main
begin

section \<open>Pre-trade risk controls (src/src/core/risk/)\<close>

text \<open>
  Class \<open>RiskManager\<close>: the fixed sequence of checks of \<open>Check\<close>, each with its early exit, and
  the sliding-window rate limiter, the only part that changes state. Products that the code
  computes in \<open>__int128\<close> are exact integers here; \<open>risk_products_fit\<close> bounds them.
  Timestamps are nanoseconds. C++ \<open>%\<close> is the truncating \<open>smod\<close>.
\<close>

named_theorems risk_defs \<open>definitions of the single checks\<close>

record risk_request =
  rr_symbol :: symbol
  rr_side :: side
  rr_type :: order_type
  rr_price :: price
  rr_quantity :: quantity

record risk_limits =
  rl_max_order_qty :: quantity
  rl_max_notional :: price
  rl_price_band_bps :: int
  rl_max_orders_per_second :: int

definition default_limits :: risk_limits where
  "default_limits = \<lparr>rl_max_order_qty = 10000, rl_max_notional = 100000000,
                     rl_price_band_bps = 1000, rl_max_orders_per_second = 100\<rparr>"

record risk_manager =
  rm_limits :: risk_limits
  rm_reference_prices :: "(string, price) umap"
  rm_configs :: "(string, symbol_config) umap"
  rm_recent_orders :: "timestamp list"

definition RiskManager :: "risk_limits \<Rightarrow> risk_manager" where
  "RiskManager limits = \<lparr>rm_limits = limits, rm_reference_prices = [], rm_configs = [],
                         rm_recent_orders = []\<rparr>"

subsection \<open>Configuration\<close>

definition SetLimits :: "risk_limits \<Rightarrow> risk_manager \<Rightarrow> risk_manager" where
  "SetLimits limits rm = rm\<lparr>rm_limits := limits\<rparr>"

definition SetReferencePrice :: "symbol \<Rightarrow> price \<Rightarrow> risk_manager \<Rightarrow> risk_manager" where
  "SetReferencePrice s p rm =
     rm\<lparr>rm_reference_prices := um_assign (sym_value s) p (rm_reference_prices rm)\<rparr>"

definition GetReferencePrice :: "risk_manager \<Rightarrow> symbol \<Rightarrow> price option" where
  "GetReferencePrice rm s = um_find (rm_reference_prices rm) (sym_value s)"

definition SetSymbolConfig :: "symbol \<Rightarrow> symbol_config \<Rightarrow> risk_manager \<Rightarrow> risk_manager" where
  "SetSymbolConfig s config rm =
     rm\<lparr>rm_configs := um_assign (sym_value s) (config\<lparr>sc_symbol := s\<rparr>) (rm_configs rm)\<rparr>"

definition GetSymbolConfig :: "risk_manager \<Rightarrow> symbol \<Rightarrow> symbol_config option" where
  "GetSymbolConfig rm s = um_find (rm_configs rm) (sym_value s)"

subsection \<open>The checks\<close>

definition CheckPriceBand :: "risk_manager \<Rightarrow> risk_request \<Rightarrow> unit result" where
  "CheckPriceBand rm req =
     (case um_find (rm_reference_prices rm) (sym_value (rr_symbol req)) of
        None \<Rightarrow> Inr ()
      | Some ref \<Rightarrow>
          if ref \<le> 0 then Inr ()
          else (let diff = \<bar>rr_price req - ref\<bar>;
                    lhs = diff * 10000;
                    rhs = ref * rl_price_band_bps (rm_limits rm)
                in if lhs > rhs then Inl kRiskBreachPriceBand else Inr ()))"

definition CheckLotSize :: "risk_manager \<Rightarrow> risk_request \<Rightarrow> unit result" where
  "CheckLotSize rm req =
     (case um_find (rm_configs rm) (sym_value (rr_symbol req)) of
        None \<Rightarrow> Inr ()
      | Some cfg \<Rightarrow>
          (let lot = sc_lot_size cfg
           in if lot \<le> 0 then Inr ()
              else if rr_quantity req smod lot \<noteq> 0 then Inl kRiskBreachLotSize
              else Inr ()))"

fun tick_loop :: "price \<Rightarrow> tick_band list \<Rightarrow> unit result" where
  "tick_loop p [] = Inl kRiskBreachTickSize"
| "tick_loop p (band # bands) =
     (if tb_low band \<le> p \<and> p \<le> tb_high band
      then if tb_tick band \<le> 0 \<or> p smod tb_tick band \<noteq> 0 then Inl kRiskBreachTickSize else Inr ()
      else tick_loop p bands)"

definition CheckTickSize :: "risk_manager \<Rightarrow> risk_request \<Rightarrow> unit result" where
  "CheckTickSize rm req =
     (if rr_type req \<noteq> kLimit then Inr ()
      else (case um_find (rm_configs rm) (sym_value (rr_symbol req)) of
              None \<Rightarrow> Inr ()
            | Some cfg \<Rightarrow>
                if sc_tick_bands cfg = [] then Inr ()
                else tick_loop (rr_price req) (sc_tick_bands cfg)))"

definition CheckDailyLimit :: "risk_manager \<Rightarrow> risk_request \<Rightarrow> unit result" where
  "CheckDailyLimit rm req =
     (if rr_type req \<noteq> kLimit then Inr ()
      else (case um_find (rm_configs rm) (sym_value (rr_symbol req)) of
              None \<Rightarrow> Inr ()
            | Some cfg \<Rightarrow>
                if sc_previous_close cfg \<le> 0 \<or> sc_daily_limit_bps cfg \<le> 0 then Inr ()
                else (let diff = (if rr_price req \<ge> sc_previous_close cfg
                                  then rr_price req - sc_previous_close cfg
                                  else sc_previous_close cfg - rr_price req);
                          lhs = diff * 10000;
                          rhs = sc_previous_close cfg * sc_daily_limit_bps cfg
                      in if lhs > rhs then Inl kRiskBreachDailyLimit else Inr ())))"

definition one_second :: int where
  "one_second = 1000000000"

definition CheckRateLimit :: "risk_manager \<Rightarrow> clock \<Rightarrow> unit result \<times> risk_manager \<times> clock" where
  "CheckRateLimit rm clk =
     (case Now clk of (now, clk') \<Rightarrow>
        (let window_start = now - one_second;
             recent = dropWhile (\<lambda>t. t < window_start) (rm_recent_orders rm)
         in if int (length recent) \<ge> rl_max_orders_per_second (rm_limits rm)
            then (Inl kRiskBreachRateLimit, rm\<lparr>rm_recent_orders := recent\<rparr>, clk')
            else (Inr (), rm\<lparr>rm_recent_orders := recent @ [now]\<rparr>, clk')))"

definition Check :: "risk_manager \<Rightarrow> risk_request \<Rightarrow> clock \<Rightarrow> unit result \<times> risk_manager \<times> clock" where
  "Check rm req clk =
     (if rr_quantity req \<le> 0 then (Inl kInvalidQuantity, rm, clk)
      else if sym_value (rr_symbol req) = [] then (Inl kInvalidSymbol, rm, clk)
      else if rr_type req = kLimit \<and> rr_price req \<le> 0 then (Inl kInvalidPrice, rm, clk)
      else if rr_quantity req > rl_max_order_qty (rm_limits rm) then (Inl kRiskBreachMaxQty, rm, clk)
      else if rr_type req = kLimit
              \<and> rr_price req * rr_quantity req > rl_max_notional (rm_limits rm)
           then (Inl kRiskBreachNotional, rm, clk)
      else (case (if rr_type req = kLimit then CheckPriceBand rm req else Inr ()) of
              Inl e \<Rightarrow> (Inl e, rm, clk)
            | Inr _ \<Rightarrow>
           (case CheckLotSize rm req of
              Inl e \<Rightarrow> (Inl e, rm, clk)
            | Inr _ \<Rightarrow>
           (case CheckTickSize rm req of
              Inl e \<Rightarrow> (Inl e, rm, clk)
            | Inr _ \<Rightarrow>
           (case CheckDailyLimit rm req of
              Inl e \<Rightarrow> (Inl e, rm, clk)
            | Inr _ \<Rightarrow> CheckRateLimit rm clk)))))"

declare CheckPriceBand_def [risk_defs] CheckLotSize_def [risk_defs] CheckTickSize_def [risk_defs]
  CheckDailyLimit_def [risk_defs]

subsection \<open>What the checks mean\<close>

text \<open>
  The controls as the documentation states them: ratios of prices instead of
  cross-multiplied integers, divisibility instead of remainders, and the first tick band that
  contains the price.
\<close>

definition within_ratio :: "price \<Rightarrow> price \<Rightarrow> int \<Rightarrow> bool" where
  "within_ratio p ref bps \<longleftrightarrow> of_int \<bar>p - ref\<bar> / of_int ref \<le> (of_int bps / 10000 :: rat)"

definition band_ok :: "risk_manager \<Rightarrow> risk_request \<Rightarrow> bool" where
  "band_ok rm req \<longleftrightarrow> (case GetReferencePrice rm (rr_symbol req) of
       None \<Rightarrow> True
     | Some ref \<Rightarrow> ref \<le> 0 \<or> within_ratio (rr_price req) ref (rl_price_band_bps (rm_limits rm)))"

definition lot_ok :: "risk_manager \<Rightarrow> risk_request \<Rightarrow> bool" where
  "lot_ok rm req \<longleftrightarrow> (case GetSymbolConfig rm (rr_symbol req) of
       None \<Rightarrow> True
     | Some cfg \<Rightarrow> sc_lot_size cfg \<le> 0 \<or> sc_lot_size cfg dvd rr_quantity req)"

definition tick_ok :: "risk_manager \<Rightarrow> risk_request \<Rightarrow> bool" where
  "tick_ok rm req \<longleftrightarrow> (case GetSymbolConfig rm (rr_symbol req) of
       None \<Rightarrow> True
     | Some cfg \<Rightarrow> sc_tick_bands cfg = [] \<or>
         (case List.find (\<lambda>b. tb_low b \<le> rr_price req \<and> rr_price req \<le> tb_high b)
                 (sc_tick_bands cfg) of
            None \<Rightarrow> False
          | Some b \<Rightarrow> 0 < tb_tick b \<and> tb_tick b dvd rr_price req))"

definition daily_ok :: "risk_manager \<Rightarrow> risk_request \<Rightarrow> bool" where
  "daily_ok rm req \<longleftrightarrow> (case GetSymbolConfig rm (rr_symbol req) of
       None \<Rightarrow> True
     | Some cfg \<Rightarrow> sc_previous_close cfg \<le> 0 \<or> sc_daily_limit_bps cfg \<le> 0 \<or>
         within_ratio (rr_price req) (sc_previous_close cfg) (sc_daily_limit_bps cfg))"

definition within_controls :: "risk_manager \<Rightarrow> risk_request \<Rightarrow> bool" where
  "within_controls rm req \<longleftrightarrow>
     0 < rr_quantity req \<and> rr_quantity req \<le> rl_max_order_qty (rm_limits rm)
     \<and> sym_value (rr_symbol req) \<noteq> [] \<and> lot_ok rm req
     \<and> (rr_type req = kLimit \<longrightarrow>
          0 < rr_price req
          \<and> rr_price req * rr_quantity req \<le> rl_max_notional (rm_limits rm)
          \<and> band_ok rm req \<and> tick_ok rm req \<and> daily_ok rm req)"

lemma smod_zero_iff: "(a :: int) smod b = 0 \<longleftrightarrow> b dvd a"
proof -
  have "a smod b = 0 \<longleftrightarrow> sgn a = 0 \<or> \<bar>a\<bar> mod \<bar>b\<bar> = 0"
    by (simp add: smod_int_alt_def)
  also have "\<dots> \<longleftrightarrow> b dvd a"
    by (auto simp: sgn_0_0 simp flip: dvd_eq_mod_eq_0)
  finally show ?thesis .
qed

lemma within_ratio_int:
  assumes "0 < ref"
  shows "within_ratio p ref bps \<longleftrightarrow> \<bar>p - ref\<bar> * 10000 \<le> ref * bps"
proof -
  have "within_ratio p ref bps \<longleftrightarrow> (of_int (\<bar>p - ref\<bar> * 10000) :: rat) \<le> of_int (ref * bps)"
    using assms by (simp add: within_ratio_def field_simps)
  then show ?thesis by (simp only: of_int_le_iff)
qed

lemma CheckPriceBand_iff:
  "CheckPriceBand rm req = (if band_ok rm req then Inr () else Inl kRiskBreachPriceBand)"
  by (auto simp: risk_defs band_ok_def GetReferencePrice_def within_ratio_int not_le Let_def
      split: option.splits)

lemma CheckLotSize_iff:
  "CheckLotSize rm req = (if lot_ok rm req then Inr () else Inl kRiskBreachLotSize)"
  by (auto simp: risk_defs lot_ok_def GetSymbolConfig_def smod_zero_iff Let_def
      split: option.splits)

lemma tick_loop_find: "tick_loop p bands =
    (case List.find (\<lambda>b. tb_low b \<le> p \<and> p \<le> tb_high b) bands of
       None \<Rightarrow> Inl kRiskBreachTickSize
     | Some b \<Rightarrow> if 0 < tb_tick b \<and> tb_tick b dvd p then Inr () else Inl kRiskBreachTickSize)"
  by (induction bands) (auto simp: smod_zero_iff)

lemma CheckTickSize_iff: "CheckTickSize rm req =
    (if rr_type req = kLimit \<longrightarrow> tick_ok rm req then Inr () else Inl kRiskBreachTickSize)"
  by (auto simp: risk_defs tick_ok_def GetSymbolConfig_def tick_loop_find split: option.splits)

lemma CheckDailyLimit_iff: "CheckDailyLimit rm req =
    (if rr_type req = kLimit \<longrightarrow> daily_ok rm req then Inr () else Inl kRiskBreachDailyLimit)"
  by (auto simp: risk_defs daily_ok_def GetSymbolConfig_def within_ratio_int not_le Let_def abs_if
      split: option.splits)

lemmas check_iffs = CheckPriceBand_iff CheckLotSize_iff CheckTickSize_iff CheckDailyLimit_iff

lemma Check_within:
  "within_controls rm req \<Longrightarrow> Check rm req clk = CheckRateLimit rm clk"
  by (auto simp: Check_def check_iffs within_controls_def not_le)

lemma Check_outside:
  "\<not> within_controls rm req \<Longrightarrow> \<exists>e. e \<noteq> kRiskBreachRateLimit \<and> Check rm req clk = (Inl e, rm, clk)"
  by (auto simp: Check_def check_iffs within_controls_def not_le)

text \<open>The risk manager never changes its limits, reference prices or configuration.\<close>

lemma Check_frame: "Check rm req clk = (res, rm', clk') \<Longrightarrow>
    rm_limits rm' = rm_limits rm \<and> rm_reference_prices rm' = rm_reference_prices rm
    \<and> rm_configs rm' = rm_configs rm"
  using Check_within [of rm req clk] Check_outside [of rm req clk]
  by (cases "within_controls rm req") (auto simp: CheckRateLimit_def Now_def Let_def split: if_splits)

subsection \<open>The sliding window\<close>

text \<open>
  \<open>rate_run\<close> makes one rate check per reading of a list of clock readings and returns the
  readings at which it accepted. Over a clock that does not go back, the accepted readings of
  every one-second window number at most \<open>max_orders_per_second\<close>.
\<close>

fun rate_run :: "risk_manager \<Rightarrow> timestamp list \<Rightarrow> timestamp list" where
  "rate_run rm [] = []"
| "rate_run rm (t # ts) =
     (case CheckRateLimit rm (sconst t) of
        (Inl _, rm', _) \<Rightarrow> rate_run rm' ts
      | (Inr _, rm', _) \<Rightarrow> t # rate_run rm' ts)"

definition in_window :: "timestamp \<Rightarrow> timestamp list \<Rightarrow> timestamp list" where
  "in_window t ts = filter (\<lambda>a. t - one_second \<le> a \<and> a \<le> t) ts"

lemma dropWhile_later:
  "sorted ts \<Longrightarrow> c \<le> (d :: int) \<Longrightarrow> dropWhile (\<lambda>t. t < d) (dropWhile (\<lambda>t. t < c) ts) =
     dropWhile (\<lambda>t. t < d) ts"
  by (induction ts) auto

lemma dropWhile_filter_sorted:
  "sorted ts \<Longrightarrow> dropWhile (\<lambda>t. t < d) ts = filter (\<lambda>t. (d :: int) \<le> t) ts"
proof (induction ts)
  case (Cons t ts)
  then show ?case by (cases "t < d") (auto simp: filter_id_conv intro!: sym [OF filter_True])
qed simp

lemma CheckRateLimit_const:
  "CheckRateLimit rm (sconst t) =
     (let recent = dropWhile (\<lambda>a. a < t - one_second) (rm_recent_orders rm)
      in if int (length recent) \<ge> rl_max_orders_per_second (rm_limits rm)
         then (Inl kRiskBreachRateLimit, rm\<lparr>rm_recent_orders := recent\<rparr>, sconst t)
         else (Inr (), rm\<lparr>rm_recent_orders := recent @ [t]\<rparr>, sconst t))"
  by (simp add: CheckRateLimit_def Now_def Let_def)

lemma in_window_snoc:
  assumes "sorted (acc @ [now])" and "int (length (in_window t acc)) \<le> N"
    and "int (length (filter (\<lambda>a. now - one_second \<le> a) (acc @ [now]))) \<le> N"
  shows "int (length (in_window t (acc @ [now]))) \<le> N"
proof (cases "t < now")
  case True
  with assms(2) show ?thesis by (simp add: in_window_def)
next
  case False
  then have "in_window t (acc @ [now]) =
      filter (\<lambda>a. a \<le> t \<and> t - one_second \<le> a) (filter (\<lambda>a. now - one_second \<le> a) (acc @ [now]))"
    by (auto simp: in_window_def intro!: filter_cong)
  also have "length \<dots> \<le> length (filter (\<lambda>a. now - one_second \<le> a) (acc @ [now]))"
    by (rule length_filter_le)
  finally show ?thesis using assms(3) by linarith
qed

text \<open>One accepted check: the new window is again the tail of the accepted readings.\<close>

lemma accepted_step:
  assumes "sorted (acc @ now # ts)" and "recent = dropWhile (\<lambda>a. a < c) acc" and "c \<le> now - one_second"
  defines "recent' \<equiv> dropWhile (\<lambda>a. a < now - one_second) recent"
  shows "recent' = dropWhile (\<lambda>a. a < now - one_second) acc"
    and "recent' @ [now] = dropWhile (\<lambda>a. a < now - one_second) (acc @ [now])"
    and "recent' @ [now] = filter (\<lambda>a. now - one_second \<le> a) (acc @ [now])"
proof -
  have acc: "sorted acc" and all: "sorted (acc @ [now])"
    using assms(1) by (auto simp: sorted_append)
  show *: "recent' = dropWhile (\<lambda>a. a < now - one_second) acc"
    unfolding recent'_def assms(2) by (rule dropWhile_later [OF acc assms(3)])
  show "recent' @ [now] = filter (\<lambda>a. now - one_second \<le> a) (acc @ [now])"
    by (simp add: * dropWhile_filter_sorted [OF acc] one_second_def)
  then show "recent' @ [now] = dropWhile (\<lambda>a. a < now - one_second) (acc @ [now])"
    by (simp only: dropWhile_filter_sorted [OF all])
qed

lemma rate_run_window:
  assumes "sorted (acc @ ts)" and "0 \<le> rl_max_orders_per_second (rm_limits rm)"
    and "rm_recent_orders rm = dropWhile (\<lambda>a. a < c) acc" and "\<forall>t \<in> set ts. c \<le> t - one_second"
    and "\<forall>t. int (length (in_window t acc)) \<le> rl_max_orders_per_second (rm_limits rm)"
  shows "int (length (in_window t (acc @ rate_run rm ts))) \<le> rl_max_orders_per_second (rm_limits rm)"
  using assms
proof (induction rm ts arbitrary: acc c rule: rate_run.induct)
  case (1 rm)
  then show ?case by simp
next
  case (2 rm now ts)
  let ?N = "rl_max_orders_per_second (rm_limits rm)"
  let ?d = "now - one_second"
  let ?recent = "dropWhile (\<lambda>a. a < ?d) (rm_recent_orders rm)"
  note A = accepted_step [OF "2.prems"(1,3)]
  have later: "\<forall>t \<in> set ts. ?d \<le> t - one_second"
    using "2.prems"(1) by (auto simp: sorted_append)
  show ?case
  proof (cases "int (length ?recent) \<ge> ?N")
    case True
    let ?rm = "rm\<lparr>rm_recent_orders := ?recent\<rparr>"
    have step: "CheckRateLimit rm (sconst now) = (Inl kRiskBreachRateLimit, ?rm, sconst now)"
      using True by (simp add: CheckRateLimit_const Let_def)
    have "int (length (in_window t (acc @ rate_run ?rm ts))) \<le> rl_max_orders_per_second (rm_limits ?rm)"
      by (rule "2.IH"(1) [OF step [symmetric] refl refl, of _ ?d])
        (use "2.prems" A later in \<open>auto simp: sorted_append\<close>)
    then show ?thesis by (simp add: step)
  next
    case False
    let ?rm = "rm\<lparr>rm_recent_orders := ?recent @ [now]\<rparr>"
    have step: "CheckRateLimit rm (sconst now) = (Inr (), ?rm, sconst now)"
      using False by (simp add: CheckRateLimit_const Let_def)
    have "int (length (?recent @ [now])) \<le> ?N" using False by simp
    then have window: "\<forall>t. int (length (in_window t (acc @ [now]))) \<le> ?N"
      using "2.prems"(1,4,5) A(3) by (intro allI in_window_snoc) (auto simp: sorted_append)
    have "int (length (in_window t ((acc @ [now]) @ rate_run ?rm ts))) \<le>
        rl_max_orders_per_second (rm_limits ?rm)"
      by (rule "2.IH"(2) [OF step [symmetric] refl refl, of _ ?d])
        (use "2.prems" A(2) later window in \<open>auto simp: sorted_append\<close>)
    then show ?thesis by (simp add: step)
  qed
qed

end
