(* ===== verification/Market_Data.thy ===== *)
theory Market_Data
  imports Risk_Manager
begin

section \<open>Market data (src/src/core/market_data/)\<close>

text \<open>
  Class \<open>MarketDataHandler\<close>: one snapshot per symbol, and the reference prices it pushes into
  the risk manager it shares with the order path. Each operation takes and returns both. The
  mid price of \<open>OnBbo\<close> adds two 64-bit prices: \<open>None\<close> stands for the undefined behaviour of
  an overflowing sum.
\<close>

record bbo =
  bb_symbol :: symbol
  bb_bid_price :: price
  bb_bid_qty :: quantity
  bb_ask_price :: price
  bb_ask_qty :: quantity
  bb_timestamp :: timestamp

record market_snapshot =
  sn_bbo :: bbo
  sn_last_trade_price :: price
  sn_last_trade_qty :: quantity
  sn_last_update :: timestamp

record market_data_handler =
  md_snapshots :: "(string, market_snapshot) umap"

definition MarketDataHandler :: market_data_handler where
  "MarketDataHandler = \<lparr>md_snapshots = []\<rparr>"

definition empty_snapshot :: market_snapshot where
  \<comment> \<open>the value-initialised element that \<open>operator[]\<close> inserts; the epoch is time 0\<close>
  "empty_snapshot = \<lparr>sn_bbo = \<lparr>bb_symbol = \<lparr>sym_value = []\<rparr>, bb_bid_price = 0, bb_bid_qty = 0,
                                bb_ask_price = 0, bb_ask_qty = 0, bb_timestamp = 0\<rparr>,
                     sn_last_trade_price = 0, sn_last_trade_qty = 0, sn_last_update = 0\<rparr>"

definition snapshot_at :: "market_data_handler \<Rightarrow> symbol \<Rightarrow> market_snapshot" where
  "snapshot_at md s =
     (case um_find (md_snapshots md) (sym_value s) of None \<Rightarrow> empty_snapshot | Some sn \<Rightarrow> sn)"

definition put_snapshot ::
  "symbol \<Rightarrow> market_snapshot \<Rightarrow> market_data_handler \<Rightarrow> market_data_handler" where
  "put_snapshot s sn md = md\<lparr>md_snapshots := um_assign (sym_value s) sn (md_snapshots md)\<rparr>"

definition bbo_reference :: "bbo \<Rightarrow> price option" where
  "bbo_reference b =
     (if bb_bid_price b > 0 \<and> bb_ask_price b > 0
      then map_option (\<lambda>mid. mid sdiv 2) (i64_add (bb_bid_price b) (bb_ask_price b))
      else if bb_bid_price b > 0 then Some (bb_bid_price b)
      else if bb_ask_price b > 0 then Some (bb_ask_price b)
      else Some 0)"

definition OnBbo ::
  "bbo \<Rightarrow> market_data_handler \<times> risk_manager \<Rightarrow> (market_data_handler \<times> risk_manager) option" where
  "OnBbo b st =
     (case st of (md, rm) \<Rightarrow>
        (let md' = put_snapshot (bb_symbol b)
                     ((snapshot_at md (bb_symbol b))\<lparr>sn_bbo := b, sn_last_update := bb_timestamp b\<rparr>) md
         in case bbo_reference b of
              None \<Rightarrow> None
            | Some ref \<Rightarrow>
                Some (md', if ref > 0 then SetReferencePrice (bb_symbol b) ref rm else rm)))"

definition OnTrade ::
  "symbol \<Rightarrow> price \<Rightarrow> quantity \<Rightarrow> clock \<Rightarrow> market_data_handler \<times> risk_manager \<Rightarrow>
   (market_data_handler \<times> risk_manager) \<times> clock" where
  "OnTrade s p qty clk st =
     (case st of (md, rm) \<Rightarrow>
      case Now clk of (now, clk') \<Rightarrow>
        (let sn = snapshot_at md s;
             sn' = sn\<lparr>sn_bbo := (sn_bbo sn)\<lparr>bb_symbol := s\<rparr>, sn_last_trade_price := p,
                      sn_last_trade_qty := qty, sn_last_update := now\<rparr>
         in ((put_snapshot s sn' md, if p > 0 then SetReferencePrice s p rm else rm), clk')))"

definition GetSnapshot :: "market_data_handler \<Rightarrow> symbol \<Rightarrow> market_snapshot option" where
  "GetSnapshot md s = um_find (md_snapshots md) (sym_value s)"

definition SymbolCount :: "market_data_handler \<Rightarrow> nat" where
  "SymbolCount md = length (md_snapshots md)"

subsection \<open>Reference prices\<close>

lemma GetReferencePrice_Set [simp]:
  "GetReferencePrice (SetReferencePrice s p rm) s' =
     (if sym_value s' = sym_value s then Some p else GetReferencePrice rm s')"
  by (simp add: GetReferencePrice_def SetReferencePrice_def umap_simps)

lemma GetSnapshot_put [simp]:
  "GetSnapshot (put_snapshot s sn md) s' =
     (if sym_value s' = sym_value s then Some sn else GetSnapshot md s')"
  by (simp add: GetSnapshot_def put_snapshot_def umap_simps)

lemma sdiv_two_pos: "0 < (a :: int) \<Longrightarrow> a sdiv 2 = a div 2"
  by (simp add: signed_divide_int_def)

text \<open>The mid price lies between the two quotes.\<close>

lemma bbo_reference_mid:
  assumes "0 < bb_bid_price b" "0 < bb_ask_price b" "bb_bid_price b + bb_ask_price b \<le> i64_max"
  shows "bbo_reference b = Some ((bb_bid_price b + bb_ask_price b) div 2)"
  using assms by (simp add: bbo_reference_def i64_add_nonneg sdiv_two_pos)

end
