(* ===== verification/Risk_Properties.thy ===== *)
theory Risk_Properties
  imports Market_Data
begin

section \<open>Properties of the risk controls and of market data\<close>

text \<open>
  The verdict of \<open>Check\<close> in terms of the documented controls, the bound of the rate limiter, the
  tick table of the exchange, the machine arithmetic of the checks, and what market data does
  to the reference prices that the price band uses.
\<close>

subsection \<open>The verdict\<close>

text \<open>The controls of a request in the order in which the documentation lists them.\<close>

definition controls :: "risk_manager \<Rightarrow> risk_request \<Rightarrow> (oems_error \<times> bool) list" where
  "controls rm req =
     (let limit = (rr_type req = kLimit) in
      [(kInvalidQuantity, 0 < rr_quantity req),
       (kInvalidSymbol, sym_value (rr_symbol req) \<noteq> []),
       (kInvalidPrice, \<not> limit \<or> 0 < rr_price req),
       (kRiskBreachMaxQty, rr_quantity req \<le> rl_max_order_qty (rm_limits rm)),
       (kRiskBreachNotional, \<not> limit \<or> rr_price req * rr_quantity req \<le> rl_max_notional (rm_limits rm)),
       (kRiskBreachPriceBand, \<not> limit \<or> band_ok rm req),
       (kRiskBreachLotSize, lot_ok rm req),
       (kRiskBreachTickSize, \<not> limit \<or> tick_ok rm req),
       (kRiskBreachDailyLimit, \<not> limit \<or> daily_ok rm req)])"

lemma Check_controls:
  "Check rm req clk = (case List.find (\<lambda>(e, ok). \<not> ok) (controls rm req) of
     Some (e, _) \<Rightarrow> (Inl e, rm, clk) | None \<Rightarrow> CheckRateLimit rm clk)"
  by (simp add: Check_def controls_def check_iffs Let_def not_le not_less)

text \<open>
  C7: \<open>Check\<close> reports the first violated control, and a violated control leaves the rate
  window and the clock alone. A request within all controls (price ratios, divisibility, the
  first matching tick band) is judged by the rate limiter alone.
\<close>

theorem Check_reports_first_violation:
  "Check rm req clk =
     (case List.find (\<lambda>(e, ok). \<not> ok) (controls rm req) of
        Some (e, _) \<Rightarrow> (Inl e, rm, clk)
      | None \<Rightarrow>
         (let recent = dropWhile (\<lambda>t. t < shd clk - one_second) (rm_recent_orders rm)
          in if int (length recent) < rl_max_orders_per_second (rm_limits rm)
             then (Inr (), rm\<lparr>rm_recent_orders := recent @ [shd clk]\<rparr>, stl clk)
             else (Inl kRiskBreachRateLimit, rm\<lparr>rm_recent_orders := recent\<rparr>, stl clk)))"
  unfolding Check_controls by (simp add: CheckRateLimit_def Now_def Let_def not_le split: option.splits)

text \<open>
  C21: the rate limiter. When the clock does not go back, then whatever the sequence of
  readings at which checks are made, the accepted ones never number more than
  \<open>max_orders_per_second\<close> within any closed window of one second.
\<close>

theorem rate_limit_holds:
  assumes "sorted ts" and "0 \<le> rl_max_orders_per_second limits"
  shows "int (length (in_window t (rate_run (RiskManager limits) ts))) \<le> rl_max_orders_per_second limits"
proof -
  have "\<exists>c. \<forall>t \<in> set ts. c \<le> t - one_second"
    using assms(1) by (cases ts) (auto intro!: exI [of _ "hd ts - one_second"])
  then obtain c where "\<forall>t \<in> set ts. c \<le> t - one_second" ..
  with rate_run_window [of "[]" ts "RiskManager limits" c t] assms show ?thesis
    by (simp add: RiskManager_def in_window_def)
qed

lemma rate_limit_holds_witness:
  "rate_run (RiskManager (default_limits\<lparr>rl_max_orders_per_second := 2\<rparr>)) [0, 5, 7, 1000000006] = [0, 5, 1000000006]
   \<and> int (length (in_window 7 (rate_run (RiskManager (default_limits\<lparr>rl_max_orders_per_second := 2\<rparr>))
       [0, 5, 7, 1000000006]))) \<le> 2"
  using rate_limit_holds [of "[0, 5, 7, 1000000006]" "default_limits\<lparr>rl_max_orders_per_second := 2\<rparr>" 7]
  by (simp add: RiskManager_def default_limits_def CheckRateLimit_const one_second_def Let_def)

subsection \<open>The exchange's tick table\<close>

lemma GetSymbolConfig_Set [simp]:
  "GetSymbolConfig (SetSymbolConfig s cfg rm) s' =
     (if sym_value s' = sym_value s then Some (cfg\<lparr>sc_symbol := s\<rparr>) else GetSymbolConfig rm s')"
  by (simp add: GetSymbolConfig_def SetSymbolConfig_def umap_simps)

lemma bands_disjoint:
  "sorted_wrt (\<lambda>a b. tb_high a < tb_low b) bs \<Longrightarrow> b \<in> set bs \<Longrightarrow> b' \<in> set bs \<Longrightarrow>
   tb_low b \<le> p \<and> p \<le> tb_high b \<Longrightarrow> tb_low b' \<le> p \<and> p \<le> tb_high b' \<Longrightarrow> b' = b"
  by (induction bs) fastforce+

lemma tse_bands_sorted: "sorted_wrt (\<lambda>a b. tb_high a < tb_low b) BuildTseStandardTickBands"
  by (simp add: BuildTseStandardTickBands_def i64_max_def)

lemma tse_bands_ticks: "b \<in> set BuildTseStandardTickBands \<Longrightarrow> 0 < tb_tick b"
  by (auto simp: BuildTseStandardTickBands_def)

lemma tse_band_exists:
  assumes "0 \<le> p" "p \<le> i64_max"
  shows "\<exists>b. List.find (\<lambda>b. tb_low b \<le> p \<and> p \<le> tb_high b) BuildTseStandardTickBands = Some b
    \<and> b \<in> set BuildTseStandardTickBands \<and> tb_low b \<le> p \<and> p \<le> tb_high b"
proof -
  have "List.find (\<lambda>b. tb_low b \<le> p \<and> p \<le> tb_high b) BuildTseStandardTickBands \<noteq> None"
    using assms by (simp add: BuildTseStandardTickBands_def)
  then show ?thesis by (auto simp: find_Some_iff)
qed

text \<open>
  C22: the standard tick table has no gap and no overlap. Every price from 0 to the largest
  64-bit price lies in exactly one band, whose tick is positive, and a limit order of a symbol
  configured with the table passes \<open>CheckTickSize\<close> exactly when its price is a multiple of
  that tick.
\<close>

theorem tse_bands_partition:
  assumes "0 \<le> p" "p \<le> i64_max"
  shows "\<exists>b \<in> set BuildTseStandardTickBands. tb_low b \<le> p \<and> p \<le> tb_high b \<and> 0 < tb_tick b
    \<and> (\<forall>b' \<in> set BuildTseStandardTickBands. tb_low b' \<le> p \<and> p \<le> tb_high b' \<longrightarrow> b' = b)
    \<and> CheckTickSize (SetSymbolConfig s (cfg\<lparr>sc_tick_bands := BuildTseStandardTickBands\<rparr>) rm)
          \<lparr>rr_symbol = s, rr_side = sd, rr_type = kLimit, rr_price = p, rr_quantity = q\<rparr>
        = (if tb_tick b dvd p then Inr () else Inl kRiskBreachTickSize)"
proof -
  from tse_band_exists [OF assms] obtain b where
    b: "List.find (\<lambda>b. tb_low b \<le> p \<and> p \<le> tb_high b) BuildTseStandardTickBands = Some b"
      "b \<in> set BuildTseStandardTickBands" "tb_low b \<le> p" "p \<le> tb_high b"
    by blast
  then have "CheckTickSize (SetSymbolConfig s (cfg\<lparr>sc_tick_bands := BuildTseStandardTickBands\<rparr>) rm)
      \<lparr>rr_symbol = s, rr_side = sd, rr_type = kLimit, rr_price = p, rr_quantity = q\<rparr>
      = (if tb_tick b dvd p then Inr () else Inl kRiskBreachTickSize)"
    using tse_bands_ticks [OF b(2)] by (auto simp: CheckTickSize_iff tick_ok_def)
  with b tse_bands_ticks [OF b(2)] bands_disjoint [OF tse_bands_sorted b(2)] show ?thesis
    by (intro bexI [OF _ b(2)]) blast
qed

lemma tse_bands_partition_witness:
  "CheckTickSize (SetSymbolConfig \<lparr>sym_value = ''7203''\<rparr> \<lparr>sc_symbol = \<lparr>sym_value = ''''\<rparr>, sc_lot_size = 100,
       sc_previous_close = 0, sc_daily_limit_bps = 0, sc_tick_bands = BuildTseStandardTickBands\<rparr>
       (RiskManager default_limits))
     \<lparr>rr_symbol = \<lparr>sym_value = ''7203''\<rparr>, rr_side = kBuy, rr_type = kLimit, rr_price = 4001, rr_quantity = 1\<rparr>
   = Inl kRiskBreachTickSize"
  using tse_bands_partition [of 4001 "\<lparr>sym_value = ''7203''\<rparr>" "\<lparr>sc_symbol = \<lparr>sym_value = ''''\<rparr>,
      sc_lot_size = 100, sc_previous_close = 0, sc_daily_limit_bps = 0, sc_tick_bands = []\<rparr>"
      "RiskManager default_limits" kBuy 1]
  by (simp add: i64_max_def BuildTseStandardTickBands_def)

subsection \<open>Machine arithmetic\<close>

text \<open>
  The checks with their arithmetic at the width the code computes in: differences in
  \<open>std::int64_t\<close>, products in \<open>__int128\<close>, both reduced modulo their width.
\<close>

definition as_i64 :: "int \<Rightarrow> int" where
  "as_i64 x = sint (word_of_int x :: 64 word)"

definition as_i128 :: "int \<Rightarrow> int" where
  "as_i128 x = sint (word_of_int x :: 128 word)"

definition notional_breach_i128 :: "risk_manager \<Rightarrow> risk_request \<Rightarrow> bool" where
  "notional_breach_i128 rm req \<longleftrightarrow> as_i128 (rr_price req * rr_quantity req) > rl_max_notional (rm_limits rm)"

definition CheckPriceBand_i128 :: "risk_manager \<Rightarrow> risk_request \<Rightarrow> unit result" where
  "CheckPriceBand_i128 rm req =
     (case um_find (rm_reference_prices rm) (sym_value (rr_symbol req)) of
        None \<Rightarrow> Inr ()
      | Some ref \<Rightarrow>
          if ref \<le> 0 then Inr ()
          else (let diff = as_i64 \<bar>as_i64 (rr_price req - ref)\<bar>;
                    lhs = as_i128 (diff * 10000);
                    rhs = as_i128 (ref * rl_price_band_bps (rm_limits rm))
                in if lhs > rhs then Inl kRiskBreachPriceBand else Inr ()))"

definition CheckDailyLimit_i128 :: "risk_manager \<Rightarrow> risk_request \<Rightarrow> unit result" where
  "CheckDailyLimit_i128 rm req =
     (if rr_type req \<noteq> kLimit then Inr ()
      else (case um_find (rm_configs rm) (sym_value (rr_symbol req)) of
              None \<Rightarrow> Inr ()
            | Some cfg \<Rightarrow>
                if sc_previous_close cfg \<le> 0 \<or> sc_daily_limit_bps cfg \<le> 0 then Inr ()
                else (let diff = (if rr_price req \<ge> sc_previous_close cfg
                                  then as_i64 (rr_price req - sc_previous_close cfg)
                                  else as_i64 (sc_previous_close cfg - rr_price req));
                          lhs = as_i128 (diff * 10000);
                          rhs = as_i128 (sc_previous_close cfg * sc_daily_limit_bps cfg)
                      in if lhs > rhs then Inl kRiskBreachDailyLimit else Inr ())))"

lemma as_i64_id: "in_i64 x \<Longrightarrow> as_i64 x = x"
  by (simp add: as_i64_def sint_sbintrunc' signed_take_bit_int_eq_self in_i64_def i64_min_def i64_max_def)

lemma as_i128_id: "\<bar>x\<bar> \<le> 2 ^ 126 \<Longrightarrow> as_i128 x = x"
  by (simp add: as_i128_def sint_sbintrunc' signed_take_bit_int_eq_self abs_le_iff)

lemma abs_mult_bound: "\<bar>a\<bar> \<le> A \<Longrightarrow> \<bar>b\<bar> \<le> B \<Longrightarrow> \<bar>a * b\<bar> \<le> A * (B :: int)"
  unfolding abs_mult by (intro mult_mono) auto

lemma ratio_fits:
  assumes "0 < p" "in_i64 p" "0 < ref" "in_i64 ref" "in_i32 bps"
  shows "in_i64 (p - ref) \<and> in_i64 (ref - p) \<and> in_i64 \<bar>p - ref\<bar>
    \<and> as_i128 (\<bar>p - ref\<bar> * 10000) = \<bar>p - ref\<bar> * 10000 \<and> as_i128 (ref * bps) = ref * bps"
proof -
  have diff: "\<bar>p - ref\<bar> \<le> 9223372036854775807"
    using assms by (simp add: in_i64_def i64_max_def abs_le_iff)
  have "\<bar>ref * bps\<bar> \<le> 2 ^ 63 * 2 ^ 31"
    using assms by (intro abs_mult_bound) (auto simp: in_i64_def i64_max_def in_i32_def abs_le_iff)
  then have "as_i128 (ref * bps) = ref * bps" by (intro as_i128_id) simp
  moreover have "\<bar>\<bar>p - ref\<bar> * 10000\<bar> \<le> 9223372036854775807 * 10000"
    using diff by (intro abs_mult_bound) auto
  then have "as_i128 (\<bar>p - ref\<bar> * 10000) = \<bar>p - ref\<bar> * 10000" by (intro as_i128_id) simp
  ultimately show ?thesis
    using diff by (simp add: in_i64_def i64_min_def i64_max_def) linarith
qed

text \<open>
  C23: the arithmetic of the checks never overflows. For a request that passed the sign checks
  and prices, quantities and basis points that fit their types, the checks computed at machine
  width decide exactly as the model, which computes with integers.
\<close>

theorem checks_do_not_overflow:
  assumes "0 < rr_price req" "in_i64 (rr_price req)" "0 < rr_quantity req" "in_i64 (rr_quantity req)"
    and "in_i32 (rl_price_band_bps (rm_limits rm))"
    and "\<And>ref. GetReferencePrice rm (rr_symbol req) = Some ref \<Longrightarrow> in_i64 ref"
    and "\<And>cfg. GetSymbolConfig rm (rr_symbol req) = Some cfg \<Longrightarrow>
           in_i64 (sc_previous_close cfg) \<and> in_i32 (sc_daily_limit_bps cfg)"
  shows "notional_breach_i128 rm req = (rr_price req * rr_quantity req > rl_max_notional (rm_limits rm))
    \<and> CheckPriceBand_i128 rm req = CheckPriceBand rm req
    \<and> CheckDailyLimit_i128 rm req = CheckDailyLimit rm req"
proof (intro conjI)
  have p: "\<bar>rr_price req\<bar> \<le> 2 ^ 63" "\<bar>rr_quantity req\<bar> \<le> 2 ^ 63"
    using assms(1-4) by (simp_all add: in_i64_def i64_max_def)
  note ratio = ratio_fits [OF assms(1,2)]
  show "notional_breach_i128 rm req = (rr_price req * rr_quantity req > rl_max_notional (rm_limits rm))"
    using abs_mult_bound [OF p] by (simp add: notional_breach_i128_def as_i128_id)
  show "CheckPriceBand_i128 rm req = CheckPriceBand rm req"
    using ratio [OF _ _ assms(5)] assms(6)
    by (auto simp: CheckPriceBand_i128_def CheckPriceBand_def GetReferencePrice_def as_i64_id Let_def
        split: option.splits)
  show "CheckDailyLimit_i128 rm req = CheckDailyLimit rm req"
  proof (cases "um_find (rm_configs rm) (sym_value (rr_symbol req))")
    case (Some cfg)
    have cfg: "in_i64 (sc_previous_close cfg)" "in_i32 (sc_daily_limit_bps cfg)"
      using assms(7) Some by (auto simp: GetSymbolConfig_def)
    with Some ratio [OF _ cfg] show ?thesis
      by (auto simp: CheckDailyLimit_i128_def CheckDailyLimit_def as_i64_id Let_def abs_if split: if_splits)
  qed (simp add: CheckDailyLimit_i128_def CheckDailyLimit_def)
qed

lemma checks_do_not_overflow_witness:
  "CheckPriceBand_i128 (SetReferencePrice \<lparr>sym_value = ''7203''\<rparr> 1 (RiskManager default_limits))
     \<lparr>rr_symbol = \<lparr>sym_value = ''7203''\<rparr>, rr_side = kBuy, rr_type = kLimit, rr_price = i64_max, rr_quantity = i64_max\<rparr>
   = Inl kRiskBreachPriceBand"
proof -
  let ?rm = "SetReferencePrice \<lparr>sym_value = ''7203''\<rparr> 1 (RiskManager default_limits)"
  let ?req = "\<lparr>rr_symbol = \<lparr>sym_value = ''7203''\<rparr>, rr_side = kBuy, rr_type = kLimit, rr_price = i64_max,
      rr_quantity = i64_max\<rparr>"
  have "CheckPriceBand_i128 ?rm ?req = CheckPriceBand ?rm ?req"
    using checks_do_not_overflow [of ?req ?rm]
    by (simp add: in_i64_def i64_min_def i64_max_def in_i32_def default_limits_def SetReferencePrice_def
        RiskManager_def GetReferencePrice_def GetSymbolConfig_def um_assign_def)
  then show ?thesis
    by (simp add: CheckPriceBand_def SetReferencePrice_def RiskManager_def default_limits_def um_assign_def
        i64_max_def Let_def)
qed

subsection \<open>Market data\<close>

text \<open>
  A quote update. When the two positive prices do not add up within 64 bits the sum
  overflows (undefined behaviour). Otherwise \<open>OnBbo\<close> stores the quotes, keeps the last trade,
  leaves every other symbol alone, and makes the reference price lie between two positive
  quotes, or be the only positive quote, or stay as it was.
\<close>

theorem OnBbo_reference_price:
  "case OnBbo q (md, rm) of
     None \<Rightarrow> 0 < bb_bid_price q \<and> 0 < bb_ask_price q \<and> i64_max < bb_bid_price q + bb_ask_price q
   | Some (md', rm') \<Rightarrow>
       GetSnapshot md' (bb_symbol q) = Some ((snapshot_at md (bb_symbol q))\<lparr>sn_bbo := q, sn_last_update := bb_timestamp q\<rparr>)
       \<and> GetReferencePrice rm' (bb_symbol q) =
           (if 0 < bb_bid_price q \<and> 0 < bb_ask_price q then Some ((bb_bid_price q + bb_ask_price q) div 2)
            else if 0 < bb_bid_price q then Some (bb_bid_price q)
            else if 0 < bb_ask_price q then Some (bb_ask_price q)
            else GetReferencePrice rm (bb_symbol q))
       \<and> (0 < bb_bid_price q \<and> 0 < bb_ask_price q \<longrightarrow>
            min (bb_bid_price q) (bb_ask_price q) \<le> (bb_bid_price q + bb_ask_price q) div 2
            \<and> (bb_bid_price q + bb_ask_price q) div 2 \<le> max (bb_bid_price q) (bb_ask_price q))
       \<and> (\<forall>s. sym_value s \<noteq> sym_value (bb_symbol q) \<longrightarrow>
            GetSnapshot md' s = GetSnapshot md s \<and> GetReferencePrice rm' s = GetReferencePrice rm s)"
  by (auto simp: OnBbo_def bbo_reference_def Let_def i64_add_def in_i64_def i64_min_def sdiv_two_pos
      split: option.splits)

lemma OnBbo_reference_price_witness:
  "\<exists>md' rm'. OnBbo \<lparr>bb_symbol = \<lparr>sym_value = ''7203''\<rparr>, bb_bid_price = 99, bb_bid_qty = 1, bb_ask_price = 102,
       bb_ask_qty = 1, bb_timestamp = 3\<rparr> (MarketDataHandler, RiskManager default_limits) = Some (md', rm')
     \<and> GetReferencePrice rm' \<lparr>sym_value = ''7203''\<rparr> = Some 100"
  using OnBbo_reference_price [of "\<lparr>bb_symbol = \<lparr>sym_value = ''7203''\<rparr>, bb_bid_price = 99, bb_bid_qty = 1,
      bb_ask_price = 102, bb_ask_qty = 1, bb_timestamp = 3\<rparr>" MarketDataHandler "RiskManager default_limits"]
  by (auto simp: i64_max_def split: option.splits)

text \<open>
  C24: market data drives the price band. After a trade at a positive price a limit order of
  the symbol passes the band exactly when its price is within \<open>price_band_bps\<close> of the trade
  price; the quotes of the snapshot are kept, and a trade at a price that is not positive
  changes no reference price.
\<close>

theorem OnTrade_drives_price_band:
  "case OnTrade s p qty clk (md, rm) of ((md', rm'), clk') \<Rightarrow> clk' = stl clk
     \<and> (case GetSnapshot md' s of None \<Rightarrow> False | Some sn \<Rightarrow>
          sn_last_trade_price sn = p \<and> sn_last_trade_qty sn = qty \<and> sn_last_update sn = shd clk
          \<and> bb_bid_price (sn_bbo sn) = bb_bid_price (sn_bbo (snapshot_at md s))
          \<and> bb_ask_price (sn_bbo sn) = bb_ask_price (sn_bbo (snapshot_at md s)))
     \<and> (if 0 < p
        then CheckPriceBand rm' \<lparr>rr_symbol = s, rr_side = sd, rr_type = kLimit, rr_price = x, rr_quantity = n\<rparr>
          = (if within_ratio x p (rl_price_band_bps (rm_limits rm)) then Inr () else Inl kRiskBreachPriceBand)
        else rm' = rm)"
  by (simp add: OnTrade_def Now_def Let_def CheckPriceBand_iff band_ok_def) (simp add: SetReferencePrice_def)

end
