(* ===== verification/Price_Ladder.thy ===== *)
theory Price_Ladder
  imports Types
begin

section \<open>Ordered maps of price levels\<close>

text \<open>
  \<open>std::map<Price, std::deque<T>, Compare>\<close> as the list of its nodes in iteration order,
  over an arbitrary comparator \<open>before\<close>: \<open>std::greater\<close> for the bids of
  src/src/core/matching/order_book.h and \<open>std::less\<close> for its asks. Keys are the same when
  neither is before the other, as in the C++ container. The locale \<open>price_order\<close> is the
  contract of a comparator; its lemmas are what the order book relies on.
\<close>

type_synonym ('p, 'v) omap = "('p \<times> 'v) list"

definition same_key :: "('p \<Rightarrow> 'p \<Rightarrow> bool) \<Rightarrow> 'p \<Rightarrow> 'p \<Rightarrow> bool" where
  "same_key before k k' \<longleftrightarrow> \<not> before k k' \<and> \<not> before k' k"

fun om_find :: "('p \<Rightarrow> 'p \<Rightarrow> bool) \<Rightarrow> 'p \<Rightarrow> ('p, 'v) omap \<Rightarrow> 'v option" where
  "om_find before k [] = None"
| "om_find before k ((k', v) # m) =
     (if same_key before k k' then Some v else om_find before k m)"

fun om_put :: "('p \<Rightarrow> 'p \<Rightarrow> bool) \<Rightarrow> 'p \<Rightarrow> 'v \<Rightarrow> ('p, 'v) omap \<Rightarrow> ('p, 'v) omap" where
  \<comment> \<open>\<open>m[k] = v\<close>: a new node is linked before the first node its key precedes\<close>
  "om_put before k v [] = [(k, v)]"
| "om_put before k v ((k', v') # m) =
     (if before k k' then (k, v) # (k', v') # m
      else if before k' k then (k', v') # om_put before k v m
      else (k', v) # m)"

fun om_erase :: "('p \<Rightarrow> 'p \<Rightarrow> bool) \<Rightarrow> 'p \<Rightarrow> ('p, 'v) omap \<Rightarrow> ('p, 'v) omap" where
  "om_erase before k [] = []"
| "om_erase before k ((k', v) # m) =
     (if same_key before k k' then m else (k', v) # om_erase before k m)"

definition om_push_back ::
  "('p \<Rightarrow> 'p \<Rightarrow> bool) \<Rightarrow> 'p \<Rightarrow> 'e \<Rightarrow> ('p, 'e list) omap \<Rightarrow> ('p, 'e list) omap" where
  \<comment> \<open>\<open>m[k].push_back(e)\<close>: \<open>operator[]\<close> creates an empty queue for a new key\<close>
  "om_push_back before k e m =
     om_put before k ((case om_find before k m of None \<Rightarrow> [] | Some q \<Rightarrow> q) @ [e]) m"

abbreviation om_sorted :: "('p \<Rightarrow> 'p \<Rightarrow> bool) \<Rightarrow> ('p, 'v) omap \<Rightarrow> bool" where
  "om_sorted before m \<equiv> sorted_wrt before (map fst m)"

text \<open>All elements of a ladder, best price first and in queue order within a price.\<close>

definition om_flat :: "('p, 'e list) omap \<Rightarrow> 'e list" where
  "om_flat m = concat (map snd m)"

lemma om_flat_simps [simp]:
  "om_flat [] = []"
  "om_flat ((k, q) # m) = q @ om_flat m"
  by (simp_all add: om_flat_def)

locale price_order =
  fixes before :: "'p \<Rightarrow> 'p \<Rightarrow> bool"
  assumes before_irrefl: "\<not> before p p"
    and before_trans: "before p q \<Longrightarrow> before q r \<Longrightarrow> before p r"
    and before_total: "before p q \<or> p = q \<or> before q p"
begin

lemma before_asym: "before p q \<Longrightarrow> \<not> before q p"
  using before_irrefl before_trans by blast

lemma same_key_eq [simp]: "same_key before p q \<longleftrightarrow> p = q"
  using before_total before_irrefl by (auto simp: same_key_def)

lemma not_beforeD: "\<not> before p q \<Longrightarrow> p = q \<or> before q p"
  using before_total by blast

lemma om_find_put: "om_find before k (om_put before k' v m) =
    (if k = k' then Some v else om_find before k m)"
  by (induction m) (auto dest: not_beforeD simp: before_irrefl)

lemma om_keys_put: "fst ` set (om_put before k v m) = insert k (fst ` set m)"
proof (induction m)
  case (Cons x m)
  obtain k' v' where x: "x = (k', v')" by force
  consider "before k k'" | "\<not> before k k'" "before k' k" | "\<not> before k k'" "\<not> before k' k" "k = k'"
    using not_beforeD by blast
  then show ?case
  proof cases
    case 3
    then show ?thesis by (simp add: x)
  qed (use Cons in \<open>auto simp: x\<close>)
qed simp

lemma om_sorted_put: "om_sorted before m \<Longrightarrow> om_sorted before (om_put before k v m)"
proof (induction m)
  case (Cons x m)
  obtain k' v' where x: "x = (k', v')" by force
  have keys: "set (map fst (om_put before k v m)) = insert k (set (map fst m))"
    using om_keys_put by simp
  show ?case
    using Cons x keys by (auto simp del: set_map intro: before_trans dest: not_beforeD)
qed simp

lemma om_find_None_iff: "om_find before k m = None \<longleftrightarrow> k \<notin> fst ` set m"
  by (induction m) (auto split: if_splits)

lemma om_find_SomeD: "om_find before k m = Some v \<Longrightarrow> (k, v) \<in> set m"
  by (induction m) (auto split: if_splits)

lemma om_sorted_erase: "om_sorted before m \<Longrightarrow> om_sorted before (om_erase before k m)"
proof (induction m)
  case (Cons x m)
  have "set (om_erase before k m) \<subseteq> set m"
    by (induction m) (auto split: if_splits)
  with Cons show ?case by (cases x) auto
qed simp

text \<open>Splitting a sorted map at a key, the form in which the proofs see find, put and erase.\<close>

lemma om_split:
  assumes "om_sorted before m" and "(k, v) \<in> set m"
  obtains m1 m2 where "m = m1 @ (k, v) # m2"
    and "\<forall>x \<in> set m1. before (fst x) k" and "\<forall>x \<in> set m2. before k (fst x)"
proof -
  from assms(2) obtain m1 m2 where m: "m = m1 @ (k, v) # m2"
    by (auto simp: in_set_conv_decomp)
  with assms(1) show thesis
    by (intro that [of m1 m2]) (auto simp: sorted_wrt_append)
qed

lemma om_erase_split:
  assumes "\<forall>x \<in> set m1. before (fst x) k"
  shows "om_erase before k (m1 @ (k, v) # m2) = m1 @ m2"
  using assms before_irrefl by (induction m1) auto

lemma om_put_split:
  assumes "\<forall>x \<in> set m1. before (fst x) k"
  shows "om_put before k w (m1 @ (k, v) # m2) = m1 @ (k, w) # m2"
  using assms before_irrefl before_asym by (induction m1) auto

lemma om_find_split:
  assumes "\<forall>x \<in> set m1. before (fst x) k"
  shows "om_find before k (m1 @ (k, v) # m2) = Some v"
  using assms before_irrefl by (induction m1) auto

lemma om_put_new_split:
  assumes "om_sorted before m" and "k \<notin> fst ` set m"
  obtains m1 m2 where "m = m1 @ m2" and "om_put before k w m = m1 @ (k, w) # m2"
    and "\<forall>x \<in> set m1. before (fst x) k" and "\<forall>x \<in> set m2. before k (fst x)"
  using assms
proof (induction m arbitrary: thesis)
  case Nil
  then show ?case by simp
next
  case (Cons x m)
  obtain k' v' where x: "x = (k', v')" by force
  show ?case
  proof (cases "before k k'")
    case True
    with Cons.prems x show ?thesis
      by (intro Cons.prems(1) [of "[]" "x # m"]) (auto intro: before_trans)
  next
    case False
    with Cons.prems(3) x have k': "before k' k"
      using before_total by auto
    obtain m1 m2 where "m = m1 @ m2" and "om_put before k w m = m1 @ (k, w) # m2"
      and "\<forall>x \<in> set m1. before (fst x) k" and "\<forall>x \<in> set m2. before k (fst x)"
      using Cons.IH Cons.prems(2,3) by auto
    with False k' x show ?thesis
      by (intro Cons.prems(1) [of "x # m1" m2]) auto
  qed
qed

text \<open>\<open>m[k].push_back(e)\<close>: appended to the level of its price, or a new level.\<close>

lemma om_push_back_cases:
  assumes "om_sorted before m"
  obtains (level) m1 q m2 where "m = m1 @ (k, q) # m2"
      and "om_push_back before k e m = m1 @ (k, q @ [e]) # m2"
      and "\<forall>x \<in> set m1. before (fst x) k" and "\<forall>x \<in> set m2. before k (fst x)"
    | (new) m1 m2 where "m = m1 @ m2" and "om_push_back before k e m = m1 @ (k, [e]) # m2"
      and "\<forall>x \<in> set m1. before (fst x) k" and "\<forall>x \<in> set m2. before k (fst x)"
proof (cases "om_find before k m")
  case None
  then have "k \<notin> fst ` set m" by (simp add: om_find_None_iff)
  then obtain m1 m2 where "m = m1 @ m2" "om_put before k [e] m = m1 @ (k, [e]) # m2"
    "\<forall>x \<in> set m1. before (fst x) k" "\<forall>x \<in> set m2. before k (fst x)"
    using om_put_new_split [OF assms] by metis
  with None show ?thesis by (intro new) (auto simp: om_push_back_def)
next
  case (Some q)
  then obtain m1 m2 where "m = m1 @ (k, q) # m2"
    "\<forall>x \<in> set m1. before (fst x) k" "\<forall>x \<in> set m2. before k (fst x)"
    using om_split [OF assms om_find_SomeD] by metis
  with Some show ?thesis by (intro level) (auto simp: om_push_back_def om_put_split)
qed

lemma om_sorted_push_back:
  "om_sorted before m \<Longrightarrow> om_sorted before (om_push_back before k e m)"
  unfolding om_push_back_def by (rule om_sorted_put)

lemma om_keys_push_back:
  "fst ` set (om_push_back before k e m) = insert k (fst ` set m)"
  by (simp add: om_push_back_def om_keys_put)

text \<open>
  In the flat view the new element stands behind everything that is not strictly after it:
  behind all better prices and all earlier orders at its own price.
\<close>

lemma om_flat_push_back:
  assumes "om_sorted before m" and keys: "\<forall>(k, q) \<in> set m. \<forall>x \<in> set q. key x = k"
  shows "om_flat (om_push_back before k e m) =
      takeWhile (\<lambda>x. \<not> before k (key x)) (om_flat m) @ e #
      dropWhile (\<lambda>x. \<not> before k (key x)) (om_flat m)"
proof -
  have early: "\<forall>x \<in> set (om_flat m1). \<not> before k (key x)"
    if "\<forall>x \<in> set m1. before (fst x) k" "set m1 \<subseteq> set m" for m1
    using that keys before_asym by (fastforce simp: om_flat_def)
  have late: "\<forall>x \<in> set (om_flat m2). \<not> \<not> before k (key x)"
    if "\<forall>x \<in> set m2. before k (fst x)" "set m2 \<subseteq> set m" for m2
    using that keys by (fastforce simp: om_flat_def)
  from assms(1) show ?thesis
  proof (cases rule: om_push_back_cases [of _ k e])
    case (level m1 q m2)
    have "\<forall>x \<in> set (om_flat m1 @ q). \<not> before k (key x)"
      using early [of m1] level keys before_irrefl by auto
    moreover have "\<forall>x \<in> set (om_flat m2). \<not> \<not> before k (key x)"
      using late [of m2] level by auto
    ultimately show ?thesis
      using takeWhile_split [of "om_flat m1 @ q" _ "om_flat m2"] level
      by (simp add: om_flat_def)
  next
    case (new m1 m2)
    then show ?thesis
      using takeWhile_split [of "om_flat m1" _ "om_flat m2"] early [of m1] late [of m2]
      by (simp add: om_flat_def)
  qed
qed

end

text \<open>The two comparators of the order book.\<close>

interpretation bid_order: price_order "(>) :: price \<Rightarrow> price \<Rightarrow> bool"
  by unfold_locales auto

interpretation ask_order: price_order "(<) :: price \<Rightarrow> price \<Rightarrow> bool"
  by unfold_locales auto

end
