(* ===== verification/Order_Book.thy ===== *)
theory Order_Book
  imports Price_Ladder
begin

section \<open>The order book of one symbol (src/src/core/matching/order_book.h, order_book.cc)\<close>

text \<open>
  State and operations of class \<open>OrderBook\<close>, statement by statement. The two nested loops of
  \<open>MatchAgainst\<close> are the functions \<open>match_queue\<close> and \<open>match_side\<close> over the variables they
  mutate (record \<open>match_state\<close>); the parameters they only read are the record \<open>taker\<close>. Both
  are total: each round of the inner loop empties the front entry or the incoming quantity.
  The level totals of \<open>Bids()\<close> and \<open>Asks()\<close> are \<open>None\<close> when the 64-bit sum overflows.
\<close>

subsection \<open>State\<close>

record book_entry =
  be_order_id :: order_id
  be_side :: side
  be_price :: price
  be_remaining_qty :: quantity
  be_timestamp :: timestamp

record fill =
  fl_execution_id :: execution_id
  fl_symbol :: symbol
  fl_aggressive_order_id :: order_id
  fl_passive_order_id :: order_id
  fl_aggressive_side :: side
  fl_price :: price
  fl_quantity :: quantity
  fl_timestamp :: timestamp

record price_level =
  pl_price :: price
  pl_total_qty :: quantity
  pl_order_count :: nat

record add_order_result =
  ar_fills :: "fill list"
  ar_resting :: "book_entry option"

record index_entry =
  ix_side :: side
  ix_price :: price

type_synonym ladder = "(price, book_entry list) omap"

record order_book =
  ob_symbol :: symbol
  ob_bids :: ladder
  ob_asks :: ladder
  ob_id_index :: "(order_id, index_entry) umap"
  ob_next_execution_id :: execution_id

definition OrderBook :: "symbol \<Rightarrow> order_book" where
  "OrderBook s = \<lparr>ob_symbol = s, ob_bids = [], ob_asks = [], ob_id_index = [],
                  ob_next_execution_id = 1\<rparr>"

subsection \<open>Matching\<close>

record taker =
  tk_symbol :: symbol
  tk_id :: order_id
  tk_side :: side
  tk_type :: order_type
  tk_timestamp :: timestamp

record match_state =
  ms_remaining :: quantity
  ms_fills :: "fill list"
  ms_index :: "(order_id, index_entry) umap"
  ms_next_exec :: execution_id

definition mk_fill :: "taker \<Rightarrow> execution_id \<Rightarrow> book_entry \<Rightarrow> quantity \<Rightarrow> fill" where
  "mk_fill tk n passive trade_qty =
     \<lparr>fl_execution_id = n, fl_symbol = tk_symbol tk, fl_aggressive_order_id = tk_id tk,
      fl_passive_order_id = be_order_id passive, fl_aggressive_side = tk_side tk,
      fl_price = be_price passive, fl_quantity = trade_qty, fl_timestamp = tk_timestamp tk\<rparr>"

definition match_front :: "taker \<Rightarrow> book_entry \<Rightarrow> match_state \<Rightarrow> book_entry \<times> match_state" where
  \<comment> \<open>the body of the inner loop; the caller pops the entry when nothing of it remains\<close>
  "match_front tk passive ms =
     (let trade_qty = min (ms_remaining ms) (be_remaining_qty passive);
          passive' = passive\<lparr>be_remaining_qty := be_remaining_qty passive - trade_qty\<rparr>
      in (passive',
          \<lparr>ms_remaining = ms_remaining ms - trade_qty,
           ms_fills = ms_fills ms @ [mk_fill tk (ms_next_exec ms) passive trade_qty],
           ms_index = (if be_remaining_qty passive' = 0
                       then um_erase (be_order_id passive) (ms_index ms) else ms_index ms),
           ms_next_exec = ms_next_exec ms + 1\<rparr>))"

function match_queue ::
  "taker \<Rightarrow> book_entry list \<Rightarrow> match_state \<Rightarrow> book_entry list \<times> match_state" where
  "match_queue tk [] ms = ([], ms)"
| "match_queue tk (passive # queue) ms =
     (if ms_remaining ms > 0
      then (case match_front tk passive ms of (passive', ms') \<Rightarrow>
              if be_remaining_qty passive' = 0 then match_queue tk queue ms'
              else match_queue tk (passive' # queue) ms')
      else (passive # queue, ms))"
  by pat_completeness auto
termination
  by (relation "measure (\<lambda>(tk, q, ms). 2 * length q + (if ms_remaining ms > 0 then 1 else 0))")
    (auto simp: match_front_def Let_def min_def split: if_splits)

lemma match_queue_stops:
  "match_queue tk q ms = (q', ms') \<Longrightarrow> q' \<noteq> [] \<Longrightarrow> ms_remaining ms' \<le> 0"
proof (induction tk q ms rule: match_queue.induct)
  case (2 tk p queue ms)
  then show ?case
    by (cases "match_front tk p ms") (auto split: if_splits)
qed simp

function match_side ::
  "taker \<Rightarrow> (price \<Rightarrow> bool) \<Rightarrow> ladder \<Rightarrow> match_state \<Rightarrow> ladder \<times> match_state" where
  "match_side tk price_acceptable [] ms = ([], ms)"
| "match_side tk price_acceptable ((best_price, queue) # levels) ms =
     (if ms_remaining ms > 0
      then if tk_type tk = kLimit \<and> \<not> price_acceptable best_price
           then ((best_price, queue) # levels, ms)
           else (case match_queue tk queue ms of (queue', ms') \<Rightarrow>
                   if queue' = [] then match_side tk price_acceptable levels ms'
                   else match_side tk price_acceptable ((best_price, queue') # levels) ms')
      else ((best_price, queue) # levels, ms))"
  by pat_completeness auto
termination
  by (relation "measure (\<lambda>(tk, acc, lv, ms). 2 * length lv + (if ms_remaining ms > 0 then 1 else 0))")
    (auto dest!: sym [where t = "match_queue _ _ _"] dest: match_queue_stops split: if_splits)

definition MatchAgainst ::
  "order_book \<Rightarrow> order_id \<Rightarrow> side \<Rightarrow> order_type \<Rightarrow> price \<Rightarrow> quantity \<Rightarrow> timestamp \<Rightarrow>
   order_book \<times> fill list \<times> quantity" where
  "MatchAgainst b aggressive_id aggressive_side ty limit_price remaining_qty ts =
     (let tk = \<lparr>tk_symbol = ob_symbol b, tk_id = aggressive_id, tk_side = aggressive_side,
                tk_type = ty, tk_timestamp = ts\<rparr>;
          ms = \<lparr>ms_remaining = remaining_qty, ms_fills = [], ms_index = ob_id_index b,
                ms_next_exec = ob_next_execution_id b\<rparr>
      in if aggressive_side = kBuy
         then (case match_side tk (\<lambda>p. p \<le> limit_price) (ob_asks b) ms of (asks', ms') \<Rightarrow>
                 (b\<lparr>ob_asks := asks', ob_id_index := ms_index ms',
                    ob_next_execution_id := ms_next_exec ms'\<rparr>,
                  ms_fills ms', ms_remaining ms'))
         else (case match_side tk (\<lambda>p. p \<ge> limit_price) (ob_bids b) ms of (bids', ms') \<Rightarrow>
                 (b\<lparr>ob_bids := bids', ob_id_index := ms_index ms',
                    ob_next_execution_id := ms_next_exec ms'\<rparr>,
                  ms_fills ms', ms_remaining ms')))"

subsection \<open>Resting, adding, cancelling, restoring\<close>

definition Rest ::
  "order_book \<Rightarrow> order_id \<Rightarrow> side \<Rightarrow> price \<Rightarrow> quantity \<Rightarrow> timestamp \<Rightarrow> book_entry \<times> order_book" where
  "Rest b oid sd p qty ts =
     (let entry = \<lparr>be_order_id = oid, be_side = sd, be_price = p, be_remaining_qty = qty,
                   be_timestamp = ts\<rparr>;
          b' = (if sd = kBuy then b\<lparr>ob_bids := om_push_back (>) p entry (ob_bids b)\<rparr>
                else b\<lparr>ob_asks := om_push_back (<) p entry (ob_asks b)\<rparr>)
      in (entry,
          b'\<lparr>ob_id_index := um_emplace oid \<lparr>ix_side = sd, ix_price = p\<rparr> (ob_id_index b')\<rparr>))"

definition OrderBook_AddOrder ::
  "order_book \<Rightarrow> order_id \<Rightarrow> side \<Rightarrow> order_type \<Rightarrow> price \<Rightarrow> quantity \<Rightarrow> clock \<Rightarrow>
   add_order_result result \<times> order_book \<times> clock" where
  "OrderBook_AddOrder b oid sd ty p qty clk =
     (if qty \<le> 0 then (Inl kInvalidQuantity, b, clk)
      else if ty = kLimit \<and> p \<le> 0 then (Inl kInvalidPrice, b, clk)
      else if um_find (ob_id_index b) oid \<noteq> None then (Inl kDuplicateOrder, b, clk)
      else (case Now clk of (ts, clk') \<Rightarrow>
            case MatchAgainst b oid sd ty p qty ts of (b', fills, remaining) \<Rightarrow>
              if remaining > 0 \<and> ty \<noteq> kMarket
              then (case Rest b' oid sd p remaining ts of (entry, b'') \<Rightarrow>
                      (Inr \<lparr>ar_fills = fills, ar_resting = Some entry\<rparr>, b'', clk'))
              else (Inr \<lparr>ar_fills = fills, ar_resting = None\<rparr>, b', clk')))"

definition cancel_in ::
  "(price \<Rightarrow> price \<Rightarrow> bool) \<Rightarrow> order_id \<Rightarrow> price \<Rightarrow> ladder \<Rightarrow> (book_entry \<times> ladder) result" where
  "cancel_in before oid p book_side =
     (case om_find before p book_side of
        None \<Rightarrow> Inl kOrderNotFound
      | Some level \<Rightarrow>
          (case List.find (\<lambda>e. be_order_id e = oid) level of
             None \<Rightarrow> Inl kOrderNotFound
           | Some removed \<Rightarrow>
               (let level' = erase_first (\<lambda>e. be_order_id e = oid) level
                in Inr (removed, if level' = [] then om_erase before p book_side
                                 else om_put before p level' book_side))))"

definition OrderBook_CancelOrder :: "order_book \<Rightarrow> order_id \<Rightarrow> book_entry result \<times> order_book" where
  "OrderBook_CancelOrder b oid =
     (case um_find (ob_id_index b) oid of
        None \<Rightarrow> (Inl kOrderNotFound, b)
      | Some ix \<Rightarrow>
          if ix_side ix = kBuy
          then (case cancel_in (>) oid (ix_price ix) (ob_bids b) of
                  Inl e \<Rightarrow> (Inl e, b)
                | Inr (removed, bids') \<Rightarrow>
                    (Inr removed, b\<lparr>ob_bids := bids', ob_id_index := um_erase oid (ob_id_index b)\<rparr>))
          else (case cancel_in (<) oid (ix_price ix) (ob_asks b) of
                  Inl e \<Rightarrow> (Inl e, b)
                | Inr (removed, asks') \<Rightarrow>
                    (Inr removed, b\<lparr>ob_asks := asks', ob_id_index := um_erase oid (ob_id_index b)\<rparr>)))"

definition OrderBook_RestoreRestingOrder ::
  "order_book \<Rightarrow> order_id \<Rightarrow> side \<Rightarrow> price \<Rightarrow> quantity \<Rightarrow> timestamp \<Rightarrow> unit result \<times> order_book" where
  "OrderBook_RestoreRestingOrder b oid sd p qty ts =
     (if qty \<le> 0 then (Inl kInvalidQuantity, b)
      else if p \<le> 0 then (Inl kInvalidPrice, b)
      else if um_find (ob_id_index b) oid \<noteq> None then (Inl kDuplicateOrder, b)
      else (Inr (), snd (Rest b oid sd p qty ts)))"

subsection \<open>Queries\<close>

fun level_total :: "quantity \<Rightarrow> book_entry list \<Rightarrow> quantity option" where
  "level_total running [] = Some running"
| "level_total running (entry # queue) =
     (case i64_add running (be_remaining_qty entry) of
        None \<Rightarrow> None
      | Some running' \<Rightarrow> level_total running' queue)"

fun price_levels :: "ladder \<Rightarrow> price_level list option" where
  "price_levels [] = Some []"
| "price_levels ((p, queue) # levels) =
     (case level_total 0 queue of
        None \<Rightarrow> None
      | Some level_sum \<Rightarrow>
          map_option ((#) \<lparr>pl_price = p, pl_total_qty = level_sum, pl_order_count = length queue\<rparr>)
            (price_levels levels))"

definition Bids :: "order_book \<Rightarrow> price_level list option" where
  "Bids b = price_levels (ob_bids b)"

definition Asks :: "order_book \<Rightarrow> price_level list option" where
  "Asks b = price_levels (ob_asks b)"

definition OrderBook_OrderCount :: "order_book \<Rightarrow> nat" where
  "OrderBook_OrderCount b = length (ob_id_index b)"

end
