(* ===== verification/Book_Matching.thy ===== *)
theory Book_Matching
  imports Order_Book
begin

section \<open>Price-time priority: the matching loops against a reference\<close>

text \<open>
  The reference sees one side of the book as a single list of resting orders in priority order
  and consumes it from the front (\<open>take_liquidity\<close>). The lemmas below show that the nested
  loops over price levels compute exactly this (\<open>match_queue_spec\<close>, \<open>match_side_spec\<close>) and
  what follows for the fills: conservation of quantity, the closed form of every fill's
  quantity, and why matching stopped.
\<close>

named_theorems liquidity \<open>facts about the reference allocation\<close>

fun take_liquidity ::
  "(book_entry \<Rightarrow> bool) \<Rightarrow> book_entry list \<Rightarrow> quantity \<Rightarrow>
   (book_entry \<times> quantity) list \<times> book_entry list \<times> quantity" where
  "take_liquidity ok [] r = ([], [], r)"
| "take_liquidity ok (e # es) r =
     (if r \<le> 0 \<or> \<not> ok e then ([], e # es, r)
      else if r < be_remaining_qty e
      then ([(e, r)], e\<lparr>be_remaining_qty := be_remaining_qty e - r\<rparr> # es, 0)
      else (case take_liquidity ok es (r - be_remaining_qty e) of
              (fs, es', r') \<Rightarrow> ((e, be_remaining_qty e) # fs, es', r')))"

fun mk_fills :: "taker \<Rightarrow> execution_id \<Rightarrow> (book_entry \<times> quantity) list \<Rightarrow> fill list" where
  "mk_fills tk n [] = []"
| "mk_fills tk n ((e, q) # fs) = mk_fill tk n e q # mk_fills tk (n + 1) fs"

definition consumed_ids :: "(book_entry \<times> quantity) list \<Rightarrow> order_id list" where
  "consumed_ids fs = map (be_order_id \<circ> fst) (filter (\<lambda>(e, q). q = be_remaining_qty e) fs)"

definition um_erase_all :: "'k list \<Rightarrow> ('k, 'v) umap \<Rightarrow> ('k, 'v) umap" where
  "um_erase_all ks m = filter (\<lambda>(k, _). k \<notin> set ks) m"

abbreviation positive :: "book_entry list \<Rightarrow> bool" where
  "positive es \<equiv> \<forall>e \<in> set es. 0 < be_remaining_qty e"

lemma consumed_ids_simps [simp]:
  "consumed_ids [] = []"
  "consumed_ids ((e, q) # fs) =
     (if q = be_remaining_qty e then be_order_id e # consumed_ids fs else consumed_ids fs)"
  by (simp_all add: consumed_ids_def)

lemma um_erase_all_simps [simp]:
  "um_erase_all [] m = m"
  "um_erase_all (k # ks) m = um_erase_all ks (um_erase k m)"
  by (auto simp: um_erase_all_def um_erase_def intro: filter_cong)

lemma um_find_erase_all [umap_simps]:
  "um_find (um_erase_all ks m) k = (if k \<in> set ks then None else um_find m k)"
  by (induction ks arbitrary: m) (auto simp: umap_simps)

lemma distinct_um_erase_all [umap_simps]:
  "distinct (map fst m) \<Longrightarrow> distinct (map fst (um_erase_all ks m))"
  by (induction ks arbitrary: m) (auto simp: umap_simps)

lemma mk_fills_append:
  "mk_fills tk n (fs @ gs) = mk_fills tk n fs @ mk_fills tk (n + of_nat (length fs)) gs"
  by (induction tk n fs rule: mk_fills.induct) (auto simp: algebra_simps)

lemma consumed_ids_append: "consumed_ids (fs @ gs) = consumed_ids fs @ consumed_ids gs"
  by (simp add: consumed_ids_def)

lemma um_erase_all_append: "um_erase_all (ks @ ls) m = um_erase_all ls (um_erase_all ks m)"
  by (induction ks arbitrary: m) auto

subsection \<open>The reference allocation\<close>

lemma take_append:
  "take_liquidity ok (xs @ ys) r =
     (case take_liquidity ok xs r of (fs, xs', r') \<Rightarrow>
        if xs' = []
        then (case take_liquidity ok ys r' of (gs, ys', r'') \<Rightarrow> (fs @ gs, ys', r''))
        else (fs, xs' @ ys, r'))"
  by (induction xs arbitrary: r) (auto split: prod.splits)

lemma take_cong:
  "(\<And>e. e \<in> set es \<Longrightarrow> ok e = ok' e) \<Longrightarrow> take_liquidity ok es r = take_liquidity ok' es r"
  by (induction es arbitrary: r) (auto split: prod.splits)

text \<open>One induction rule for a finished allocation: it stops, fills a part of the front order, or
  takes all of it and goes on.\<close>

lemma take_induct [consumes 1, case_names stop part all]:
  assumes "take_liquidity ok es r = (fs, es', r')"
    and stop: "\<And>es r. es = [] \<or> r \<le> 0 \<or> \<not> ok (hd es) \<Longrightarrow> P es r [] es r"
    and part: "\<And>e es r. 0 < r \<Longrightarrow> ok e \<Longrightarrow> r < be_remaining_qty e \<Longrightarrow>
      P (e # es) r [(e, r)] (e\<lparr>be_remaining_qty := be_remaining_qty e - r\<rparr> # es) 0"
    and all: "\<And>e es r fs es' r'. 0 < r \<Longrightarrow> ok e \<Longrightarrow> be_remaining_qty e \<le> r \<Longrightarrow>
      take_liquidity ok es (r - be_remaining_qty e) = (fs, es', r') \<Longrightarrow>
      P es (r - be_remaining_qty e) fs es' r' \<Longrightarrow>
      P (e # es) r ((e, be_remaining_qty e) # fs) es' r'"
  shows "P es r fs es' r'"
  using assms(1)
proof (induction es arbitrary: r fs)
  case Nil
  then show ?case by (auto intro: stop)
next
  case (Cons e es)
  consider "r \<le> 0 \<or> \<not> ok e" | "0 < r" "ok e" "r < be_remaining_qty e"
    | "0 < r" "ok e" "be_remaining_qty e \<le> r"
    by linarith
  then show ?case
  proof cases
    case 1
    with Cons.prems show ?thesis by (auto intro!: stop)
  next
    case 2
    with Cons.prems show ?thesis by (auto intro!: part)
  next
    case 3
    with Cons.prems obtain gs
      where gs: "take_liquidity ok es (r - be_remaining_qty e) = (gs, es', r')"
        and fs: "fs = (e, be_remaining_qty e) # gs"
      by (auto split: prod.splits)
    show ?thesis unfolding fs by (rule all [OF 3 gs Cons.IH [OF gs]])
  qed
qed

lemma take_stops: "take_liquidity ok es r = (fs, es', r') \<Longrightarrow>
    r' \<le> 0 \<or> es' = [] \<or> \<not> ok (hd es')"
  by (induction rule: take_induct) auto

lemma take_conserves: "take_liquidity ok es r = (fs, es', r') \<Longrightarrow>
    r = sum_list (map snd fs) + r'
    \<and> sum_list (map be_remaining_qty es) = sum_list (map snd fs) + sum_list (map be_remaining_qty es')"
  by (induction rule: take_induct) auto

lemma take_leftover_nonneg: "take_liquidity ok es r = (fs, es', r') \<Longrightarrow> 0 \<le> r \<Longrightarrow> 0 \<le> r'"
  by (induction rule: take_induct) auto

lemma take_fills:
  "take_liquidity ok es r = (fs, es', r') \<Longrightarrow> positive es \<Longrightarrow> (e, q) \<in> set fs \<Longrightarrow>
     e \<in> set es \<and> ok e \<and> 0 < q \<and> q \<le> be_remaining_qty e \<and> q \<le> r"
  by (induction rule: take_induct) force+

lemma take_prefix: "take_liquidity ok es r = (fs, es', r') \<Longrightarrow> map fst fs = take (length fs) es"
  by (induction rule: take_induct) auto

text \<open>
  Closed form: the i-th fill takes all of the i-th order in priority order, or what the
  orders before it have left of the incoming quantity.
\<close>

lemma take_closed_form:
  "take_liquidity ok es r = (fs, es', r') \<Longrightarrow> i < length fs \<Longrightarrow>
     snd (fs ! i) =
       min (be_remaining_qty (es ! i)) (r - sum_list (map be_remaining_qty (take i es)))"
proof (induction arbitrary: i rule: take_induct)
  case (all e es r fs es' r')
  then show ?case
    by (cases i) (auto simp: algebra_simps)
qed auto

text \<open>What stays is a suffix of the side, its first order perhaps partly filled.\<close>

lemma take_rest_map: "take_liquidity ok es r = (fs, es', r') \<Longrightarrow>
    (\<And>e q. f (e\<lparr>be_remaining_qty := q\<rparr>) = f e) \<Longrightarrow>
    map f es = map (f \<circ> fst) (filter (\<lambda>(e, q). q = be_remaining_qty e) fs) @ map f es'"
  by (induction rule: take_induct) auto

lemma take_rest_ids: "take_liquidity ok es r = (fs, es', r') \<Longrightarrow>
    map be_order_id es = consumed_ids fs @ map be_order_id es'"
  unfolding consumed_ids_def by (rule take_rest_map) auto

lemma take_rest_entry:
  "take_liquidity ok es r = (fs, es', r') \<Longrightarrow> e \<in> set es' \<Longrightarrow>
     \<exists>e0 \<in> set es. e = e0\<lparr>be_remaining_qty := be_remaining_qty e\<rparr>
       \<and> be_remaining_qty e \<le> be_remaining_qty e0
       \<and> (0 < be_remaining_qty e0 \<longrightarrow> 0 < be_remaining_qty e)"
proof (induction rule: take_induct)
  case (stop es r)
  then show ?case by (intro bexI [of _ e]) auto
next
  case (part a es r)
  then show ?case by (cases "e \<in> set es") (auto intro!: bexI [of _ e])
qed auto

lemma take_rest_all: "take_liquidity ok es r = (fs, es', r') \<Longrightarrow> (\<forall>e \<in> set es. P e) \<Longrightarrow>
    (\<And>e q. P e \<Longrightarrow> P (e\<lparr>be_remaining_qty := q\<rparr>)) \<Longrightarrow> \<forall>e \<in> set es'. P e"
  by (induction rule: take_induct) auto

lemma take_rest_positive: "take_liquidity ok es r = (fs, es', r') \<Longrightarrow> positive es \<Longrightarrow> positive es'"
  by (induction rule: take_induct) auto


subsection \<open>The loops compute the reference allocation\<close>

text \<open>What an allocation does to the variables of the loops.\<close>

definition after_fills :: "taker \<Rightarrow> (book_entry \<times> quantity) list \<Rightarrow> quantity \<Rightarrow> match_state \<Rightarrow> match_state" where
  "after_fills tk fs r' ms =
     \<lparr>ms_remaining = r', ms_fills = ms_fills ms @ mk_fills tk (ms_next_exec ms) fs,
      ms_index = um_erase_all (consumed_ids fs) (ms_index ms),
      ms_next_exec = ms_next_exec ms + of_nat (length fs)\<rparr>"

lemma after_fills_sel [simp]:
  "ms_remaining (after_fills tk fs r ms) = r"
  "ms_fills (after_fills tk fs r ms) = ms_fills ms @ mk_fills tk (ms_next_exec ms) fs"
  "ms_index (after_fills tk fs r ms) = um_erase_all (consumed_ids fs) (ms_index ms)"
  "ms_next_exec (after_fills tk fs r ms) = ms_next_exec ms + of_nat (length fs)"
  by (simp_all add: after_fills_def)

lemma after_fills_nil [simp]: "after_fills tk [] (ms_remaining ms) ms = ms"
  by (simp add: after_fills_def)

lemma after_fills_comp:
  "after_fills tk gs r'' (after_fills tk fs r' ms) = after_fills tk (fs @ gs) r'' ms"
  by (simp add: after_fills_def mk_fills_append consumed_ids_append um_erase_all_append)

lemma match_front_whole:
  "be_remaining_qty p \<le> ms_remaining ms \<Longrightarrow>
   match_front tk p ms =
     (p\<lparr>be_remaining_qty := 0\<rparr>,
      after_fills tk [(p, be_remaining_qty p)] (ms_remaining ms - be_remaining_qty p) ms)"
  by (simp add: match_front_def after_fills_def Let_def)

lemma match_front_part:
  "ms_remaining ms < be_remaining_qty p \<Longrightarrow>
   match_front tk p ms =
     (p\<lparr>be_remaining_qty := be_remaining_qty p - ms_remaining ms\<rparr>,
      after_fills tk [(p, ms_remaining ms)] 0 ms)"
  by (simp add: match_front_def after_fills_def Let_def)

lemma match_queue_done: "ms_remaining ms \<le> 0 \<Longrightarrow> match_queue tk q ms = (q, ms)"
  by (cases q) auto

lemma match_queue_spec:
  assumes "take_liquidity (\<lambda>_. True) q (ms_remaining ms) = (fs, q', r')"
  shows "match_queue tk q ms = (q', after_fills tk fs r' ms)"
  using assms
proof (induction q "ms_remaining ms" fs q' r' arbitrary: ms rule: take_induct)
  case (stop es)
  then show ?case by (cases es) (auto simp: match_queue_done)
next
  case (part e es)
  then show ?case by (simp add: match_front_part match_queue_done)
next
  case (all e es fs es' r')
  let ?ms = "after_fills tk [(e, be_remaining_qty e)] (ms_remaining ms - be_remaining_qty e) ms"
  have "match_queue tk es ?ms = (es', after_fills tk fs r' ?ms)"
    by (rule all) simp
  with all show ?case by (simp add: match_front_whole after_fills_comp)
qed

text \<open>Which resting orders an incoming order may trade with.\<close>

definition crosses :: "taker \<Rightarrow> (price \<Rightarrow> bool) \<Rightarrow> book_entry \<Rightarrow> bool" where
  "crosses tk acceptable e \<longleftrightarrow> (tk_type tk = kLimit \<longrightarrow> acceptable (be_price e))"

definition ladder_ok :: "side \<Rightarrow> ladder \<Rightarrow> bool" where
  "ladder_ok sd lad \<longleftrightarrow> (\<forall>(p, q) \<in> set lad. 0 < p \<and> q \<noteq> [] \<and>
     (\<forall>e \<in> set q. be_side e = sd \<and> be_price e = p \<and> 0 < be_remaining_qty e))"

lemma ladder_ok_simps [simp]:
  "ladder_ok sd []"
  "ladder_ok sd ((p, q) # lad) \<longleftrightarrow> 0 < p \<and> q \<noteq> [] \<and>
     (\<forall>e \<in> set q. be_side e = sd \<and> be_price e = p \<and> 0 < be_remaining_qty e) \<and> ladder_ok sd lad"
  by (auto simp: ladder_ok_def)

lemma ladder_ok_append [simp]:
  "ladder_ok sd (l1 @ l2) \<longleftrightarrow> ladder_ok sd l1 \<and> ladder_ok sd l2"
  by (auto simp: ladder_ok_def)

lemma match_side_spec:
  assumes "take_liquidity (crosses tk acc) (om_flat lad) (ms_remaining ms) = (fs, es', r')"
    and "ladder_ok sd lad"
  shows "\<exists>lad'. match_side tk acc lad ms = (lad', after_fills tk fs r' ms)
    \<and> om_flat lad' = es' \<and> ladder_ok sd lad' \<and> (\<exists>l1. map fst lad = l1 @ map fst lad')"
  using assms
proof (induction lad arbitrary: ms fs)
  case Nil
  then show ?case by simp
next
  case (Cons level lad)
  obtain p q where level: "level = (p, q)" by force
  with Cons.prems(2) have q: "q \<noteq> []" and pr: "\<forall>e \<in> set q. be_price e = p"
    and pos: "positive q" by auto
  show ?case
  proof (cases "ms_remaining ms > 0 \<and> \<not> (tk_type tk = kLimit \<and> \<not> acc p)")
    case False
    have hd: "be_price (hd q) = p" using q pr by simp
    have "(fs, es', r') = ([], om_flat ((p, q) # lad), ms_remaining ms)"
      using Cons.prems(1) False q hd level
      by (cases q) (auto simp: crosses_def)
    then show ?thesis
      using False Cons.prems(2) level by auto
  next
    case True
    obtain gs q' r1 where g: "take_liquidity (\<lambda>_. True) q (ms_remaining ms) = (gs, q', r1)"
      by (metis prod_cases3)
    have same: "take_liquidity (crosses tk acc) q (ms_remaining ms) = (gs, q', r1)"
      unfolding g [symmetric] using pr True by (intro take_cong) (auto simp: crosses_def)
    have mq: "match_queue tk q ms = (q', after_fills tk gs r1 ms)"
      by (rule match_queue_spec [OF g])
    show ?thesis
    proof (cases "q' = []")
      case True
      obtain hs where hs: "take_liquidity (crosses tk acc) (om_flat lad) r1 = (hs, es', r')"
        and fs: "fs = gs @ hs"
        using Cons.prems(1) level same True by (auto simp: take_append split: prod.splits)
      have "\<exists>lad'. match_side tk acc lad (after_fills tk gs r1 ms) =
               (lad', after_fills tk hs r' (after_fills tk gs r1 ms))
          \<and> om_flat lad' = es' \<and> ladder_ok sd lad' \<and> (\<exists>l1. map fst lad = l1 @ map fst lad')"
        using Cons.IH [of "after_fills tk gs r1 ms" hs] hs Cons.prems(2) level by simp
      then obtain lad' l1 where lad': "match_side tk acc lad (after_fills tk gs r1 ms) =
               (lad', after_fills tk fs r' ms)"
          "om_flat lad' = es'" "ladder_ok sd lad'" "map fst lad = l1 @ map fst lad'"
        unfolding fs after_fills_comp by blast
      show ?thesis
        using lad' mq True level \<open>ms_remaining ms > 0 \<and> _\<close>
        by (intro exI [of _ lad'] conjI exI [of _ "p # l1"]) auto
    next
      case False
      with Cons.prems(1) level same
      have eq: "fs = gs" "r' = r1" "es' = q' @ om_flat lad"
        by (auto simp: take_append)
      have r1: "r1 \<le> 0" using match_queue_stops [OF mq False] by simp
      have "match_side tk acc ((p, q') # lad) (after_fills tk gs r1 ms) =
          ((p, q') # lad, after_fills tk gs r1 ms)"
        using r1 by simp
      moreover have "ladder_ok sd ((p, q') # lad)"
        using Cons.prems(2) level False take_rest_positive [OF g]
          take_rest_all [OF g, of "\<lambda>e. be_side e = sd \<and> be_price e = p"]
        by auto
      ultimately show ?thesis
        using mq False level \<open>ms_remaining ms > 0 \<and> _\<close> eq
        by (intro exI [of _ "(p, q') # lad"]) auto
    qed
  qed
qed

end
