(* ===== verification/Book_Correctness.thy ===== *)
theory Book_Correctness
  imports Book_Matching
begin

section \<open>Correctness of the order book\<close>

text \<open>
  The invariant \<open>book_ok\<close> of an order book, the abstract book (two lists of resting orders in
  priority order) with its operations \<open>spec_add\<close> and \<open>spec_cancel\<close>, and the refinement of
  the operations of Order_Book to them. \<open>uncrossed\<close> says that no bid meets an ask.
\<close>

named_theorems book_simps \<open>projections of book updates\<close>

subsection \<open>The two sides uniformly\<close>

definition side_cmp :: "side \<Rightarrow> price \<Rightarrow> price \<Rightarrow> bool" where
  "side_cmp sd = (case sd of kBuy \<Rightarrow> (>) | kSell \<Rightarrow> (<))"

fun opposite :: "side \<Rightarrow> side" where
  "opposite kBuy = kSell"
| "opposite kSell = kBuy"

fun book_side :: "side \<Rightarrow> order_book \<Rightarrow> ladder" where
  "book_side kBuy b = ob_bids b"
| "book_side kSell b = ob_asks b"

fun set_side :: "side \<Rightarrow> ladder \<Rightarrow> order_book \<Rightarrow> order_book" where
  "set_side kBuy lad b = b\<lparr>ob_bids := lad\<rparr>"
| "set_side kSell lad b = b\<lparr>ob_asks := lad\<rparr>"

lemma side_cmp_simps [simp]:
  "side_cmp kBuy = (>)" "side_cmp kSell = (<)"
  by (simp_all add: side_cmp_def)

lemma opposite_opposite [simp]: "opposite (opposite sd) = sd"
  by (cases sd) auto

lemma opposite_neq [simp]: "opposite sd \<noteq> sd" "sd \<noteq> opposite sd"
  by (cases sd; simp)+

lemma book_side_updates [book_simps]:
  "book_side sd (set_side sd lad b) = lad"
  "book_side sd (b\<lparr>ob_id_index := ix\<rparr>) = book_side sd b"
  "book_side sd (b\<lparr>ob_next_execution_id := n\<rparr>) = book_side sd b"
  "ob_symbol (set_side sd lad b) = ob_symbol b"
  "ob_id_index (set_side sd lad b) = ob_id_index b"
  "ob_next_execution_id (set_side sd lad b) = ob_next_execution_id b"
  by (cases sd; simp)+

lemma book_side_other [book_simps]:
  "sd \<noteq> sd' \<Longrightarrow> book_side sd (set_side sd' lad b) = book_side sd b"
  by (cases sd; cases sd'; simp)

interpretation side_order: price_order "side_cmp sd" for sd
  by (cases sd) (unfold_locales; auto)+

subsection \<open>Invariant\<close>

definition index_of :: "book_entry \<Rightarrow> index_entry" where
  "index_of e = \<lparr>ix_side = be_side e, ix_price = be_price e\<rparr>"

definition book_entries :: "order_book \<Rightarrow> book_entry list" where
  "book_entries b = om_flat (ob_bids b) @ om_flat (ob_asks b)"

definition index_ok :: "book_entry list \<Rightarrow> (order_id, index_entry) umap \<Rightarrow> bool" where
  "index_ok es ix \<longleftrightarrow> distinct (map fst ix) \<and> distinct (map be_order_id es) \<and>
     set ix = (\<lambda>e. (be_order_id e, index_of e)) ` set es"

definition book_ok :: "order_book \<Rightarrow> bool" where
  "book_ok b \<longleftrightarrow> om_sorted (>) (ob_bids b) \<and> om_sorted (<) (ob_asks b)
     \<and> ladder_ok kBuy (ob_bids b) \<and> ladder_ok kSell (ob_asks b)
     \<and> index_ok (book_entries b) (ob_id_index b)"

definition uncrossed :: "order_book \<Rightarrow> bool" where
  "uncrossed b \<longleftrightarrow> (\<forall>bid \<in> set (ob_bids b). \<forall>ask \<in> set (ob_asks b). fst bid < fst ask)"

lemma book_ok_side:
  "book_ok b \<Longrightarrow> om_sorted (side_cmp sd) (book_side sd b) \<and> ladder_ok sd (book_side sd b)"
  by (cases sd) (auto simp: book_ok_def)

lemma book_okI:
  assumes "om_sorted (side_cmp sd) (book_side sd b)" and "ladder_ok sd (book_side sd b)"
    and "om_sorted (side_cmp (opposite sd)) (book_side (opposite sd) b)"
    and "ladder_ok (opposite sd) (book_side (opposite sd) b)"
    and "index_ok (book_entries b) (ob_id_index b)"
  shows "book_ok b"
  using assms by (cases sd) (simp_all add: book_ok_def)

lemma ladder_ok_entries:
  "ladder_ok sd lad \<Longrightarrow> e \<in> set (om_flat lad) \<Longrightarrow> be_side e = sd \<and> 0 < be_remaining_qty e
     \<and> 0 < be_price e \<and> be_price e \<in> fst ` set lad"
  by (force simp: ladder_ok_def om_flat_def)

lemma ladder_ok_level:
  assumes "ladder_ok sd lad" and "p \<in> fst ` set lad"
  shows "\<exists>e \<in> set (om_flat lad). be_price e = p"
proof -
  from assms(2) obtain q where q: "(p, q) \<in> set lad" by force
  with assms(1) have "q \<noteq> []" and "\<forall>e \<in> set q. be_price e = p"
    by (auto simp: ladder_ok_def)
  with q show ?thesis
    by (intro bexI [of _ "hd q"]) (auto simp: om_flat_def intro!: bexI [of _ "(p, q)"])
qed

lemma ladder_ok_keys: "ladder_ok sd lad \<Longrightarrow> \<forall>(k, q) \<in> set lad. \<forall>x \<in> set q. be_price x = k"
  by (auto simp: ladder_ok_def)

text \<open>The index as a map: it finds exactly the resting orders, whatever their order in \<open>es\<close>.\<close>

lemma index_ok_find:
  "index_ok es ix \<Longrightarrow> um_find ix oid = Some x \<longleftrightarrow> (\<exists>e \<in> set es. be_order_id e = oid \<and> x = index_of e)"
  by (auto simp: index_ok_def simp flip: um_find_set)

lemma index_ok_None: "index_ok es ix \<Longrightarrow> um_find ix oid = None \<longleftrightarrow> oid \<notin> be_order_id ` set es"
  by (auto simp: index_ok_def map_of_eq_None_iff image_image)

lemma index_ok_cong:
  "index_ok es ix \<Longrightarrow> distinct (map be_order_id es') \<Longrightarrow>
   (\<lambda>e. (be_order_id e, index_of e)) ` set es' = (\<lambda>e. (be_order_id e, index_of e)) ` set es \<Longrightarrow>
   index_ok es' ix"
  by (simp add: index_ok_def)

lemma index_ok_erase_all:
  assumes "index_ok es ix" and "distinct (map be_order_id es')"
    and "(\<lambda>e. (be_order_id e, index_of e)) ` set es' =
         (\<lambda>e. (be_order_id e, index_of e)) ` {e \<in> set es. be_order_id e \<notin> set ks}"
  shows "index_ok es' (um_erase_all ks ix)"
proof -
  have "set (um_erase_all ks ix) = {x \<in> set ix. fst x \<notin> set ks}"
    by (auto simp: um_erase_all_def)
  also have "\<dots> = (\<lambda>e. (be_order_id e, index_of e)) ` {e \<in> set es. be_order_id e \<notin> set ks}"
    using assms(1) by (auto simp: index_ok_def)
  finally show ?thesis
    using assms by (simp add: index_ok_def umap_simps)
qed

lemma index_ok_emplace:
  assumes "index_ok es ix" and "be_order_id e \<notin> be_order_id ` set es"
    and "mset es' = add_mset e (mset es)"
  shows "index_ok es' (um_emplace (be_order_id e) (index_of e) ix)"
proof -
  have es': "set es' = insert e (set es)"
    using arg_cong [OF assms(3), of set_mset] by simp
  have d: "mset (map be_order_id es') = mset (map be_order_id (e # es))"
    using assms(3) by simp
  have "distinct (map be_order_id (e # es))"
    using assms(1,2) by (simp add: index_ok_def)
  then have "distinct (map be_order_id es')"
    using d by (metis mset_eq_imp_distinct_iff)
  moreover have "um_find ix (be_order_id e) = None"
    using assms(1,2) by (simp add: index_ok_None)
  ultimately show ?thesis
    using assms(1,2) es' by (auto simp: index_ok_def umap_simps um_emplace_def)
qed

subsection \<open>The abstract book\<close>

text \<open>
  The specification of a price-time priority book: each side is one list, best order first. An
  incoming order consumes the front of the other side as long as it may trade with it; the
  rest of a limit order is queued behind every order of the same or a better price.
\<close>

record priority_book =
  pb_bids :: "book_entry list"
  pb_asks :: "book_entry list"

fun pb_side :: "side \<Rightarrow> priority_book \<Rightarrow> book_entry list" where
  "pb_side kBuy pb = pb_bids pb"
| "pb_side kSell pb = pb_asks pb"

fun set_pb_side :: "side \<Rightarrow> book_entry list \<Rightarrow> priority_book \<Rightarrow> priority_book" where
  "set_pb_side kBuy es pb = pb\<lparr>pb_bids := es\<rparr>"
| "set_pb_side kSell es pb = pb\<lparr>pb_asks := es\<rparr>"

definition abs_book :: "order_book \<Rightarrow> priority_book" where
  "abs_book b = \<lparr>pb_bids = om_flat (ob_bids b), pb_asks = om_flat (ob_asks b)\<rparr>"

definition marketable :: "order_type \<Rightarrow> side \<Rightarrow> price \<Rightarrow> book_entry \<Rightarrow> bool" where
  "marketable ty sd limit e \<longleftrightarrow>
     ty = kMarket \<or> (if sd = kBuy then be_price e \<le> limit else limit \<le> be_price e)"

definition insert_by_priority :: "side \<Rightarrow> book_entry \<Rightarrow> book_entry list \<Rightarrow> book_entry list" where
  "insert_by_priority sd e es =
     takeWhile (\<lambda>x. \<not> side_cmp sd (be_price e) (be_price x)) es @ e #
     dropWhile (\<lambda>x. \<not> side_cmp sd (be_price e) (be_price x)) es"

definition spec_add ::
  "priority_book \<Rightarrow> order_id \<Rightarrow> side \<Rightarrow> order_type \<Rightarrow> price \<Rightarrow> quantity \<Rightarrow> timestamp \<Rightarrow>
   (book_entry \<times> quantity) list \<times> book_entry option \<times> priority_book" where
  "spec_add pb oid sd ty p qty ts =
     (case take_liquidity (marketable ty sd p) (pb_side (opposite sd) pb) qty of
        (fs, es', r) \<Rightarrow>
          (let pb' = set_pb_side (opposite sd) es' pb;
               e = \<lparr>be_order_id = oid, be_side = sd, be_price = p, be_remaining_qty = r,
                    be_timestamp = ts\<rparr>
           in if r > 0 \<and> ty \<noteq> kMarket
              then (fs, Some e, set_pb_side sd (insert_by_priority sd e (pb_side sd pb')) pb')
              else (fs, None, pb')))"

definition spec_cancel :: "priority_book \<Rightarrow> order_id \<Rightarrow> priority_book" where
  "spec_cancel pb oid = \<lparr>pb_bids = filter (\<lambda>e. be_order_id e \<noteq> oid) (pb_bids pb),
                         pb_asks = filter (\<lambda>e. be_order_id e \<noteq> oid) (pb_asks pb)\<rparr>"

lemma pb_side_abs [simp]: "pb_side sd (abs_book b) = om_flat (book_side sd b)"
  by (cases sd) (simp_all add: abs_book_def)

lemma pb_side_updates [book_simps]:
  "pb_side sd (set_pb_side sd es pb) = es"
  "sd \<noteq> sd' \<Longrightarrow> pb_side sd (set_pb_side sd' es pb) = pb_side sd pb"
  by (cases sd; cases sd'; simp)+

lemma abs_book_updates [book_simps]:
  "abs_book (set_side sd lad b) = set_pb_side sd (om_flat lad) (abs_book b)"
  "abs_book (b\<lparr>ob_id_index := ix\<rparr>) = abs_book b"
  "abs_book (b\<lparr>ob_next_execution_id := n\<rparr>) = abs_book b"
  by (cases sd; simp add: abs_book_def)+

lemma mset_insert_by_priority [simp]:
  "mset (insert_by_priority sd e es) = add_mset e (mset es)"
proof -
  have "mset (insert_by_priority sd e es) = add_mset e (mset
      (takeWhile (\<lambda>x. \<not> side_cmp sd (be_price e) (be_price x)) es @
       dropWhile (\<lambda>x. \<not> side_cmp sd (be_price e) (be_price x)) es))"
    by (simp add: insert_by_priority_def del: takeWhile_dropWhile_id)
  then show ?thesis by (simp del: mset_append)
qed

lemma mset_book_entries:
  "mset (book_entries b) = mset (om_flat (book_side sd b)) + mset (om_flat (book_side (opposite sd) b))"
  by (cases sd) (simp_all add: book_entries_def)

subsection \<open>Resting an order\<close>

lemma Rest_spec:
  assumes ok: "book_ok b" and new: "oid \<notin> be_order_id ` set (book_entries b)"
    and pos: "0 < qty" "0 < p"
    and rest: "Rest b oid sd p qty ts = (e, b')"
  shows "e = \<lparr>be_order_id = oid, be_side = sd, be_price = p, be_remaining_qty = qty, be_timestamp = ts\<rparr>"
    and "book_ok b'"
    and "abs_book b' = set_pb_side sd (insert_by_priority sd e (om_flat (book_side sd b))) (abs_book b)"
    and "ob_symbol b' = ob_symbol b" and "ob_next_execution_id b' = ob_next_execution_id b"
    and "fst ` set (book_side sd b') = insert p (fst ` set (book_side sd b))"
    and "book_side (opposite sd) b' = book_side (opposite sd) b"
proof -
  let ?e = "\<lparr>be_order_id = oid, be_side = sd, be_price = p, be_remaining_qty = qty, be_timestamp = ts\<rparr>"
  let ?lad = "om_push_back (side_cmp sd) p ?e (book_side sd b)"
  have eq: "Rest b oid sd p qty ts =
      (?e, (set_side sd ?lad b)\<lparr>ob_id_index := um_emplace oid (index_of ?e) (ob_id_index b)\<rparr>)"
    by (cases sd) (simp_all add: Rest_def index_of_def Let_def)
  from trans [OF rest [symmetric] eq] have e: "e = ?e"
    and b': "b' = (set_side sd ?lad b)\<lparr>ob_id_index := um_emplace oid (index_of ?e) (ob_id_index b)\<rparr>"
    by simp_all
  have side: "om_sorted (side_cmp sd) (book_side sd b)" "ladder_ok sd (book_side sd b)" for sd
    using book_ok_side [OF ok] by auto
  have flat: "om_flat ?lad = insert_by_priority sd ?e (om_flat (book_side sd b))"
    using side_order.om_flat_push_back [OF side(1) ladder_ok_keys [OF side(2)], of sd p ?e]
    by (simp add: insert_by_priority_def)
  show "e = ?e" by (rule e)
  show "abs_book b' = set_pb_side sd (insert_by_priority sd e (om_flat (book_side sd b))) (abs_book b)"
    by (simp add: b' e book_simps flat)
  show "ob_symbol b' = ob_symbol b" "ob_next_execution_id b' = ob_next_execution_id b"
    by (simp_all add: b' book_simps)
  show "fst ` set (book_side sd b') = insert p (fst ` set (book_side sd b))"
    by (simp add: b' book_simps side_order.om_keys_push_back)
  show opp: "book_side (opposite sd) b' = book_side (opposite sd) b"
    by (simp add: b' book_simps)
  have lad: "ladder_ok sd ?lad"
    using side(1)
  proof (cases rule: side_order.om_push_back_cases [of sd _ p ?e])
    case (level m1 q m2)
    then show ?thesis using side(2) [of sd] pos by auto
  next
    case (new m1 m2)
    then show ?thesis using side(2) [of sd] pos by auto
  qed
  have "mset (book_entries b') = add_mset ?e (mset (book_entries b))"
    unfolding mset_book_entries [of _ sd] opp by (simp add: b' book_simps flat)
  then have "index_ok (book_entries b') (ob_id_index b')"
    using index_ok_emplace [of "book_entries b" "ob_id_index b" ?e "book_entries b'"] ok new
    by (simp add: book_ok_def b')
  then show "book_ok b'"
    using side lad opp side_order.om_sorted_push_back [OF side(1)]
    by (intro book_okI [of sd]) (simp_all add: b' book_simps)
qed

subsection \<open>Matching an incoming order\<close>

abbreviation taker_of :: "order_book \<Rightarrow> order_id \<Rightarrow> side \<Rightarrow> order_type \<Rightarrow> timestamp \<Rightarrow> taker" where
  "taker_of b oid sd ty ts \<equiv> \<lparr>tk_symbol = ob_symbol b, tk_id = oid, tk_side = sd, tk_type = ty,
                              tk_timestamp = ts\<rparr>"

lemma crosses_marketable:
  "crosses (taker_of b oid sd ty ts) (if sd = kBuy then (\<lambda>q. q \<le> p) else (\<lambda>q. q \<ge> p)) =
   marketable ty sd p"
  by (cases ty) (auto simp: crosses_def marketable_def fun_eq_iff)

lemma index_ok_matched:
  assumes "index_ok es ix" and "mset es = mset xs + mset ys"
    and "take_liquidity ok ys r = (fs, ys', r')" and "mset es' = mset xs + mset ys'"
  shows "index_ok es' (um_erase_all (consumed_ids fs) ix)"
proof -
  let ?f = "\<lambda>e. (be_order_id e, index_of e)"
  let ?gone = "map (?f \<circ> fst) (filter (\<lambda>(e, q). q = be_remaining_qty e) fs)"
  have f: "map ?f ys = ?gone @ map ?f ys'"
    by (rule take_rest_map [OF assms(3)]) (simp add: index_of_def)
  have gone: "consumed_ids fs = map fst ?gone"
    by (simp add: consumed_ids_def comp_def)
  have sets: "set es = set xs \<union> set ys" "set es' = set xs \<union> set ys'"
    using arg_cong [OF assms(2), of set_mset] arg_cong [OF assms(4), of set_mset] by simp_all
  have "mset (map be_order_id es) = mset (map be_order_id (xs @ ys))"
    using assms(2) by simp
  moreover have "distinct (map be_order_id es)"
    using assms(1) by (simp add: index_ok_def)
  ultimately have d: "distinct (map be_order_id xs @ consumed_ids fs @ map be_order_id ys')"
    using take_rest_ids [OF assms(3)] by (metis map_append mset_eq_imp_distinct_iff)
  have "mset (map be_order_id es') = mset (map be_order_id (xs @ ys'))"
    using assms(4) by simp
  with d have d': "distinct (map be_order_id es')"
    by (metis distinct_append map_append mset_eq_imp_distinct_iff Int_Un_distrib Un_empty set_append)
  have img: "?f ` set ys = set ?gone \<union> ?f ` set ys'"
    using arg_cong [OF f, of set] by (simp only: set_append set_map)
  have "?f ` {e \<in> set es. be_order_id e \<notin> set (consumed_ids fs)} =
      {x \<in> ?f ` set xs \<union> ?f ` set ys. fst x \<notin> set (consumed_ids fs)}"
    unfolding sets by auto
  also have "\<dots> = ?f ` set xs \<union> ?f ` set ys'"
  proof -
    define G where "G = set ?gone"
    have K: "set (consumed_ids fs) = fst ` G" by (simp only: gone G_def set_map)
    have "be_order_id ` (set xs \<union> set ys') \<inter> fst ` G = {}"
      using d unfolding K [symmetric] by auto
    then show ?thesis unfolding img K G_def [symmetric] by force
  qed
  finally show ?thesis
    by (intro index_ok_erase_all [OF assms(1) d']) (simp add: sets image_Un)
qed

lemma om_sorted_suffix: "om_sorted before m \<Longrightarrow> map fst m = l1 @ map fst m' \<Longrightarrow> om_sorted before m'"
  by (simp add: sorted_wrt_append)

lemma MatchAgainst_spec:
  assumes ok: "book_ok b"
    and take: "take_liquidity (marketable ty sd p) (om_flat (book_side (opposite sd) b)) qty = (fs, es', r')"
    and res: "MatchAgainst b oid sd ty p qty ts = (b', fills, r)"
  shows "book_ok b'" and "abs_book b' = set_pb_side (opposite sd) es' (abs_book b)"
    and "fills = mk_fills (taker_of b oid sd ty ts) (ob_next_execution_id b) fs" and "r = r'"
    and "ob_symbol b' = ob_symbol b"
    and "ob_next_execution_id b' = ob_next_execution_id b + of_nat (length fs)"
    and "book_side sd b' = book_side sd b"
    and "fst ` set (book_side (opposite sd) b') \<subseteq> fst ` set (book_side (opposite sd) b)"
proof -
  let ?tk = "taker_of b oid sd ty ts"
  let ?acc = "if sd = kBuy then (\<lambda>q. q \<le> p) else (\<lambda>q. q \<ge> p)"
  let ?ms = "\<lparr>ms_remaining = qty, ms_fills = [], ms_index = ob_id_index b,
              ms_next_exec = ob_next_execution_id b\<rparr>"
  let ?lad = "book_side (opposite sd) b"
  have side: "om_sorted (side_cmp sd) (book_side sd b)" "ladder_ok sd (book_side sd b)" for sd
    using book_ok_side [OF ok] by auto
  obtain lad' l1 where m: "match_side ?tk ?acc ?lad ?ms = (lad', after_fills ?tk fs r' ?ms)"
    and lad': "om_flat lad' = es'" "ladder_ok (opposite sd) lad'" "map fst ?lad = l1 @ map fst lad'"
    using match_side_spec [of ?tk ?acc ?lad ?ms fs es' r' "opposite sd"] take side(2)
    unfolding crosses_marketable by auto
  let ?ix = "um_erase_all (consumed_ids fs) (ob_id_index b)"
  have eq: "MatchAgainst b oid sd ty p qty ts =
      ((set_side (opposite sd) lad' b)\<lparr>ob_id_index := ?ix,
         ob_next_execution_id := ob_next_execution_id b + of_nat (length fs)\<rparr>,
       mk_fills ?tk (ob_next_execution_id b) fs, r')"
    using m by (cases sd) (simp_all add: MatchAgainst_def Let_def)
  from trans [OF res [symmetric] eq] have b': "b' = (set_side (opposite sd) lad' b)\<lparr>ob_id_index := ?ix,
         ob_next_execution_id := ob_next_execution_id b + of_nat (length fs)\<rparr>"
    and *: "fills = mk_fills ?tk (ob_next_execution_id b) fs" "r = r'"
    by simp_all
  show "fills = mk_fills ?tk (ob_next_execution_id b) fs" "r = r'" by (rule *)+
  show "abs_book b' = set_pb_side (opposite sd) es' (abs_book b)"
    "ob_symbol b' = ob_symbol b"
    "ob_next_execution_id b' = ob_next_execution_id b + of_nat (length fs)"
    "book_side sd b' = book_side sd b"
    by (simp_all add: b' book_simps lad')
  have "set (map fst lad') \<subseteq> set (map fst ?lad)" unfolding lad' by simp
  then show "fst ` set (book_side (opposite sd) b') \<subseteq> fst ` set ?lad"
    by (simp add: b' book_simps)
  have "index_ok (book_entries b') ?ix"
    by (rule index_ok_matched [OF _ mset_book_entries take])
      (use ok in \<open>simp_all add: book_ok_def mset_book_entries [of _ sd] b' book_simps lad'\<close>)
  then show "book_ok b'"
    using side lad' om_sorted_suffix [OF side(1) lad'(3)]
    by (intro book_okI [of sd]) (simp_all add: b' book_simps)
qed

subsection \<open>Adding an order\<close>

lemma uncrossed_side: "uncrossed b \<longleftrightarrow>
    (\<forall>x \<in> fst ` set (book_side sd b). \<forall>y \<in> fst ` set (book_side (opposite sd) b).
       side_cmp (opposite sd) x y)"
  by (cases sd) (auto simp: uncrossed_def)

lemma uncrossed_antimono:
  "uncrossed b \<Longrightarrow> fst ` set (book_side sd b') \<subseteq> fst ` set (book_side sd b) \<Longrightarrow>
   fst ` set (book_side (opposite sd) b') \<subseteq> fst ` set (book_side (opposite sd) b) \<Longrightarrow> uncrossed b'"
  unfolding uncrossed_side [of _ sd] by (meson subsetD)

lemma marketable_limit:
  "marketable kLimit sd p e \<longleftrightarrow> \<not> side_cmp (opposite sd) p (be_price e)"
  by (cases sd) (auto simp: marketable_def)

text \<open>When the front order of a side does not match the limit, no level of the side does.\<close>

lemma unmarketable_ladder:
  assumes "om_sorted (side_cmp sd) lad" and "ladder_ok sd lad"
    and "om_flat lad = [] \<or> side_cmp sd p (be_price (hd (om_flat lad)))"
  shows "\<forall>k \<in> fst ` set lad. side_cmp sd p k"
proof (cases lad)
  case (Cons level rest)
  obtain k q where level: "level = (k, q)" by force
  with Cons assms(2) have "q \<noteq> []" "be_price (hd q) = k" by auto
  with assms(3) Cons level have "side_cmp sd p k" by auto
  with assms(1) Cons level show ?thesis
    using side_order.before_trans by auto
qed simp

lemma AddOrder_spec:
  assumes ok: "book_ok b" and valid: "0 < qty" "ty = kLimit \<Longrightarrow> 0 < p"
    and new: "oid \<notin> be_order_id ` set (book_entries b)"
    and spec: "spec_add (abs_book b) oid sd ty p qty (shd clk) = (fs, resting, pb')"
  shows "\<exists>b'. OrderBook_AddOrder b oid sd ty p qty clk =
      (Inr \<lparr>ar_fills = mk_fills (taker_of b oid sd ty (shd clk)) (ob_next_execution_id b) fs,
            ar_resting = resting\<rparr>, b', stl clk)
    \<and> book_ok b' \<and> abs_book b' = pb' \<and> ob_symbol b' = ob_symbol b
    \<and> ob_next_execution_id b' = ob_next_execution_id b + of_nat (length fs)
    \<and> (uncrossed b \<longrightarrow> uncrossed b')"
proof -
  let ?ts = "shd clk"
  obtain b1 fills r where m: "MatchAgainst b oid sd ty p qty ?ts = (b1, fills, r)"
    by (metis prod_cases3)
  obtain fs1 es' r' where t: "take_liquidity (marketable ty sd p)
      (om_flat (book_side (opposite sd) b)) qty = (fs1, es', r')"
    by (metis prod_cases3)
  note M = MatchAgainst_spec [OF ok t m]
  have fs1: "fs1 = fs" using spec t by (simp add: spec_add_def Let_def split: if_splits)
  have idx: "um_find (ob_id_index b) oid = None"
    using ok new index_ok_None unfolding book_ok_def by blast
  have keys: "uncrossed b1" if "uncrossed b"
    using uncrossed_antimono [OF that, of sd b1] M(7,8) by simp
  show ?thesis
  proof (cases "r > 0 \<and> ty \<noteq> kMarket")
    case False
    then show ?thesis
      using spec t m M fs1 idx valid keys
      by (auto simp: OrderBook_AddOrder_def Now_def spec_add_def Let_def)
  next
    case True
    then have ty: "ty = kLimit" by (cases ty) auto
    obtain e b2 where rest: "Rest b1 oid sd p r ?ts = (e, b2)" by (metis prod.exhaust)
    have "set (map be_order_id es') \<subseteq> be_order_id ` set (om_flat (book_side (opposite sd) b))"
      using arg_cong [OF take_rest_ids [OF t], of set] by auto
    moreover have "om_flat (book_side (opposite sd) b1) = es'"
      using arg_cong [OF M(2), of "pb_side (opposite sd)"] by (simp add: book_simps)
    ultimately have new1: "oid \<notin> be_order_id ` set (book_entries b1)"
      using new M(7) by (cases sd) (auto simp: book_entries_def)
    have pos: "0 < r" "0 < p" using True valid(2) ty by auto
    note R = Rest_spec [OF M(1) new1 pos rest]
    have "uncrossed b2" if "uncrossed b"
    proof -
      have "om_flat (book_side (opposite sd) b1) = [] \<or>
          side_cmp (opposite sd) p (be_price (hd (om_flat (book_side (opposite sd) b1))))"
        using take_stops [OF t] True M(4) ty
          \<open>om_flat (book_side (opposite sd) b1) = es'\<close> by (auto simp: marketable_limit)
      then have "\<forall>k \<in> fst ` set (book_side (opposite sd) b1). side_cmp (opposite sd) p k"
        using book_ok_side [OF M(1)] unmarketable_ladder by blast
      with keys [OF that] show ?thesis
        unfolding uncrossed_side [of _ sd] R(6,7) by auto
    qed
    then show ?thesis
      using True spec t m M R fs1 idx valid rest ty
      by (auto simp: OrderBook_AddOrder_def Now_def spec_add_def Let_def book_simps)
  qed
qed

subsection \<open>Cancelling and restoring\<close>

lemma cancel_in_spec:
  assumes sorted: "om_sorted (side_cmp sd) lad" and ok: "ladder_ok sd lad"
    and dist: "distinct (map be_order_id (om_flat lad))" and e: "e \<in> set (om_flat lad)"
  shows "\<exists>lad'. cancel_in (side_cmp sd) (be_order_id e) (be_price e) lad = Inr (e, lad')
    \<and> om_flat lad' = filter (\<lambda>x. be_order_id x \<noteq> be_order_id e) (om_flat lad)
    \<and> om_sorted (side_cmp sd) lad' \<and> ladder_ok sd lad' \<and> fst ` set lad' \<subseteq> fst ` set lad"
proof -
  let ?p = "be_price e" and ?P = "\<lambda>x. be_order_id x = be_order_id e"
  from e obtain k q where kq: "(k, q) \<in> set lad" "e \<in> set q" by (auto simp: om_flat_def)
  with ok have k: "k = ?p" by (auto simp: ladder_ok_def)
  obtain m1 m2 where lad: "lad = m1 @ (?p, q) # m2"
    and before: "\<forall>x \<in> set m1. side_cmp sd (fst x) ?p"
    using side_order.om_split [OF sorted kq(1)] k by metis
  have "distinct (map be_order_id q)" using dist lad by (simp add: om_flat_def)
  from find_distinct [OF this kq(2)] have find: "List.find ?P q = Some e" .
  from find_split [OF find] obtain ys zs
    where q: "q = ys @ e # zs" and erase: "erase_first ?P q = ys @ zs" by metis
  have flat: "om_flat lad = (om_flat m1 @ ys) @ e # zs @ om_flat m2"
    by (simp add: lad q om_flat_def)
  have filter: "filter (\<lambda>x. be_order_id x \<noteq> be_order_id e) (om_flat lad) =
      (om_flat m1 @ ys) @ zs @ om_flat m2"
    using dist unfolding flat by (rule filter_out_one)
  note found = side_order.om_find_split [OF before, of q m2]
  show ?thesis
  proof (cases "ys @ zs = []")
    case True
    have "cancel_in (side_cmp sd) (be_order_id e) ?p lad = Inr (e, m1 @ m2)"
      using found find erase True side_order.om_erase_split [OF before]
      by (simp add: cancel_in_def lad)
    with True filter sorted ok show ?thesis
      by (intro exI [of _ "m1 @ m2"]) (auto simp: lad om_flat_def sorted_wrt_append)
  next
    case False
    have "cancel_in (side_cmp sd) (be_order_id e) ?p lad = Inr (e, m1 @ (?p, ys @ zs) # m2)"
      using found find erase False side_order.om_put_split [OF before]
      by (auto simp: cancel_in_def lad Let_def)
    with False filter sorted ok q show ?thesis
      by (intro exI [of _ "m1 @ (?p, ys @ zs) # m2"]) (auto simp: lad om_flat_def sorted_wrt_append)
  qed
qed

lemma CancelOrder_found:
  assumes ok: "book_ok b" and e: "e \<in> set (book_entries b)"
  shows "\<exists>b'. OrderBook_CancelOrder b (be_order_id e) = (Inr e, b') \<and> book_ok b'
    \<and> abs_book b' = spec_cancel (abs_book b) (be_order_id e) \<and> ob_symbol b' = ob_symbol b
    \<and> ob_next_execution_id b' = ob_next_execution_id b \<and> (uncrossed b \<longrightarrow> uncrossed b')"
proof -
  let ?sd = "be_side e" and ?oid = "be_order_id e"
  have side: "om_sorted (side_cmp sd) (book_side sd b)" "ladder_ok sd (book_side sd b)" for sd
    using book_ok_side [OF ok] by auto
  have index: "index_ok (book_entries b) (ob_id_index b)"
    using ok by (simp add: book_ok_def)
  then have find: "um_find (ob_id_index b) ?oid = Some (index_of e)"
    using e index_ok_find by blast
  have dist: "distinct (map be_order_id (book_entries b))"
    using index by (simp add: index_ok_def)
  have e_side: "e \<in> set (om_flat (book_side ?sd b))"
    using e side(2) [of kBuy] side(2) [of kSell] ladder_ok_entries
    by (cases ?sd) (fastforce simp: book_entries_def)+
  have "distinct (map be_order_id (om_flat (book_side ?sd b)))"
    using dist by (cases ?sd) (simp_all add: book_entries_def)
  from cancel_in_spec [OF side this e_side] obtain lad'
    where c: "cancel_in (side_cmp ?sd) ?oid (be_price e) (book_side ?sd b) = Inr (e, lad')"
      and flat: "om_flat lad' = filter (\<lambda>x. be_order_id x \<noteq> ?oid) (om_flat (book_side ?sd b))"
      and lad': "om_sorted (side_cmp ?sd) lad'" "ladder_ok ?sd lad'"
        "fst ` set lad' \<subseteq> fst ` set (book_side ?sd b)"
    by blast
  let ?b' = "(set_side ?sd lad' b)\<lparr>ob_id_index := um_erase ?oid (ob_id_index b)\<rparr>"
  have res: "OrderBook_CancelOrder b ?oid = (Inr e, ?b')"
    using find c by (cases ?sd) (simp_all add: OrderBook_CancelOrder_def index_of_def)
  have "?oid \<notin> be_order_id ` set (om_flat (book_side (opposite ?sd) b))"
    using dist e_side by (cases ?sd) (force simp: book_entries_def)+
  then have other: "filter (\<lambda>x. be_order_id x \<noteq> ?oid) (om_flat (book_side (opposite ?sd) b)) =
      om_flat (book_side (opposite ?sd) b)"
    by (rule filter_neq_id)
  have abs: "abs_book ?b' = spec_cancel (abs_book b) ?oid"
    using flat other by (cases ?sd) (simp_all add: abs_book_def spec_cancel_def)
  then have entries: "book_entries ?b' = filter (\<lambda>x. be_order_id x \<noteq> ?oid) (book_entries b)"
    by (simp add: abs_book_def spec_cancel_def book_entries_def)
  have "index_ok (book_entries ?b') (um_erase ?oid (ob_id_index b))"
    using index_ok_erase_all [OF index, of "book_entries ?b'" "[?oid]"] dist
    unfolding entries by (simp add: distinct_map_filter)
  then have "book_ok ?b'"
    using side lad' by (intro book_okI [of ?sd]) (simp_all add: book_simps)
  moreover have "uncrossed ?b'" if "uncrossed b"
    using that lad'(3) uncrossed_antimono [of b ?sd ?b'] by (simp add: book_simps)
  ultimately show ?thesis
    using res abs by (intro exI [of _ ?b']) (simp add: book_simps)
qed

lemma CancelOrder_unknown:
  "book_ok b \<Longrightarrow> oid \<notin> be_order_id ` set (book_entries b) \<Longrightarrow>
   OrderBook_CancelOrder b oid = (Inl kOrderNotFound, b)"
  using index_ok_None [of "book_entries b" "ob_id_index b" oid]
  by (simp add: book_ok_def OrderBook_CancelOrder_def)

lemma Restore_spec:
  assumes "book_ok b" and "oid \<notin> be_order_id ` set (book_entries b)" and "0 < qty" "0 < p"
  shows "\<exists>b'. OrderBook_RestoreRestingOrder b oid sd p qty ts = (Inr (), b') \<and> book_ok b'
    \<and> abs_book b' = set_pb_side sd (insert_by_priority sd
         \<lparr>be_order_id = oid, be_side = sd, be_price = p, be_remaining_qty = qty, be_timestamp = ts\<rparr>
         (pb_side sd (abs_book b))) (abs_book b)
    \<and> ob_symbol b' = ob_symbol b \<and> ob_next_execution_id b' = ob_next_execution_id b"
proof -
  obtain e b' where r: "Rest b oid sd p qty ts = (e, b')" by (metis prod.exhaust)
  have "um_find (ob_id_index b) oid = None"
    using assms(1,2) index_ok_None unfolding book_ok_def by blast
  with assms(3,4) r Rest_spec [OF assms r] show ?thesis
    by (simp add: OrderBook_RestoreRestingOrder_def)
qed

subsection \<open>Every branch of AddOrder\<close>

lemma AddOrder_errors:
  "qty \<le> 0 \<Longrightarrow> OrderBook_AddOrder b oid sd ty p qty clk = (Inl kInvalidQuantity, b, clk)"
  "0 < qty \<Longrightarrow> ty = kLimit \<Longrightarrow> p \<le> 0 \<Longrightarrow>
     OrderBook_AddOrder b oid sd ty p qty clk = (Inl kInvalidPrice, b, clk)"
  "0 < qty \<Longrightarrow> ty = kLimit \<longrightarrow> 0 < p \<Longrightarrow> book_ok b \<Longrightarrow>
     oid \<in> be_order_id ` set (book_entries b) \<Longrightarrow>
     OrderBook_AddOrder b oid sd ty p qty clk = (Inl kDuplicateOrder, b, clk)"
  using index_ok_None [of "book_entries b" "ob_id_index b" oid]
  by (auto simp: OrderBook_AddOrder_def book_ok_def)

text \<open>A call either fails and changes nothing, or its result is the one of the specification.\<close>

lemma AddOrder_cases:
  assumes "book_ok b" and "OrderBook_AddOrder b oid sd ty p qty clk = (res, b', clk')"
  obtains (error) e where "res = Inl e" "b' = b" "clk' = clk"
      "e \<in> {kInvalidQuantity, kInvalidPrice, kDuplicateOrder}"
      "qty \<le> 0 \<or> ty = kLimit \<and> p \<le> 0 \<or> oid \<in> be_order_id ` set (book_entries b)"
  | (added) fs resting where "0 < qty" "ty = kLimit \<longrightarrow> 0 < p"
      "oid \<notin> be_order_id ` set (book_entries b)"
      "spec_add (abs_book b) oid sd ty p qty (shd clk) = (fs, resting, abs_book b')"
      "res = Inr \<lparr>ar_fills = mk_fills (taker_of b oid sd ty (shd clk)) (ob_next_execution_id b) fs,
                  ar_resting = resting\<rparr>" "clk' = stl clk"
      "book_ok b'" "uncrossed b \<longrightarrow> uncrossed b'" "ob_symbol b' = ob_symbol b"
      "ob_next_execution_id b' = ob_next_execution_id b + of_nat (length fs)"
proof (cases "qty \<le> 0 \<or> ty = kLimit \<and> p \<le> 0 \<or> oid \<in> be_order_id ` set (book_entries b)")
  case True
  then consider "qty \<le> 0" | "0 < qty" "ty = kLimit" "p \<le> 0"
    | "0 < qty" "ty = kLimit \<longrightarrow> 0 < p" "oid \<in> be_order_id ` set (book_entries b)"
    by linarith
  then show thesis
    by cases (use assms True in \<open>auto simp: AddOrder_errors intro!: error\<close>)
next
  case False
  obtain fs resting pb' where spec: "spec_add (abs_book b) oid sd ty p qty (shd clk) = (fs, resting, pb')"
    by (metis prod_cases3)
  from AddOrder_spec [OF assms(1) _ _ _ spec] False assms(2) spec show thesis
    by (intro added) auto
qed

lemma AddOrder_ok:
  assumes "book_ok b" and "OrderBook_AddOrder b oid sd ty p qty clk = (res, b', clk')"
  shows "book_ok b' \<and> (uncrossed b \<longrightarrow> uncrossed b') \<and> ob_symbol b' = ob_symbol b"
  using assms(2) by (cases rule: AddOrder_cases [OF assms]) (use assms(1) in auto)

lemma CancelOrder_ok:
  assumes "book_ok b" and "OrderBook_CancelOrder b oid = (res, b')"
  shows "book_ok b' \<and> (uncrossed b \<longrightarrow> uncrossed b') \<and> ob_symbol b' = ob_symbol b"
proof (cases "oid \<in> be_order_id ` set (book_entries b)")
  case True
  then obtain e where "e \<in> set (book_entries b)" "oid = be_order_id e" by auto
  with CancelOrder_found [OF assms(1)] assms(2) show ?thesis by fastforce
next
  case False
  with CancelOrder_unknown [OF assms(1)] assms show ?thesis by simp
qed

end
