(* ===== verification/Matching_Engine.thy ===== *)
theory Matching_Engine
  imports Book_Correctness
begin

section \<open>The multi-symbol matching engine (matching_engine.h, matching_engine.cc)\<close>

text \<open>
  Class \<open>MatchingEngine\<close>: one order book per symbol, created on first use, and one counter
  that renumbers the fills of every book, so that execution ids are unique across symbols.
  The order type of src/src/core/order/order.h is declared here because
  \<open>RestoreRestingOrder\<close> takes one.
\<close>

record order =
  o_internal_id :: order_id
  o_client_order_id :: string
  o_symbol :: symbol
  o_side :: side
  o_type :: order_type
  o_price :: price
  o_order_qty :: quantity
  o_filled_qty :: quantity
  o_remaining_qty :: quantity
  o_status :: order_status
  o_created_at :: timestamp
  o_updated_at :: timestamp

subsection \<open>State and operations\<close>

record matching_engine =
  me_books :: "(string, order_book) umap"
  me_next_execution_id :: execution_id

definition MatchingEngine :: matching_engine where
  "MatchingEngine = \<lparr>me_books = [], me_next_execution_id = 1\<rparr>"

definition GetOrCreateBook :: "matching_engine \<Rightarrow> symbol \<Rightarrow> order_book \<times> matching_engine" where
  "GetOrCreateBook me s =
     (case um_find (me_books me) (sym_value s) of
        Some b \<Rightarrow> (b, me)
      | None \<Rightarrow> (OrderBook s,
                 me\<lparr>me_books := um_emplace (sym_value s) (OrderBook s) (me_books me)\<rparr>))"

text \<open>The book reference that \<open>GetOrCreateBook\<close> returns is written back under its key.\<close>

definition put_book :: "symbol \<Rightarrow> order_book \<Rightarrow> matching_engine \<Rightarrow> matching_engine" where
  "put_book s b me = me\<lparr>me_books := um_assign (sym_value s) b (me_books me)\<rparr>"

fun renumber :: "execution_id \<Rightarrow> fill list \<Rightarrow> fill list \<times> execution_id" where
  "renumber n [] = ([], n)"
| "renumber n (f # fs) =
     (case renumber (n + 1) fs of (fs', n') \<Rightarrow> (f\<lparr>fl_execution_id := n\<rparr> # fs', n'))"

definition MatchingEngine_AddOrder ::
  "matching_engine \<Rightarrow> symbol \<Rightarrow> order_id \<Rightarrow> side \<Rightarrow> order_type \<Rightarrow> price \<Rightarrow> quantity \<Rightarrow> clock \<Rightarrow>
   add_order_result result \<times> matching_engine \<times> clock" where
  "MatchingEngine_AddOrder me s oid sd ty p qty clk =
     (case GetOrCreateBook me s of (b, me1) \<Rightarrow>
      case OrderBook_AddOrder b oid sd ty p qty clk of (res, b', clk') \<Rightarrow>
        (let me2 = put_book s b' me1
         in case res of
              Inl e \<Rightarrow> (Inl e, me2, clk')
            | Inr r \<Rightarrow>
                (case renumber (me_next_execution_id me2) (ar_fills r) of (fills, n) \<Rightarrow>
                   (Inr (r\<lparr>ar_fills := fills\<rparr>), me2\<lparr>me_next_execution_id := n\<rparr>, clk'))))"

definition MatchingEngine_CancelOrder ::
  "matching_engine \<Rightarrow> symbol \<Rightarrow> order_id \<Rightarrow> book_entry result \<times> matching_engine" where
  "MatchingEngine_CancelOrder me s oid =
     (case um_find (me_books me) (sym_value s) of
        None \<Rightarrow> (Inl kBookNotFound, me)
      | Some b \<Rightarrow> (case OrderBook_CancelOrder b oid of (res, b') \<Rightarrow> (res, put_book s b' me)))"

definition GetBook :: "matching_engine \<Rightarrow> symbol \<Rightarrow> order_book result" where
  "GetBook me s =
     (case um_find (me_books me) (sym_value s) of None \<Rightarrow> Inl kBookNotFound | Some b \<Rightarrow> Inr b)"

definition MatchingEngine_RestoreRestingOrder ::
  "matching_engine \<Rightarrow> order \<Rightarrow> unit result \<times> matching_engine" where
  "MatchingEngine_RestoreRestingOrder me ord =
     (if o_type ord \<noteq> kLimit \<or> o_remaining_qty ord \<le> 0 then (Inr (), me)
      else (case GetOrCreateBook me (o_symbol ord) of (b, me1) \<Rightarrow>
            case OrderBook_RestoreRestingOrder b (o_internal_id ord) (o_side ord) (o_price ord)
                   (o_remaining_qty ord) (o_created_at ord) of (res, b') \<Rightarrow>
              (res, put_book (o_symbol ord) b' me1)))"

definition SeedNextExecutionId :: "matching_engine \<Rightarrow> execution_id \<Rightarrow> matching_engine" where
  "SeedNextExecutionId me n = me\<lparr>me_next_execution_id := max 1 n\<rparr>"

definition BookCount :: "matching_engine \<Rightarrow> nat" where
  "BookCount me = length (me_books me)"

subsection \<open>Invariant\<close>

text \<open>Every book is a correct, uncrossed book of the symbol it is filed under.\<close>

definition engine_ok :: "matching_engine \<Rightarrow> bool" where
  "engine_ok me \<longleftrightarrow> distinct (map fst (me_books me)) \<and>
     (\<forall>(k, b) \<in> set (me_books me). sym_value (ob_symbol b) = k \<and> book_ok b \<and> uncrossed b)"

text \<open>The book an order for the symbol would meet.\<close>

definition book_of :: "matching_engine \<Rightarrow> symbol \<Rightarrow> order_book" where
  "book_of me s = (case um_find (me_books me) (sym_value s) of None \<Rightarrow> OrderBook s | Some b \<Rightarrow> b)"

lemma book_ok_new [simp]: "book_ok (OrderBook s)" "uncrossed (OrderBook s)"
  "book_entries (OrderBook s) = []" "ob_symbol (OrderBook s) = s"
  by (simp_all add: book_ok_def OrderBook_def index_ok_def book_entries_def uncrossed_def)

lemma engine_ok_new [simp]: "engine_ok MatchingEngine"
  by (simp add: engine_ok_def MatchingEngine_def)

lemma engine_ok_book_of:
  "engine_ok me \<Longrightarrow> book_ok (book_of me s) \<and> uncrossed (book_of me s)
     \<and> sym_value (ob_symbol (book_of me s)) = sym_value s"
  by (auto simp: engine_ok_def book_of_def dest!: map_of_SomeD split: option.splits)

lemma GetOrCreateBook_spec:
  "GetOrCreateBook me s = (b, me1) \<Longrightarrow> b = book_of me s
     \<and> um_find (me_books me1) = (um_find (me_books me))(sym_value s \<mapsto> b)
     \<and> me_next_execution_id me1 = me_next_execution_id me
     \<and> (distinct (map fst (me_books me)) \<longrightarrow> distinct (map fst (me_books me1)))"
  by (auto simp: GetOrCreateBook_def book_of_def umap_simps fun_eq_iff split: option.splits)

lemma put_book_find [umap_simps]:
  "um_find (me_books (put_book s b me)) = (um_find (me_books me))(sym_value s \<mapsto> b)"
  by (auto simp: put_book_def umap_simps fun_eq_iff)

lemma engine_okI:
  assumes "distinct (map fst (me_books me))"
    and "\<And>k b. um_find (me_books me) k = Some b \<Longrightarrow>
           sym_value (ob_symbol b) = k \<and> book_ok b \<and> uncrossed b"
  shows "engine_ok me"
  using assms by (auto simp: engine_ok_def simp flip: um_find_set)

lemma engine_ok_find:
  "engine_ok me \<Longrightarrow> um_find (me_books me) k = Some b \<Longrightarrow>
     sym_value (ob_symbol b) = k \<and> book_ok b \<and> uncrossed b"
  by (auto simp: engine_ok_def dest: map_of_SomeD)

lemma engine_ok_distinct: "engine_ok me \<Longrightarrow> distinct (map fst (me_books me))"
  by (simp add: engine_ok_def)

lemma renumber_spec:
  "renumber n fs = (fs', n') \<Longrightarrow> n' = n + of_nat (length fs) \<and> length fs' = length fs
     \<and> (\<forall>i < length fs. fs' ! i = (fs ! i)\<lparr>fl_execution_id := n + of_nat i\<rparr>)"
proof (induction n fs arbitrary: fs' n' rule: renumber.induct)
  case (2 n f fs)
  then obtain gs where "renumber (n + 1) fs = (gs, n')" "fs' = f\<lparr>fl_execution_id := n\<rparr> # gs"
    by (auto split: prod.splits)
  with 2 show ?case
    by (auto simp: nth_Cons algebra_simps split: nat.splits)
qed simp

subsection \<open>Operations through the book of their symbol\<close>

lemma Engine_AddOrder_book:
  assumes "MatchingEngine_AddOrder me s oid sd ty p qty clk = (res, me', clk')"
  obtains bres b' where "OrderBook_AddOrder (book_of me s) oid sd ty p qty clk = (bres, b', clk')"
    and "um_find (me_books me') = (um_find (me_books me))(sym_value s \<mapsto> b')"
    and "distinct (map fst (me_books me)) \<Longrightarrow> distinct (map fst (me_books me'))"
    and "\<And>e. bres = Inl e \<Longrightarrow> res = Inl e \<and> me_next_execution_id me' = me_next_execution_id me"
    and "\<And>r. bres = Inr r \<Longrightarrow>
        res = Inr (r\<lparr>ar_fills := fst (renumber (me_next_execution_id me) (ar_fills r))\<rparr>)
        \<and> me_next_execution_id me' = me_next_execution_id me + of_nat (length (ar_fills r))"
proof -
  obtain b me1 where g: "GetOrCreateBook me s = (b, me1)" by force
  note G = GetOrCreateBook_spec [OF g]
  obtain bres b' c where a: "OrderBook_AddOrder b oid sd ty p qty clk = (bres, b', c)"
    by (metis prod_cases3)
  have put: "distinct (map fst (me_books me)) \<Longrightarrow> distinct (map fst (me_books (put_book s b' me1)))"
    "um_find (me_books (put_book s b' me1)) = (um_find (me_books me))(sym_value s \<mapsto> b')"
    "me_next_execution_id (put_book s b' me1) = me_next_execution_id me"
    using G by (auto simp: put_book_def umap_simps)
  show thesis
  proof (cases bres)
    case (Inl e)
    then show thesis
      using assms g a G put by (intro that [of bres b']) (auto simp: MatchingEngine_AddOrder_def)
  next
    case (Inr r)
    obtain fs' n' where rn: "renumber (me_next_execution_id me) (ar_fills r) = (fs', n')" by force
    then show thesis
      using assms g a G put Inr renumber_spec [OF rn]
      by (intro that [of bres b']) (auto simp: MatchingEngine_AddOrder_def Let_def)
  qed
qed

lemma engine_ok_update:
  assumes "engine_ok me" and "um_find (me_books me') = (um_find (me_books me))(sym_value s \<mapsto> b')"
    and "distinct (map fst (me_books me'))"
    and "book_ok b'" "uncrossed b'" "sym_value (ob_symbol b') = sym_value s"
  shows "engine_ok me'"
  using assms by (intro engine_okI) (auto dest: engine_ok_find split: if_splits)

lemma Engine_AddOrder_ok:
  assumes ok: "engine_ok me" and "MatchingEngine_AddOrder me s oid sd ty p qty clk = (res, me', clk')"
  shows "engine_ok me'"
  using assms(2)
proof (cases rule: Engine_AddOrder_book)
  case (1 bres b')
  note B = engine_ok_book_of [OF ok, of s]
  from AddOrder_ok [OF _ 1(1)] B have "book_ok b'" "uncrossed b'" "sym_value (ob_symbol b') = sym_value s"
    by auto
  then show ?thesis
    using engine_ok_update [OF ok 1(2)] 1(3) engine_ok_distinct [OF ok] by blast
qed

lemma Engine_CancelOrder_ok:
  assumes ok: "engine_ok me" and c: "MatchingEngine_CancelOrder me s oid = (res, me')"
  shows "engine_ok me'"
proof (cases "um_find (me_books me) (sym_value s)")
  case None
  with c ok show ?thesis by (simp add: MatchingEngine_CancelOrder_def)
next
  case (Some b)
  obtain b' where b': "OrderBook_CancelOrder b oid = (res, b')" and me': "me' = put_book s b' me"
    using c Some by (auto simp: MatchingEngine_CancelOrder_def split: prod.splits)
  have "distinct (map fst (me_books me'))"
    using engine_ok_distinct [OF ok] by (simp add: me' put_book_def umap_simps)
  moreover have "book_ok b'" "uncrossed b'" "sym_value (ob_symbol b') = sym_value s"
    using engine_ok_find [OF ok Some] CancelOrder_ok [OF _ b'] by auto
  ultimately show ?thesis
    unfolding me' by (intro engine_ok_update [OF ok, of _ s b']) (simp_all only: put_book_find)
qed

end
