(* ===== verification/Order_Types.thy ===== *)
theory Order_Types
  imports Matching_Engine Decimal
begin

section \<open>Requests and lifecycle events (src/src/core/order/order.h, order_event.h)\<close>

text \<open>
  The record \<open>order\<close> itself is in Matching_Engine. The event kinds that share a name with an
  order status carry the suffix \<open>_event\<close>.
\<close>

record new_order_request =
  nr_client_order_id :: string
  nr_symbol :: symbol
  nr_side :: side
  nr_type :: order_type
  nr_price :: price
  nr_quantity :: quantity

record cancel_order_request =
  cr_order_id :: order_id

datatype event_type =
  kNewRequested | kAccepted_event | kRejected_event | kPartialFill | kFill | kCancelRequested
| kCancelled_event

fun EventTypeName :: "event_type \<Rightarrow> string" where
  "EventTypeName kNewRequested = ''NewRequested''"
| "EventTypeName kAccepted_event = ''Accepted''"
| "EventTypeName kRejected_event = ''Rejected''"
| "EventTypeName kPartialFill = ''PartialFill''"
| "EventTypeName kFill = ''Fill''"
| "EventTypeName kCancelRequested = ''CancelRequested''"
| "EventTypeName kCancelled_event = ''Cancelled''"

record order_event =
  ev_event_id :: u64
  ev_order_id :: order_id
  ev_type :: event_type
  ev_timestamp :: timestamp
  ev_detail :: string

end
