(* ===== verification/Database.thy ===== *)
theory Database
  imports Order_Types
begin

section \<open>SQLite persistence (src/src/core/persistence/)\<close>

text \<open>
  Class \<open>Database\<close> over SQLite. SQLite itself is not part of the program: it is the parameter
  \<open>'d sqlite\<close>, a record of the C API calls the code makes on a database state \<open>'d\<close>. What the
  code does is modelled: the SQL text of every statement, the values bound to its parameters
  (with the casts of the code), the result codes it tests and the decoding of rows.

  \<^item> \<open>sq_step sql params\<close> is the prepared statement stepped as far as it delivers rows: the
    rows, the first code that is not \<open>SQLITE_ROW\<close>, and the new state.
  \<^item> \<open>sqlite3_bind_text(.., s.c_str(), -1, ..)\<close> binds the text up to the first NUL.
  \<^item> An enumerator code that names no enumerator decodes to \<open>None\<close>; what the program does with
    such a value is not modelled.
\<close>

datatype sql_value = SqlInt int | SqlText string | SqlNull

datatype sq_code = SQLITE_ROW | SQLITE_DONE | SQLITE_ERROR

type_synonym sql_row = "sql_value list"

record 'd sqlite =
  sq_open :: "string \<Rightarrow> 'd option"
  sq_exec :: "string \<Rightarrow> 'd \<Rightarrow> bool \<times> 'd"
  sq_prepare :: "string \<Rightarrow> 'd \<Rightarrow> bool"
  sq_step :: "string \<Rightarrow> sql_value list \<Rightarrow> 'd \<Rightarrow> sql_row list \<times> sq_code \<times> 'd"
  sq_column_int64 :: "sql_value \<Rightarrow> int"
  sq_column_int :: "sql_value \<Rightarrow> int"
  sq_column_text :: "sql_value \<Rightarrow> string option"

subsection \<open>Values\<close>

definition c_str :: "string \<Rightarrow> string" where
  "c_str s = takeWhile (\<lambda>c. c \<noteq> CHR 0x00) s"

definition bind_text :: "string \<Rightarrow> sql_value" where
  "bind_text s = SqlText (c_str s)"

definition bind_u64 :: "u64 \<Rightarrow> sql_value" where
  \<comment> \<open>\<open>static_cast<sqlite3_int64>\<close> of an unsigned identifier\<close>
  "bind_u64 w = SqlInt (sint w)"

definition ToNanos :: "timestamp \<Rightarrow> int" where
  "ToNanos t = t"

definition FromNanos :: "int \<Rightarrow> timestamp" where
  "FromNanos n = n"

definition enum_at :: "'a list \<Rightarrow> int \<Rightarrow> 'a option" where
  \<comment> \<open>\<open>static_cast\<close> to an enumeration over \<open>std::uint8_t\<close>\<close>
  "enum_at xs i = (let k = nat (i mod 256) in if k < length xs then Some (xs ! k) else None)"

definition sides :: "side list" where
  "sides = [kBuy, kSell]"

definition order_types :: "order_type list" where
  "order_types = [kLimit, kMarket]"

definition order_statuses :: "order_status list" where
  "order_statuses =
     [kPendingNew, kAccepted, kPartiallyFilled, kFilled, kPendingCancel, kCancelled, kRejected]"

definition event_types :: "event_type list" where
  "event_types =
     [kNewRequested, kAccepted_event, kRejected_event, kPartialFill, kFill, kCancelRequested,
      kCancelled_event]"

fun enum_code :: "'a list \<Rightarrow> 'a \<Rightarrow> int" where
  \<comment> \<open>\<open>static_cast<std::int32_t>\<close> of an enumerator: its position\<close>
  "enum_code [] x = 0"
| "enum_code (y # ys) x = (if x = y then 0 else 1 + enum_code ys x)"

definition column_u64 :: "'d sqlite \<Rightarrow> sql_value \<Rightarrow> u64" where
  "column_u64 sq v = word_of_int (sq_column_int64 sq v)"

definition column_string :: "'d sqlite \<Rightarrow> sql_value \<Rightarrow> string" where
  "column_string sq v = (case sq_column_text sq v of None \<Rightarrow> '''' | Some s \<Rightarrow> s)"

subsection \<open>Running statements\<close>

definition run_write :: "'d sqlite \<Rightarrow> string \<Rightarrow> sql_value list \<Rightarrow> 'd \<Rightarrow> unit result \<times> 'd" where
  \<comment> \<open>prepare, bind, one step, finalize; any code but \<open>SQLITE_DONE\<close> is an error\<close>
  "run_write sq sql params d =
     (if \<not> sq_prepare sq sql d then (Inl kDatabaseError, d)
      else (case sq_step sq sql params d of (rows, rc, d') \<Rightarrow>
              (if rows = [] \<and> rc = SQLITE_DONE then Inr () else Inl kDatabaseError, d')))"

definition run_query ::
  "'d sqlite \<Rightarrow> string \<Rightarrow> sql_value list \<Rightarrow> (sql_row \<Rightarrow> 'a option) \<Rightarrow> 'd \<Rightarrow>
   'a list option result \<times> 'd" where
  \<comment> \<open>\<open>while (sqlite3_step(stmt) == SQLITE_ROW)\<close>: the code that ends the loop is not looked at\<close>
  "run_query sq sql params decode d =
     (if \<not> sq_prepare sq sql d then (Inl kDatabaseError, d)
      else (case sq_step sq sql params d of (rows, rc, d') \<Rightarrow> (Inr (those (map decode rows)), d')))"

subsection \<open>SQL text\<close>

definition sql_save_order :: string where
  "sql_save_order =
     ''INSERT OR REPLACE INTO orders (internal_id, client_order_id, symbol, side, type, '' @
     ''price, order_qty, filled_qty, remaining_qty, status, created_at_ns, updated_at_ns) '' @
     ''VALUES (?,?,?,?,?,?,?,?,?,?,?,?)''"

definition sql_order_columns :: string where
  "sql_order_columns =
     ''SELECT internal_id, client_order_id, symbol, side, type, price, order_qty, '' @
     ''filled_qty, remaining_qty, status, created_at_ns, updated_at_ns FROM orders ''"

definition sql_load_orders :: string where
  "sql_load_orders = sql_order_columns @ ''ORDER BY internal_id''"

definition sql_load_order :: string where
  "sql_load_order = sql_order_columns @ ''WHERE internal_id=?''"

definition sql_append_event :: string where
  "sql_append_event =
     ''INSERT INTO order_events (event_id, order_id, type, timestamp_ns, detail) '' @
     ''VALUES (?,?,?,?,?)''"

definition sql_load_events :: string where
  "sql_load_events =
     ''SELECT event_id, order_id, type, timestamp_ns, detail FROM order_events '' @
     ''WHERE order_id=? ORDER BY event_id''"

definition sql_load_all_events :: string where
  "sql_load_all_events =
     ''SELECT event_id, order_id, type, timestamp_ns, detail FROM order_events '' @
     ''ORDER BY event_id''"

definition sql_save_execution :: string where
  "sql_save_execution =
     ''INSERT OR REPLACE INTO executions (execution_id, symbol, aggressive_order_id, '' @
     ''passive_order_id, aggressive_side, price, quantity, timestamp_ns) '' @
     ''VALUES (?,?,?,?,?,?,?,?)''"

definition sql_load_executions :: string where
  "sql_load_executions =
     ''SELECT execution_id, symbol, aggressive_order_id, passive_order_id, '' @
     ''aggressive_side, price, quantity, timestamp_ns FROM executions '' @
     ''ORDER BY execution_id''"

definition sql_append_audit :: string where
  "sql_append_audit = ''INSERT INTO audit_log (category, message, timestamp_ns) VALUES (?,?,?)''"

definition sql_save_state :: string where
  "sql_save_state = ''INSERT OR REPLACE INTO service_state (key, value) VALUES (?,?)''"

definition sql_load_state :: string where
  "sql_load_state = ''SELECT value FROM service_state WHERE key=?''"

subsection \<open>Opening\<close>

definition Database_Open :: "'d sqlite \<Rightarrow> string \<Rightarrow> 'd result" where
  \<comment> \<open>the results of the two pragmas are ignored\<close>
  "Database_Open sq path =
     (case sq_open sq (c_str path) of
        None \<Rightarrow> Inl kDatabaseError
      | Some d \<Rightarrow>
          Inr (snd (sq_exec sq ''PRAGMA foreign_keys=ON;''
                 (snd (sq_exec sq ''PRAGMA journal_mode=WAL;'' d)))))"

definition Database_Exec :: "'d sqlite \<Rightarrow> string \<Rightarrow> 'd \<Rightarrow> unit result \<times> 'd" where
  "Database_Exec sq sql d =
     (case sq_exec sq (c_str sql) d of (ok, d') \<Rightarrow> (if ok then Inr () else Inl kDatabaseError, d'))"

subsection \<open>Schema\<close>

definition lines_text :: "string list \<Rightarrow> string" where
  "lines_text ls = concat (map (\<lambda>l. l @ [CHR 0x0A]) ls)"

definition kSchema :: string where
  "kSchema = lines_text
     [[],
      ''CREATE TABLE IF NOT EXISTS orders ('',
      ''  internal_id     INTEGER PRIMARY KEY,'',
      ''  client_order_id TEXT    NOT NULL,'',
      ''  symbol          TEXT    NOT NULL,'',
      ''  side            INTEGER NOT NULL,'',
      ''  type            INTEGER NOT NULL,'',
      ''  price           INTEGER NOT NULL,'',
      ''  order_qty       INTEGER NOT NULL,'',
      ''  filled_qty      INTEGER NOT NULL,'',
      ''  remaining_qty   INTEGER NOT NULL,'',
      ''  status          INTEGER NOT NULL,'',
      ''  created_at_ns   INTEGER NOT NULL,'',
      ''  updated_at_ns   INTEGER NOT NULL'',
      '');'',
      [],
      ''CREATE TABLE IF NOT EXISTS order_events ('',
      ''  event_id        INTEGER PRIMARY KEY,'',
      ''  order_id        INTEGER NOT NULL,'',
      ''  type            INTEGER NOT NULL,'',
      ''  timestamp_ns    INTEGER NOT NULL,'',
      ''  detail          TEXT    NOT NULL'',
      '');'',
      ''CREATE INDEX IF NOT EXISTS idx_events_order_id ON order_events(order_id);'',
      [],
      ''CREATE TABLE IF NOT EXISTS executions ('',
      ''  execution_id          INTEGER PRIMARY KEY,'',
      ''  symbol                TEXT    NOT NULL,'',
      ''  aggressive_order_id   INTEGER NOT NULL,'',
      ''  passive_order_id      INTEGER NOT NULL,'',
      ''  aggressive_side       INTEGER NOT NULL,'',
      ''  price                 INTEGER NOT NULL,'',
      ''  quantity              INTEGER NOT NULL,'',
      ''  timestamp_ns          INTEGER NOT NULL'',
      '');'',
      [],
      ''CREATE TABLE IF NOT EXISTS audit_log ('',
      ''  id              INTEGER PRIMARY KEY AUTOINCREMENT,'',
      ''  category        TEXT    NOT NULL,'',
      ''  message         TEXT    NOT NULL,'',
      ''  timestamp_ns    INTEGER NOT NULL'',
      '');'',
      [],
      ''CREATE TABLE IF NOT EXISTS service_state ('',
      ''  key   TEXT PRIMARY KEY,'',
      ''  value TEXT NOT NULL'',
      '');'']"

definition Migrate :: "'d sqlite \<Rightarrow> 'd \<Rightarrow> unit result \<times> 'd" where
  "Migrate sq d = Database_Exec sq kSchema d"

subsection \<open>Orders\<close>

definition order_row :: "order \<Rightarrow> sql_row" where
  "order_row ord =
     [bind_u64 (o_internal_id ord), bind_text (o_client_order_id ord),
      bind_text (sym_value (o_symbol ord)), SqlInt (enum_code sides (o_side ord)),
      SqlInt (enum_code order_types (o_type ord)), SqlInt (o_price ord), SqlInt (o_order_qty ord),
      SqlInt (o_filled_qty ord), SqlInt (o_remaining_qty ord),
      SqlInt (enum_code order_statuses (o_status ord)), SqlInt (ToNanos (o_created_at ord)),
      SqlInt (ToNanos (o_updated_at ord))]"

definition Database_SaveOrder :: "'d sqlite \<Rightarrow> order \<Rightarrow> 'd \<Rightarrow> unit result \<times> 'd" where
  "Database_SaveOrder sq ord d = run_write sq sql_save_order (order_row ord) d"

definition RowToOrder :: "'d sqlite \<Rightarrow> sql_row \<Rightarrow> order option" where
  "RowToOrder sq row =
     (case row of
        [c0, c1, c2, c3, c4, c5, c6, c7, c8, c9, c10, c11] \<Rightarrow>
          (case (enum_at sides (sq_column_int sq c3), enum_at order_types (sq_column_int sq c4),
                 enum_at order_statuses (sq_column_int sq c9)) of
             (Some sd, Some ty, Some st) \<Rightarrow>
               Some \<lparr>o_internal_id = column_u64 sq c0, o_client_order_id = column_string sq c1,
                     o_symbol = \<lparr>sym_value = column_string sq c2\<rparr>, o_side = sd, o_type = ty,
                     o_price = sq_column_int64 sq c5, o_order_qty = sq_column_int64 sq c6,
                     o_filled_qty = sq_column_int64 sq c7, o_remaining_qty = sq_column_int64 sq c8,
                     o_status = st, o_created_at = FromNanos (sq_column_int64 sq c10),
                     o_updated_at = FromNanos (sq_column_int64 sq c11)\<rparr>
           | _ \<Rightarrow> None)
      | _ \<Rightarrow> None)"

definition Database_LoadOrders :: "'d sqlite \<Rightarrow> 'd \<Rightarrow> order list option result \<times> 'd" where
  "Database_LoadOrders sq d = run_query sq sql_load_orders [] (RowToOrder sq) d"

definition Database_LoadOrder :: "'d sqlite \<Rightarrow> order_id \<Rightarrow> 'd \<Rightarrow> order option result \<times> 'd" where
  "Database_LoadOrder sq oid d =
     (if \<not> sq_prepare sq sql_load_order d then (Inl kDatabaseError, d)
      else (case sq_step sq sql_load_order [bind_u64 oid] d of (rows, rc, d') \<Rightarrow>
              (case rows of [] \<Rightarrow> (Inl kOrderNotFound, d')
               | row # _ \<Rightarrow> (Inr (RowToOrder sq row), d'))))"

subsection \<open>Events and executions\<close>

definition event_row :: "order_event \<Rightarrow> sql_row" where
  "event_row ev =
     [bind_u64 (ev_event_id ev), bind_u64 (ev_order_id ev), SqlInt (enum_code event_types (ev_type ev)),
      SqlInt (ToNanos (ev_timestamp ev)), bind_text (ev_detail ev)]"

definition Database_AppendEvent :: "'d sqlite \<Rightarrow> order_event \<Rightarrow> 'd \<Rightarrow> unit result \<times> 'd" where
  "Database_AppendEvent sq ev d = run_write sq sql_append_event (event_row ev) d"

definition RowToEvent :: "'d sqlite \<Rightarrow> sql_row \<Rightarrow> order_event option" where
  "RowToEvent sq row =
     (case row of
        [c0, c1, c2, c3, c4] \<Rightarrow>
          map_option (\<lambda>ty. \<lparr>ev_event_id = column_u64 sq c0, ev_order_id = column_u64 sq c1,
                            ev_type = ty, ev_timestamp = FromNanos (sq_column_int64 sq c3),
                            ev_detail = column_string sq c4\<rparr>)
            (enum_at event_types (sq_column_int sq c2))
      | _ \<Rightarrow> None)"

definition Database_LoadEvents ::
  "'d sqlite \<Rightarrow> order_id \<Rightarrow> 'd \<Rightarrow> order_event list option result \<times> 'd" where
  "Database_LoadEvents sq oid d = run_query sq sql_load_events [bind_u64 oid] (RowToEvent sq) d"

definition Database_LoadAllEvents :: "'d sqlite \<Rightarrow> 'd \<Rightarrow> order_event list option result \<times> 'd" where
  "Database_LoadAllEvents sq d = run_query sq sql_load_all_events [] (RowToEvent sq) d"

definition fill_row :: "fill \<Rightarrow> sql_row" where
  "fill_row f =
     [bind_u64 (fl_execution_id f), bind_text (sym_value (fl_symbol f)),
      bind_u64 (fl_aggressive_order_id f), bind_u64 (fl_passive_order_id f),
      SqlInt (enum_code sides (fl_aggressive_side f)), SqlInt (fl_price f), SqlInt (fl_quantity f),
      SqlInt (ToNanos (fl_timestamp f))]"

definition Database_SaveExecution :: "'d sqlite \<Rightarrow> fill \<Rightarrow> 'd \<Rightarrow> unit result \<times> 'd" where
  "Database_SaveExecution sq f d = run_write sq sql_save_execution (fill_row f) d"

definition RowToFill :: "'d sqlite \<Rightarrow> sql_row \<Rightarrow> fill option" where
  "RowToFill sq row =
     (case row of
        [c0, c1, c2, c3, c4, c5, c6, c7] \<Rightarrow>
          map_option (\<lambda>sd. \<lparr>fl_execution_id = column_u64 sq c0,
                            fl_symbol = \<lparr>sym_value = column_string sq c1\<rparr>,
                            fl_aggressive_order_id = column_u64 sq c2,
                            fl_passive_order_id = column_u64 sq c3, fl_aggressive_side = sd,
                            fl_price = sq_column_int64 sq c5, fl_quantity = sq_column_int64 sq c6,
                            fl_timestamp = FromNanos (sq_column_int64 sq c7)\<rparr>)
            (enum_at sides (sq_column_int sq c4))
      | _ \<Rightarrow> None)"

definition Database_LoadExecutions :: "'d sqlite \<Rightarrow> 'd \<Rightarrow> fill list option result \<times> 'd" where
  "Database_LoadExecutions sq d = run_query sq sql_load_executions [] (RowToFill sq) d"

subsection \<open>Audit log and service state\<close>

definition Database_AppendAudit ::
  "'d sqlite \<Rightarrow> string \<Rightarrow> string \<Rightarrow> clock \<Rightarrow> 'd \<Rightarrow> unit result \<times> 'd \<times> clock" where
  \<comment> \<open>the clock is read only when the statement prepares\<close>
  "Database_AppendAudit sq category message clk d =
     (if \<not> sq_prepare sq sql_append_audit d then (Inl kDatabaseError, d, clk)
      else (case Now clk of (now, clk') \<Rightarrow>
            case run_write sq sql_append_audit
                   [bind_text category, bind_text message, SqlInt (ToNanos now)] d of
              (res, d') \<Rightarrow> (res, d', clk')))"

definition Database_SaveServiceState ::
  "'d sqlite \<Rightarrow> string \<Rightarrow> string \<Rightarrow> 'd \<Rightarrow> unit result \<times> 'd" where
  "Database_SaveServiceState sq key val d = run_write sq sql_save_state [bind_text key, bind_text val] d"

definition Database_LoadServiceState ::
  "'d sqlite \<Rightarrow> string \<Rightarrow> 'd \<Rightarrow> string option result \<times> 'd" where
  "Database_LoadServiceState sq key d =
     (if \<not> sq_prepare sq sql_load_state d then (Inl kDatabaseError, d)
      else (case sq_step sq sql_load_state [bind_text key] d of (rows, rc, d') \<Rightarrow>
              (case rows of
                 (v # _) # _ \<Rightarrow> (Inr (Some (column_string sq v)), d')
               | [] # _ \<Rightarrow> (Inr (Some ''''), d')
               | [] \<Rightarrow> (if rc = SQLITE_DONE then Inr None else Inl kDatabaseError, d'))))"

end
