(* ===== verification/Order_Manager.thy ===== *)
theory Order_Manager
  imports Database Risk_Manager
begin

section \<open>The order manager (src/src/core/order/order_manager.h, order_manager.cc)\<close>

text \<open>
  Class \<open>OrderManager\<close>. The collaborators it references (risk manager, matching engine and the
  database, which may be absent) and the clock are fields of its state, since every call
  changes them. \<open>sq\<close> is the SQLite parameter of theory Database. The results of all database
  writes are discarded, as in the code.
\<close>

record 'd order_manager =
  om_risk :: risk_manager
  om_engine :: matching_engine
  om_db :: "'d option"
  om_next_order_id :: order_id
  om_next_event_id :: u64
  om_orders :: "(order_id, order) umap"
  om_events :: "order_event list"
  om_executions :: "fill list"
  om_clock :: clock

definition OrderManager ::
  "risk_manager \<Rightarrow> matching_engine \<Rightarrow> 'd option \<Rightarrow> clock \<Rightarrow> 'd order_manager" where
  "OrderManager risk engine db clk =
     \<lparr>om_risk = risk, om_engine = engine, om_db = db, om_next_order_id = 1, om_next_event_id = 1,
      om_orders = [], om_events = [], om_executions = [], om_clock = clk\<rparr>"

subsection \<open>Small steps\<close>

definition om_Now :: "'d order_manager \<Rightarrow> timestamp \<times> 'd order_manager" where
  "om_Now om = (case Now (om_clock om) of (t, clk') \<Rightarrow> (t, om\<lparr>om_clock := clk'\<rparr>))"

definition NextOrderId :: "'d order_manager \<Rightarrow> order_id \<times> 'd order_manager" where
  "NextOrderId om = (om_next_order_id om, om\<lparr>om_next_order_id := om_next_order_id om + 1\<rparr>)"

definition NextEventId :: "'d order_manager \<Rightarrow> u64 \<times> 'd order_manager" where
  "NextEventId om = (om_next_event_id om, om\<lparr>om_next_event_id := om_next_event_id om + 1\<rparr>)"

definition with_db :: "('d \<Rightarrow> 'r \<times> 'd) \<Rightarrow> 'd order_manager \<Rightarrow> 'd order_manager" where
  \<comment> \<open>\<open>if (db_ != nullptr) { (void)db_->...; }\<close>\<close>
  "with_db f om = om\<lparr>om_db := map_option (\<lambda>d. snd (f d)) (om_db om)\<rparr>"

definition put_order :: "order_id \<Rightarrow> order \<Rightarrow> 'd order_manager \<Rightarrow> 'd order_manager" where
  "put_order oid ord om = om\<lparr>om_orders := um_assign oid ord (om_orders om)\<rparr>"

definition AppendEvent ::
  "'d sqlite \<Rightarrow> order_id \<Rightarrow> event_type \<Rightarrow> string \<Rightarrow> 'd order_manager \<Rightarrow> 'd order_manager" where
  "AppendEvent sq oid ty detail om =
     (case NextEventId om of (eid, om1) \<Rightarrow>
      case om_Now om1 of (now, om2) \<Rightarrow>
        (let event = \<lparr>ev_event_id = eid, ev_order_id = oid, ev_type = ty, ev_timestamp = now,
                      ev_detail = detail\<rparr>;
             om3 = om2\<lparr>om_events := om_events om2 @ [event]\<rparr>
         in with_db (Database_AppendEvent sq event) om3))"

definition fill_detail :: "fill \<Rightarrow> string" where
  "fill_detail f =
     ''exec='' @ u64_to_string (fl_execution_id f) @ '' qty='' @ int_to_string (fl_quantity f)"

subsection \<open>Applying fills\<close>

definition fill_order :: "fill \<Rightarrow> order \<Rightarrow> order" where
  "fill_order f ord = ord\<lparr>o_filled_qty := o_filled_qty ord + fl_quantity f,
                          o_remaining_qty := o_remaining_qty ord - fl_quantity f\<rparr>"

definition apply_passive :: "'d sqlite \<Rightarrow> fill \<Rightarrow> 'd order_manager \<Rightarrow> 'd order_manager" where
  "apply_passive sq f om =
     (case um_find (om_orders om) (fl_passive_order_id f) of
        None \<Rightarrow> om
      | Some passive0 \<Rightarrow>
          (case om_Now om of (now, om1) \<Rightarrow>
             (let passive = (fill_order f passive0)\<lparr>o_updated_at := now\<rparr>;
                  passive' = passive\<lparr>o_status := (if o_remaining_qty passive = 0 then kFilled
                                                  else kPartiallyFilled)\<rparr>;
                  om2 = put_order (fl_passive_order_id f) passive' om1;
                  om3 = AppendEvent sq (o_internal_id passive')
                          (if o_remaining_qty passive = 0 then kFill else kPartialFill)
                          (fill_detail f) om2
              in with_db (Database_SaveOrder sq passive') om3)))"

fun ApplyFills ::
  "'d sqlite \<Rightarrow> order \<Rightarrow> fill list \<Rightarrow> 'd order_manager \<Rightarrow> order \<times> 'd order_manager" where
  "ApplyFills sq ord [] om = (ord, om)"
| "ApplyFills sq ord (f # fs) om =
     (let ord' = fill_order f ord;
          om1 = om\<lparr>om_executions := om_executions om @ [f]\<rparr>;
          om2 = with_db (Database_SaveExecution sq f) om1;
          om3 = apply_passive sq f om2;
          om4 = AppendEvent sq (o_internal_id ord')
                  (if o_remaining_qty ord' = 0 then kFill else kPartialFill) (fill_detail f) om3
      in ApplyFills sq ord' fs om4)"

subsection \<open>Submitting\<close>

definition order_of_request ::
  "order_id \<Rightarrow> new_order_request \<Rightarrow> order_status \<Rightarrow> timestamp \<Rightarrow> timestamp \<Rightarrow> order" where
  "order_of_request oid req st created updated =
     \<lparr>o_internal_id = oid, o_client_order_id = nr_client_order_id req, o_symbol = nr_symbol req,
      o_side = nr_side req, o_type = nr_type req, o_price = nr_price req,
      o_order_qty = nr_quantity req, o_filled_qty = 0, o_remaining_qty = nr_quantity req,
      o_status = st, o_created_at = created, o_updated_at = updated\<rparr>"

definition risk_request_of :: "new_order_request \<Rightarrow> risk_request" where
  "risk_request_of req = \<lparr>rr_symbol = nr_symbol req, rr_side = nr_side req, rr_type = nr_type req,
                          rr_price = nr_price req, rr_quantity = nr_quantity req\<rparr>"

definition reject_by_risk ::
  "'d sqlite \<Rightarrow> new_order_request \<Rightarrow> oems_error \<Rightarrow> 'd order_manager \<Rightarrow> 'd order_manager" where
  "reject_by_risk sq req err om =
     (case NextOrderId om of (oid, om1) \<Rightarrow>
      case om_Now om1 of (created, om2) \<Rightarrow>
      case om_Now om2 of (updated, om3) \<Rightarrow>
        (let rejected = order_of_request oid req kRejected created updated;
             om4 = put_order oid rejected om3;
             om5 = AppendEvent sq oid kNewRequested (nr_client_order_id req) om4;
             om6 = AppendEvent sq oid kRejected_event (ErrorName err) om5
         in with_db (Database_SaveOrder sq rejected) om6))"

definition reject_by_matching ::
  "'d sqlite \<Rightarrow> order \<Rightarrow> oems_error \<Rightarrow> 'd order_manager \<Rightarrow> 'd order_manager" where
  "reject_by_matching sq ord err om =
     (case om_Now om of (now, om1) \<Rightarrow>
        (let rejected = ord\<lparr>o_status := kRejected, o_updated_at := now\<rparr>;
             om2 = put_order (o_internal_id ord) rejected om1;
             om3 = AppendEvent sq (o_internal_id ord) kRejected_event (ErrorName err) om2
         in with_db (Database_SaveOrder sq rejected) om3))"

definition final_status :: "order \<Rightarrow> order_status" where
  \<comment> \<open>the status after the fills have been applied\<close>
  "final_status ord =
     (if o_remaining_qty ord = 0 then kFilled
      else if o_type ord = kMarket
      then (if o_filled_qty ord > 0 then kPartiallyFilled else kRejected)
      else if o_filled_qty ord > 0 then kPartiallyFilled
      else o_status ord)"

definition accept_order ::
  "'d sqlite \<Rightarrow> order \<Rightarrow> fill list \<Rightarrow> 'd order_manager \<Rightarrow> order \<times> 'd order_manager" where
  "accept_order sq ord fills om =
     (case om_Now om of (now, om1) \<Rightarrow>
        (let oid = o_internal_id ord;
             om2 = AppendEvent sq oid kAccepted_event '''' om1
         in case ApplyFills sq (ord\<lparr>o_status := kAccepted, o_updated_at := now\<rparr>) fills om2 of
              (ord1, om3) \<Rightarrow>
                (let st = final_status ord1;
                     om4 = (if o_remaining_qty ord1 \<noteq> 0 \<and> o_type ord1 = kMarket \<and> st = kRejected
                            then AppendEvent sq oid kRejected_event ''no liquidity for market order'' om3
                            else om3)
                 in case om_Now om4 of (now', om5) \<Rightarrow>
                      (let ord2 = ord1\<lparr>o_status := st, o_updated_at := now'\<rparr>;
                           om6 = put_order oid ord2 om5
                       in (ord2, with_db (Database_SaveOrder sq ord2) om6)))))"

definition SubmitOrder ::
  "'d sqlite \<Rightarrow> new_order_request \<Rightarrow> 'd order_manager \<Rightarrow> order result \<times> 'd order_manager" where
  "SubmitOrder sq req om =
     (if nr_quantity req \<le> 0 then (Inl kInvalidQuantity, om)
      else if nr_type req = kLimit \<and> nr_price req \<le> 0 then (Inl kInvalidPrice, om)
      else if sym_value (nr_symbol req) = [] then (Inl kInvalidSymbol, om)
      else (case Check (om_risk om) (risk_request_of req) (om_clock om) of (ok, risk', clk') \<Rightarrow>
              (let om0 = om\<lparr>om_risk := risk', om_clock := clk'\<rparr>
               in case ok of
                    Inl err \<Rightarrow> (Inl err, reject_by_risk sq req err om0)
                  | Inr _ \<Rightarrow>
                     (case NextOrderId om0 of (oid, om1) \<Rightarrow>
                      case om_Now om1 of (now, om2) \<Rightarrow>
                       (let ord = order_of_request oid req kPendingNew now now;
                            om3 = AppendEvent sq oid kNewRequested (nr_client_order_id req) om2
                        in case MatchingEngine_AddOrder (om_engine om3) (nr_symbol req) oid
                                  (nr_side req) (nr_type req) (nr_price req) (nr_quantity req)
                                  (om_clock om3) of (match_result, engine', clk'') \<Rightarrow>
                             (let om4 = om3\<lparr>om_engine := engine', om_clock := clk''\<rparr>
                              in case match_result of
                                   Inl err \<Rightarrow> (Inl err, reject_by_matching sq ord err om4)
                                 | Inr r \<Rightarrow>
                                     (case accept_order sq ord (ar_fills r) om4 of
                                        (ord', om5) \<Rightarrow> (Inr ord', om5))))))))"

subsection \<open>Cancelling\<close>

definition OrderManager_CancelOrder ::
  "'d sqlite \<Rightarrow> cancel_order_request \<Rightarrow> 'd order_manager \<Rightarrow> order result \<times> 'd order_manager" where
  "OrderManager_CancelOrder sq req om =
     (case um_find (om_orders om) (cr_order_id req) of
        None \<Rightarrow> (Inl kOrderNotFound, om)
      | Some ord \<Rightarrow>
          if o_status ord = kFilled \<or> o_status ord = kCancelled \<or> o_status ord = kRejected
          then (Inl kInvalidStateTransition, om)
          else (let om1 = AppendEvent sq (o_internal_id ord) kCancelRequested '''' om
                in case MatchingEngine_CancelOrder (om_engine om1) (o_symbol ord) (o_internal_id ord) of
                     (cancelled, engine') \<Rightarrow>
                       (let om2 = om1\<lparr>om_engine := engine'\<rparr>
                        in case cancelled of
                             Inl err \<Rightarrow> (Inl err, om2)
                           | Inr _ \<Rightarrow>
                               (case om_Now om2 of (now, om3) \<Rightarrow>
                                  (let ord' = ord\<lparr>o_status := kCancelled, o_updated_at := now\<rparr>;
                                       om4 = put_order (cr_order_id req) ord' om3;
                                       om5 = AppendEvent sq (o_internal_id ord') kCancelled_event '''' om4
                                   in (Inr ord', with_db (Database_SaveOrder sq ord') om5))))))"

subsection \<open>Queries\<close>

definition GetOrder :: "'d order_manager \<Rightarrow> order_id \<Rightarrow> order result" where
  "GetOrder om oid =
     (case um_find (om_orders om) oid of None \<Rightarrow> Inl kOrderNotFound | Some ord \<Rightarrow> Inr ord)"

definition GetOrders ::
  "'d order_manager \<Rightarrow> symbol option \<Rightarrow> order_status option \<Rightarrow> order list" where
  "GetOrders om s st =
     filter (\<lambda>ord. (case s of None \<Rightarrow> True | Some s' \<Rightarrow> o_symbol ord = s')
                 \<and> (case st of None \<Rightarrow> True | Some st' \<Rightarrow> o_status ord = st'))
       (map snd (om_orders om))"

definition GetEvents :: "'d order_manager \<Rightarrow> order_id \<Rightarrow> order_event list" where
  "GetEvents om oid = filter (\<lambda>ev. ev_order_id ev = oid) (om_events om)"

definition GetAllExecutions :: "'d order_manager \<Rightarrow> fill list" where
  "GetAllExecutions om = om_executions om"

definition OrderManager_OrderCount :: "'d order_manager \<Rightarrow> nat" where
  "OrderManager_OrderCount om = length (om_orders om)"

subsection \<open>Recovery\<close>

fun restore_orders :: "order list \<Rightarrow> order_id \<Rightarrow> 'd order_manager \<Rightarrow> order_id result \<times> 'd order_manager" where
  \<comment> \<open>the loop over the loaded orders; an error of the engine leaves what was restored so far\<close>
  "restore_orders [] max_id om = (Inr max_id, om)"
| "restore_orders (ord # ords) max_id om =
     (let om1 = put_order (o_internal_id ord) ord om;
          max_id' = max max_id (o_internal_id ord)
      in if (o_status ord = kAccepted \<or> o_status ord = kPartiallyFilled) \<and> o_type ord = kLimit
            \<and> o_remaining_qty ord > 0
         then (case MatchingEngine_RestoreRestingOrder (om_engine om1) ord of
                 (Inl e, engine') \<Rightarrow> (Inl e, om1\<lparr>om_engine := engine'\<rparr>)
               | (Inr _, engine') \<Rightarrow> restore_orders ords max_id' (om1\<lparr>om_engine := engine'\<rparr>))
         else restore_orders ords max_id' om1)"

definition RestoreFromDatabase ::
  "'d sqlite \<Rightarrow> 'd order_manager \<Rightarrow> (unit result \<times> 'd order_manager) option" where
  \<comment> \<open>\<open>None\<close>: a stored row holds an enumerator code outside its enumeration\<close>
  "RestoreFromDatabase sq om =
     (case om_db om of
        None \<Rightarrow> Some (Inr (), om)
      | Some d \<Rightarrow>
          (case Database_LoadOrders sq d of
             (Inl e, d1) \<Rightarrow> Some (Inl e, om\<lparr>om_db := Some d1\<rparr>)
           | (Inr None, d1) \<Rightarrow> None
           | (Inr (Some orders), d1) \<Rightarrow>
          (case Database_LoadAllEvents sq d1 of
             (Inl e, d2) \<Rightarrow> Some (Inl e, om\<lparr>om_db := Some d2\<rparr>)
           | (Inr None, d2) \<Rightarrow> None
           | (Inr (Some events), d2) \<Rightarrow>
          (case Database_LoadExecutions sq d2 of
             (Inl e, d3) \<Rightarrow> Some (Inl e, om\<lparr>om_db := Some d3\<rparr>)
           | (Inr None, d3) \<Rightarrow> None
           | (Inr (Some executions), d3) \<Rightarrow>
               (let max_event_id = fold (\<lambda>ev m. max m (ev_event_id ev)) events 0;
                    max_execution_id = fold (\<lambda>f m. max m (fl_execution_id f)) executions 0;
                    om1 = om\<lparr>om_db := Some d3, om_orders := [], om_events := events,
                             om_executions := executions,
                             om_engine := SeedNextExecutionId (om_engine om) (max_execution_id + 1)\<rparr>
                in case restore_orders orders 0 om1 of
                     (Inl e, om2) \<Rightarrow> Some (Inl e, om2)
                   | (Inr max_order_id, om2) \<Rightarrow>
                       Some (Inr (), om2\<lparr>om_next_order_id := max_order_id + 1,
                                         om_next_event_id := max_event_id + 1\<rparr>))))))"

end
