(* ===== verification/Venue.thy ===== *)
theory Venue
  imports Matching_Engine
begin

section \<open>The contract between order manager and matching engine\<close>

text \<open>
  The order manager keeps its own table of orders next to the engine's books. What it relies on
  is stated as the locale \<open>venue\<close>: which orders are live after an order is added or cancelled,
  and what the fills say about the orders they hit. \<open>tracks\<close> is the agreement between the
  live orders of a venue and an order table; the locale proves once that adding and cancelling
  keep it. The matching engine is interpreted as a venue at the end.
\<close>

subsection \<open>Live orders\<close>

definition entry_map :: "book_entry list \<Rightarrow> order_id \<Rightarrow> book_entry option" where
  "entry_map es = map_of (map (\<lambda>e. (be_order_id e, e)) es)"

definition live :: "matching_engine \<Rightarrow> string \<Rightarrow> order_id \<Rightarrow> book_entry option" where
  "live me sv oid = (case um_find (me_books me) sv of None \<Rightarrow> None
                     | Some b \<Rightarrow> entry_map (book_entries b) oid)"

definition fill_of :: "fill list \<Rightarrow> order_id \<Rightarrow> fill option" where
  "fill_of fs oid = List.find (\<lambda>f. fl_passive_order_id f = oid) fs"

definition total_filled :: "fill list \<Rightarrow> quantity" where
  "total_filled fs = sum_list (map fl_quantity fs)"

text \<open>A live order after a fill of quantity \<open>q\<close>.\<close>

definition reduce_entry :: "quantity \<Rightarrow> book_entry \<Rightarrow> book_entry option" where
  "reduce_entry q e = (if q = be_remaining_qty e then None
                       else Some (e\<lparr>be_remaining_qty := be_remaining_qty e - q\<rparr>))"

lemma entry_map_simps [simp]:
  "entry_map [] k = None"
  "entry_map (e # es) k = (if k = be_order_id e then Some e else entry_map es k)"
  by (simp_all add: entry_map_def)

lemma entry_map_append:
  "entry_map (xs @ ys) k = (case entry_map xs k of None \<Rightarrow> entry_map ys k | Some e \<Rightarrow> Some e)"
  by (induction xs) auto

lemma entry_map_None_iff: "entry_map es k = None \<longleftrightarrow> k \<notin> be_order_id ` set es"
  by (induction es) auto

lemma entry_map_SomeD: "entry_map es k = Some e \<Longrightarrow> e \<in> set es \<and> be_order_id e = k"
  by (induction es) (auto split: if_splits)

lemma entry_map_in: "distinct (map be_order_id es) \<Longrightarrow> e \<in> set es \<Longrightarrow> entry_map es (be_order_id e) = Some e"
  by (induction es) (auto simp: image_iff)

lemma entry_map_mset:
  assumes "distinct (map be_order_id xs)" and "mset ys = mset xs"
  shows "entry_map ys = entry_map xs"
proof
  fix k
  have set: "set ys = set xs" using assms(2) by (rule mset_eq_setD)
  have "distinct (map be_order_id ys)"
    using assms by (metis mset_map mset_eq_imp_distinct_iff)
  then show "entry_map ys k = entry_map xs k"
    using assms(1) set entry_map_in entry_map_SomeD entry_map_None_iff
    by (cases "entry_map ys k"; cases "entry_map xs k") (metis option.simps(3) option.inject)+
qed

lemma entry_map_filter:
  "entry_map (filter (\<lambda>e. be_order_id e \<noteq> oid) es) k = (if k = oid then None else entry_map es k)"
  by (induction es) auto

lemma fill_of_simps [simp]:
  "fill_of [] k = None"
  "fill_of (f # fs) k = (if fl_passive_order_id f = k then Some f else fill_of fs k)"
  by (simp_all add: fill_of_def)

lemma total_filled_simps [simp]:
  "total_filled [] = 0"
  "total_filled (f # fs) = fl_quantity f + total_filled fs"
  by (simp_all add: total_filled_def)

lemma fill_of_SomeD: "fill_of fs k = Some f \<Longrightarrow> f \<in> set fs \<and> fl_passive_order_id f = k"
  by (induction fs) (auto split: if_splits)

lemma fill_of_None_iff: "fill_of fs k = None \<longleftrightarrow> k \<notin> fl_passive_order_id ` set fs"
  by (induction fs) auto

lemma fill_of_in: "distinct (map fl_passive_order_id fs) \<Longrightarrow> f \<in> set fs \<Longrightarrow>
    fill_of fs (fl_passive_order_id f) = Some f"
  by (induction fs) (auto simp: image_iff)

subsection \<open>Agreement with an order table\<close>

definition is_open :: "order \<Rightarrow> bool" where
  "is_open ord \<longleftrightarrow> o_type ord = kLimit \<and> (o_status ord = kAccepted \<or> o_status ord = kPartiallyFilled)"

definition entry_view :: "book_entry \<Rightarrow> side \<times> price \<times> quantity" where
  "entry_view e = (be_side e, be_price e, be_remaining_qty e)"

definition order_view :: "string \<Rightarrow> order option \<Rightarrow> (side \<times> price \<times> quantity) option" where
  "order_view sv x = (case x of None \<Rightarrow> None
     | Some ord \<Rightarrow> if sym_value (o_symbol ord) = sv \<and> is_open ord
                   then Some (o_side ord, o_price ord, o_remaining_qty ord) else None)"

definition tracks ::
  "(string \<Rightarrow> order_id \<Rightarrow> book_entry option) \<Rightarrow> (order_id \<Rightarrow> order option) \<Rightarrow> bool" where
  "tracks lv tbl \<longleftrightarrow> (\<forall>sv k. map_option entry_view (lv sv k) = order_view sv (tbl k))"

text \<open>A resting order after a fill hit it at time \<open>t\<close>.\<close>

definition passive_after :: "fill \<Rightarrow> timestamp \<Rightarrow> order \<Rightarrow> order" where
  "passive_after f t ord =
     ord\<lparr>o_filled_qty := o_filled_qty ord + fl_quantity f,
         o_remaining_qty := o_remaining_qty ord - fl_quantity f,
         o_status := (if o_remaining_qty ord - fl_quantity f = 0 then kFilled else kPartiallyFilled),
         o_updated_at := t\<rparr>"

text \<open>\<open>x'\<close> is the table entry \<open>x\<close> of order \<open>k\<close> after the fills \<open>fs\<close> have been applied.\<close>

definition filled_by :: "fill list \<Rightarrow> order_id \<Rightarrow> order option \<Rightarrow> order option \<Rightarrow> bool" where
  "filled_by fs k x x' \<longleftrightarrow> (case x of None \<Rightarrow> x' = None
     | Some ord \<Rightarrow> (case fill_of fs k of None \<Rightarrow> x' = Some ord
                    | Some f \<Rightarrow> \<exists>t. x' = Some (passive_after f t ord)))"

subsection \<open>The contract\<close>

locale venue =
  fixes add :: "'v \<Rightarrow> symbol \<Rightarrow> order_id \<Rightarrow> side \<Rightarrow> order_type \<Rightarrow> price \<Rightarrow> quantity \<Rightarrow> clock \<Rightarrow>
      add_order_result result \<times> 'v \<times> clock"
    and cancel :: "'v \<Rightarrow> symbol \<Rightarrow> order_id \<Rightarrow> book_entry result \<times> 'v"
    and alive :: "'v \<Rightarrow> string \<Rightarrow> order_id \<Rightarrow> book_entry option"
    and ok :: "'v \<Rightarrow> bool"
  assumes add_ok: "ok v \<Longrightarrow> add v s oid sd ty p qty c = (res, v', c') \<Longrightarrow> ok v'"
    and cancel_ok: "ok v \<Longrightarrow> cancel v s oid = (res', v') \<Longrightarrow> ok v'"
    and add_error: "ok v \<Longrightarrow> add v s oid sd ty p qty c = (Inl err, v', c') \<Longrightarrow> alive v' = alive v"
    and add_accepts: "ok v \<Longrightarrow> 0 < qty \<Longrightarrow> ty = kLimit \<longrightarrow> 0 < p \<Longrightarrow> alive v (sym_value s) oid = None \<Longrightarrow>
        \<exists>r v' c'. add v s oid sd ty p qty c = (Inr r, v', c')"
    and add_fills: "ok v \<Longrightarrow> add v s oid sd ty p qty c = (Inr r, v', c') \<Longrightarrow> f \<in> set (ar_fills r) \<Longrightarrow>
        fl_aggressive_order_id f = oid \<and> 0 < fl_quantity f \<and>
        (\<exists>e. alive v (sym_value s) (fl_passive_order_id f) = Some e \<and> fl_quantity f \<le> be_remaining_qty e)"
    and add_distinct: "ok v \<Longrightarrow> add v s oid sd ty p qty c = (Inr r, v', c') \<Longrightarrow>
        distinct (map fl_passive_order_id (ar_fills r))"
    and add_fresh: "ok v \<Longrightarrow> add v s oid sd ty p qty c = (Inr r, v', c') \<Longrightarrow>
        alive v (sym_value s) oid = None"
    and add_total: "ok v \<Longrightarrow> add v s oid sd ty p qty c = (Inr r, v', c') \<Longrightarrow>
        0 < qty \<and> total_filled (ar_fills r) \<le> qty"
    and add_other: "ok v \<Longrightarrow> add v s oid sd ty p qty c = (Inr r, v', c') \<Longrightarrow> sv \<noteq> sym_value s \<Longrightarrow>
        alive v' sv k = alive v sv k"
    and add_own: "ok v \<Longrightarrow> add v s oid sd ty p qty c = (Inr r, v', c') \<Longrightarrow>
        map_option entry_view (alive v' (sym_value s) oid) =
          (if ty = kLimit \<and> total_filled (ar_fills r) < qty
           then Some (sd, p, qty - total_filled (ar_fills r)) else None)"
    and add_rest: "ok v \<Longrightarrow> add v s oid sd ty p qty c = (Inr r, v', c') \<Longrightarrow> k \<noteq> oid \<Longrightarrow>
        alive v' (sym_value s) k = (case fill_of (ar_fills r) k of None \<Rightarrow> alive v (sym_value s) k
          | Some f \<Rightarrow> Option.bind (alive v (sym_value s) k) (reduce_entry (fl_quantity f)))"
    and cancel_alive: "ok v \<Longrightarrow> alive v (sym_value s) oid = Some e \<Longrightarrow>
        \<exists>v'. cancel v s oid = (Inr e, v') \<and>
          alive v' = (\<lambda>sv k. if sv = sym_value s \<and> k = oid then None else alive v sv k)"
    and cancel_dead: "ok v \<Longrightarrow> alive v (sym_value s) oid = None \<Longrightarrow>
        \<exists>err v'. cancel v s oid = (Inl err, v') \<and> alive v' = alive v"
begin

lemma add_passive_neq:
  "ok v \<Longrightarrow> add v s oid sd ty p qty c = (Inr r, v', c') \<Longrightarrow> f \<in> set (ar_fills r) \<Longrightarrow>
   fl_passive_order_id f \<noteq> oid"
  using add_fills add_fresh by fastforce

text \<open>The order a fill hits is open in the table, for the traded symbol, and not overfilled.\<close>

lemma fill_hits_open:
  assumes "ok v" and "tracks (alive v) tbl" and "add v s oid sd ty p qty c = (Inr r, v', c')"
    and "f \<in> set (ar_fills r)"
  shows "\<exists>ord. tbl (fl_passive_order_id f) = Some ord \<and> is_open ord \<and> o_symbol ord = s
    \<and> 0 < fl_quantity f \<and> fl_quantity f \<le> o_remaining_qty ord"
proof -
  let ?k = "fl_passive_order_id f"
  from add_fills [OF assms(1,3,4)] obtain e where
    e: "alive v (sym_value s) ?k = Some e" "0 < fl_quantity f" "fl_quantity f \<le> be_remaining_qty e"
    by blast
  have "map_option entry_view (alive v (sym_value s) ?k) = order_view (sym_value s) (tbl ?k)"
    using assms(2) by (simp add: tracks_def)
  with e show ?thesis
    by (auto simp: order_view_def entry_view_def split: option.splits if_splits)
qed

lemma tracks_add:
  assumes ok: "ok v" and tr: "tracks (alive v) tbl"
    and add: "add v s oid sd ty p qty c = (Inr r, v', c')"
    and others: "\<And>k. k \<noteq> oid \<Longrightarrow> filled_by (ar_fills r) k (tbl k) (tbl' k)"
    and own: "tbl' oid = Some ord" "o_symbol ord = s" "o_side ord = sd" "o_price ord = p"
      "o_remaining_qty ord = qty - total_filled (ar_fills r)"
      "is_open ord \<longleftrightarrow> ty = kLimit \<and> total_filled (ar_fills r) < qty"
    and new: "tbl oid = None"
  shows "tracks (alive v') tbl'"
  unfolding tracks_def
proof (intro allI)
  fix sv k
  have before: "map_option entry_view (alive v sv k) = order_view sv (tbl k)" for sv k
    using tr by (simp add: tracks_def)
  show "map_option entry_view (alive v' sv k) = order_view sv (tbl' k)"
  proof (cases "k = oid")
    case True
    show ?thesis
    proof (cases "sv = sym_value s")
      case True
      with \<open>k = oid\<close> add_own [OF ok add] own show ?thesis
        by (simp add: order_view_def)
    next
      case False
      with \<open>k = oid\<close> add_other [OF ok add False] before [of sv oid] new own show ?thesis
        by (simp add: order_view_def)
    qed
  next
    case False
    note step = others [OF False]
    show ?thesis
    proof (cases "fill_of (ar_fills r) k")
      case None
      then have "tbl' k = tbl k"
        using step by (auto simp: filled_by_def split: option.splits)
      moreover have "alive v' sv k = alive v sv k"
        using add_other [OF ok add, of sv k] add_rest [OF ok add False] None by (cases "sv = sym_value s") auto
      ultimately show ?thesis using before by simp
    next
      case (Some f)
      then have f: "f \<in> set (ar_fills r)" "fl_passive_order_id f = k" by (auto dest: fill_of_SomeD)
      from fill_hits_open [OF ok tr add f(1)] obtain o1 where
        o1: "tbl k = Some o1" "is_open o1" "o_symbol o1 = s" unfolding f(2) by blast
      from step Some o1(1) obtain t where tbl': "tbl' k = Some (passive_after f t o1)"
        by (auto simp: filled_by_def)
      show ?thesis
      proof (cases "sv = sym_value s")
        case True
        obtain e where e: "alive v (sym_value s) k = Some e" "entry_view e = (o_side o1, o_price o1, o_remaining_qty o1)"
          using before [of "sym_value s" k] o1 by (auto simp: order_view_def)
        then show ?thesis
          using add_rest [OF ok add False] Some True tbl' o1
          by (auto simp: order_view_def reduce_entry_def passive_after_def is_open_def entry_view_def)
      next
        case False
        then show ?thesis
          using add_other [OF ok add, of sv k] before [of sv k] o1 tbl'
          by (simp add: order_view_def passive_after_def)
      qed
    qed
  qed
qed

lemma tracks_cancel:
  assumes ok: "ok v" and tr: "tracks (alive v) tbl" and o: "tbl oid = Some ord" "is_open ord"
    and closed: "\<not> is_open ord'"
  shows "\<exists>e v'. cancel v (o_symbol ord) oid = (Inr e, v') \<and> ok v' \<and> tracks (alive v') (tbl(oid \<mapsto> ord'))"
proof -
  have before: "map_option entry_view (alive v sv k) = order_view sv (tbl k)" for sv k
    using tr by (simp add: tracks_def)
  from before [of "sym_value (o_symbol ord)" oid] o obtain e
    where e: "alive v (sym_value (o_symbol ord)) oid = Some e"
    by (auto simp: order_view_def)
  from cancel_alive [OF ok e] obtain v' where
    v': "cancel v (o_symbol ord) oid = (Inr e, v')"
      "alive v' = (\<lambda>sv k. if sv = sym_value (o_symbol ord) \<and> k = oid then None else alive v sv k)"
    by blast
  have "map_option entry_view (alive v' sv k) = order_view sv ((tbl(oid \<mapsto> ord')) k)" for sv k
    using before [of sv k] o closed by (auto simp: v'(2) order_view_def)
  with v' cancel_ok [OF ok v'(1)] show ?thesis by (auto simp: tracks_def)
qed

lemma cancel_closed:
  assumes "ok v" and "tracks (alive v) tbl" and "tbl oid = Some ord" "\<not> is_open ord"
  shows "\<exists>err v'. cancel v (o_symbol ord) oid = (Inl err, v') \<and> ok v' \<and> alive v' = alive v"
proof -
  have "alive v (sym_value (o_symbol ord)) oid = None"
    using assms(2-4) by (auto simp: tracks_def order_view_def dest!: spec [of _ oid])
  from cancel_dead [OF assms(1) this] cancel_ok [OF assms(1)] show ?thesis by metis
qed

end

subsection \<open>What a book's AddOrder does to its live orders\<close>

lemma mk_fills_map [simp]:
  "map fl_passive_order_id (mk_fills tk n fs) = map (be_order_id \<circ> fst) fs"
  "map fl_quantity (mk_fills tk n fs) = map snd fs"
  "length (mk_fills tk n fs) = length fs"
  by (induction tk n fs rule: mk_fills.induct) (simp_all add: mk_fill_def)

lemma mk_fills_in: "f \<in> set (mk_fills tk n fs) \<Longrightarrow>
    fl_aggressive_order_id f = tk_id tk \<and> (\<exists>e. (e, fl_quantity f) \<in> set fs \<and>
      fl_passive_order_id f = be_order_id e \<and> fl_price f = be_price e)"
  by (induction tk n fs rule: mk_fills.induct) (auto simp: mk_fill_def)

lemma total_filled_mk [simp]: "total_filled (mk_fills tk n fs) = sum_list (map snd fs)"
  by (simp add: total_filled_def)

text \<open>The fills, seen as a map from the passive order to the quantity taken from it.\<close>

lemma fill_of_quantity:
  "map_option fl_quantity (fill_of fs k) = map_of (zip (map fl_passive_order_id fs) (map fl_quantity fs)) k"
  by (induction fs) auto

lemma entry_map_take:
  "take_liquidity ok es r = (fs, es', r') \<Longrightarrow> distinct (map be_order_id es) \<Longrightarrow>
   entry_map es' k = (case map_of (zip (map (be_order_id \<circ> fst) fs) (map snd fs)) k of
       None \<Rightarrow> entry_map es k | Some q \<Rightarrow> Option.bind (entry_map es k) (reduce_entry q))"
proof (induction rule: take_induct)
  case (all e es r fs es' r')
  have "set (map (be_order_id \<circ> fst) fs) \<subseteq> be_order_id ` set es"
    using arg_cong [OF take_prefix [OF all(4)], of "\<lambda>xs. set (map be_order_id xs)"]
    by (auto simp: image_image dest: in_set_takeD)
  then have "be_order_id e \<notin> set (map (be_order_id \<circ> fst) fs)"
    using all.prems by auto
  then have "map_of (zip (map (be_order_id \<circ> fst) fs) (map snd fs)) (be_order_id e) = None"
    by (simp add: map_of_zip_is_None)
  moreover have none: "entry_map es (be_order_id e) = None"
    using all.prems by (auto simp: entry_map_None_iff)
  ultimately have gone: "k = be_order_id e \<Longrightarrow> entry_map es' k = None"
    using all.IH all.prems by (auto split: option.splits)
  show ?case
  proof (cases "k = be_order_id e")
    case True
    with gone show ?thesis by (simp add: reduce_entry_def)
  next
    case False
    then have "entry_map (e # es) k = entry_map es k" by simp
    with False show ?thesis
      using all.IH all.prems by (simp only: list.map comp_def fst_conv snd_conv zip_Cons_Cons map_of.simps
          fun_upd_apply distinct.simps if_False simp_thms)
  qed
qed (auto simp: reduce_entry_def)

lemma spec_add_sides:
  assumes "spec_add (abs_book b) oid sd ty p qty ts = (fs, rest, abs_book b')"
  obtains es' r' where
    "take_liquidity (marketable ty sd p) (om_flat (book_side (opposite sd) b)) qty = (fs, es', r')"
    "rest = (if r' > 0 \<and> ty \<noteq> kMarket then Some \<lparr>be_order_id = oid, be_side = sd, be_price = p,
        be_remaining_qty = r', be_timestamp = ts\<rparr> else None)"
    "om_flat (book_side (opposite sd) b') = es'"
    "om_flat (book_side sd b') = (case rest of None \<Rightarrow> om_flat (book_side sd b)
        | Some e \<Rightarrow> insert_by_priority sd e (om_flat (book_side sd b)))"
proof -
  obtain es' r' where t:
    "take_liquidity (marketable ty sd p) (om_flat (book_side (opposite sd) b)) qty = (fs, es', r')"
    using assms by (auto simp: spec_add_def Let_def split: prod.splits if_splits)
  let ?e = "\<lparr>be_order_id = oid, be_side = sd, be_price = p, be_remaining_qty = r', be_timestamp = ts\<rparr>"
  let ?pb = "set_pb_side (opposite sd) es' (abs_book b)"
  have pb: "abs_book b' = (if r' > 0 \<and> ty \<noteq> kMarket
      then set_pb_side sd (insert_by_priority sd ?e (om_flat (book_side sd b))) ?pb else ?pb)"
    and rest: "rest = (if r' > 0 \<and> ty \<noteq> kMarket then Some ?e else None)"
    using assms t by (auto simp: spec_add_def Let_def book_simps split: if_splits)
  have "pb_side (opposite sd) (abs_book b') = es'"
    unfolding pb by (simp add: book_simps del: pb_side_abs)
  moreover have "pb_side sd (abs_book b') = (case rest of None \<Rightarrow> om_flat (book_side sd b)
        | Some e \<Rightarrow> insert_by_priority sd e (om_flat (book_side sd b)))"
    unfolding pb rest by (simp add: book_simps)
  ultimately show thesis using t rest by (intro that) simp_all
qed

lemma spec_add_entries:
  assumes "spec_add (abs_book b) oid sd ty p qty ts = (fs, rest, abs_book b')"
  obtains es' r' where
    "take_liquidity (marketable ty sd p) (om_flat (book_side (opposite sd) b)) qty = (fs, es', r')"
    "rest = (if r' > 0 \<and> ty \<noteq> kMarket then Some \<lparr>be_order_id = oid, be_side = sd, be_price = p,
        be_remaining_qty = r', be_timestamp = ts\<rparr> else None)"
    "mset (book_entries b') =
       mset ((case rest of None \<Rightarrow> [] | Some e \<Rightarrow> [e]) @ es' @ om_flat (book_side sd b))"
  using assms
proof (rule spec_add_sides, goal_cases)
  case (1 es' r')
  moreover from this have "mset (book_entries b') =
       mset ((case rest of None \<Rightarrow> [] | Some e \<Rightarrow> [e]) @ es' @ om_flat (book_side sd b))"
    by (simp add: mset_book_entries [of b' sd] split: option.splits)
  ultimately show thesis by (intro that)
qed

lemma fill_of_case:
  "(case fill_of fs k of None \<Rightarrow> x | Some f \<Rightarrow> g (fl_quantity f)) =
   (case map_of (zip (map fl_passive_order_id fs) (map fl_quantity fs)) k of None \<Rightarrow> x | Some q \<Rightarrow> g q)"
  unfolding fill_of_quantity [symmetric] by (simp split: option.splits)

lemma book_side_entries:
  assumes "book_ok b"
  shows "distinct (map be_order_id (om_flat (book_side sd b)))" and "positive (om_flat (book_side sd b))"
    and "e \<in> set (om_flat (book_side sd b)) \<Longrightarrow> e \<in> set (book_entries b)"
  using assms ladder_ok_entries [of sd "book_side sd b"] book_ok_side [OF assms, of sd]
  by (cases sd; auto simp: book_ok_def index_ok_def book_entries_def)+

text \<open>The result of an accepted order as an allocation over the opposite side.\<close>

lemma AddOrder_added:
  assumes ok: "book_ok b" and add: "OrderBook_AddOrder b oid sd ty p qty clk = (Inr r, b', clk')"
  obtains fs es' r' where "0 < qty" "oid \<notin> be_order_id ` set (book_entries b)" "book_ok b'"
    and "take_liquidity (marketable ty sd p) (om_flat (book_side (opposite sd) b)) qty = (fs, es', r')"
    and "ar_fills r = mk_fills (taker_of b oid sd ty (shd clk)) (ob_next_execution_id b) fs"
    and "mset (book_entries b') = mset ((if r' > 0 \<and> ty \<noteq> kMarket then [\<lparr>be_order_id = oid, be_side = sd,
        be_price = p, be_remaining_qty = r', be_timestamp = shd clk\<rparr>] else []) @ es' @ om_flat (book_side sd b))"
    and "total_filled (ar_fills r) = qty - r'" "0 \<le> r'"
  using add
proof (cases rule: AddOrder_cases [OF ok add, case_names error added])
  case (added fs rest)
  from added(4) show thesis
  proof (rule spec_add_entries)
    fix es' r'
    assume t: "take_liquidity (marketable ty sd p) (om_flat (book_side (opposite sd) b)) qty = (fs, es', r')"
      and "rest = (if r' > 0 \<and> ty \<noteq> kMarket then Some \<lparr>be_order_id = oid, be_side = sd,
        be_price = p, be_remaining_qty = r', be_timestamp = shd clk\<rparr> else None)"
      and "mset (book_entries b') = mset ((case rest of None \<Rightarrow> [] | Some e \<Rightarrow> [e]) @ es' @ om_flat (book_side sd b))"
    with added take_conserves [OF t] take_leftover_nonneg [OF t] show thesis
      by (intro that [of fs es' r']) (simp_all split: if_splits)
  qed
qed simp

lemma AddOrder_fills:
  assumes ok: "book_ok b" and add: "OrderBook_AddOrder b oid sd ty p qty clk = (Inr r, b', clk')"
  shows "0 < qty \<and> total_filled (ar_fills r) \<le> qty \<and> entry_map (book_entries b) oid = None
    \<and> distinct (map fl_passive_order_id (ar_fills r))
    \<and> (\<forall>f \<in> set (ar_fills r). fl_aggressive_order_id f = oid \<and> 0 < fl_quantity f \<and>
        (\<exists>e. entry_map (book_entries b) (fl_passive_order_id f) = Some e \<and> fl_quantity f \<le> be_remaining_qty e))"
  using add
proof (cases rule: AddOrder_added [OF ok add])
  case (1 fs es' r')
  note opp = book_side_entries [OF ok, where sd = "opposite sd"]
  have ids: "map (be_order_id \<circ> fst) fs = map be_order_id (take (length fs) (om_flat (book_side (opposite sd) b)))"
    using take_prefix [OF 1(4)] by (metis map_map)
  have dist: "distinct (map be_order_id (book_entries b))"
    using ok by (simp add: book_ok_def index_ok_def)
  have hit: "\<exists>e. entry_map (book_entries b) (fl_passive_order_id f) = Some e \<and> 0 < fl_quantity f
      \<and> fl_quantity f \<le> be_remaining_qty e" if f: "f \<in> set (ar_fills r)" for f
  proof -
    obtain e where e: "(e, fl_quantity f) \<in> set fs" "fl_passive_order_id f = be_order_id e"
      using mk_fills_in [of f] f unfolding 1(5) by blast
    with take_fills [OF 1(4) opp(2) e(1)] opp(3) show ?thesis
      by (auto simp: entry_map_in [OF dist])
  qed
  have "fl_aggressive_order_id f = oid" if "f \<in> set (ar_fills r)" for f
    using mk_fills_in [of f] that unfolding 1(5) by fastforce
  moreover have "distinct (map fl_passive_order_id (ar_fills r))"
    using opp(1) by (simp add: 1(5) ids distinct_take flip: take_map)
  ultimately show ?thesis
    using 1(1,2,7,8) hit by (simp add: entry_map_None_iff) blast
qed

lemma AddOrder_live:
  assumes ok: "book_ok b" and add: "OrderBook_AddOrder b oid sd ty p qty clk = (Inr r, b', clk')"
  shows "map_option entry_view (entry_map (book_entries b') oid) =
        (if ty = kLimit \<and> total_filled (ar_fills r) < qty
         then Some (sd, p, qty - total_filled (ar_fills r)) else None)" (is ?own)
    and "k \<noteq> oid \<Longrightarrow> entry_map (book_entries b') k =
        (case fill_of (ar_fills r) k of None \<Rightarrow> entry_map (book_entries b) k
         | Some f \<Rightarrow> Option.bind (entry_map (book_entries b) k) (reduce_entry (fl_quantity f)))"
proof -
  obtain fs es' r' where A: "0 < qty" "oid \<notin> be_order_id ` set (book_entries b)" "book_ok b'"
    and t: "take_liquidity (marketable ty sd p) (om_flat (book_side (opposite sd) b)) qty = (fs, es', r')"
    and fills: "ar_fills r = mk_fills (taker_of b oid sd ty (shd clk)) (ob_next_execution_id b) fs"
    and m: "mset (book_entries b') = mset ((if r' > 0 \<and> ty \<noteq> kMarket then [\<lparr>be_order_id = oid, be_side = sd,
        be_price = p, be_remaining_qty = r', be_timestamp = shd clk\<rparr>] else []) @ es' @ om_flat (book_side sd b))"
    and r': "total_filled (ar_fills r) = qty - r'" "0 \<le> r'"
    by (rule AddOrder_added [OF ok add])
  let ?opp = "om_flat (book_side (opposite sd) b)" and ?same = "om_flat (book_side sd b)"
  have dist: "distinct (map be_order_id (book_entries b))" "distinct (map be_order_id (book_entries b'))"
    using ok A(3) by (simp_all add: book_ok_def index_ok_def)
  have old: "entry_map (book_entries b) = entry_map (?opp @ ?same)"
    using entry_map_mset [OF dist(1), of "?opp @ ?same"] mset_book_entries [of b "opposite sd"] by simp
  note new = entry_map_mset [OF dist(2) m [symmetric], symmetric]
  note taken = entry_map_take [OF t book_side_entries(1) [OF ok]]
  have notin: "entry_map ?opp oid = None" "entry_map ?same oid = None"
    using A(2) book_side_entries(3) [OF ok] by (auto simp: entry_map_None_iff)
  then have "entry_map es' oid = None"
    using taken [of oid] by (simp split: option.splits)
  then show ?own
    using notin r' by (cases ty) (auto simp: new entry_map_append entry_view_def)
  assume k: "k \<noteq> oid"
  have "entry_map ?same k = None" if "map_of (zip (map (be_order_id \<circ> fst) fs) (map snd fs)) k = Some q" for q
  proof -
    have "k \<in> set (map (be_order_id \<circ> fst) fs)"
      using that by (auto dest!: map_of_SomeD set_zip_leftD)
    then have "k \<in> be_order_id ` set ?opp"
      using arg_cong [OF take_prefix [OF t], of set] by (fastforce dest: in_set_takeD)
    then show ?thesis
      using dist(1) by (cases sd) (auto simp: book_entries_def entry_map_None_iff)
  qed
  moreover have "entry_map (book_entries b') k = (case entry_map es' k of None \<Rightarrow> entry_map ?same k | Some e \<Rightarrow> Some e)"
    using k by (simp add: new entry_map_append)
  moreover have "map fl_passive_order_id (ar_fills r) = map (be_order_id \<circ> fst) fs"
    "map fl_quantity (ar_fills r) = map snd fs" by (simp_all add: fills)
  ultimately show "entry_map (book_entries b') k =
        (case fill_of (ar_fills r) k of None \<Rightarrow> entry_map (book_entries b) k
         | Some f \<Rightarrow> Option.bind (entry_map (book_entries b) k) (reduce_entry (fl_quantity f)))"
    using taken [of k] k
    unfolding fill_of_case [where g = "\<lambda>q. Option.bind (entry_map (book_entries b) k) (reduce_entry q)"]
    by (auto simp: old entry_map_append simp del: map_of_zip_is_None split: option.splits bind_splits)
qed

subsection \<open>The matching engine is a venue\<close>

text \<open>Renumbering touches nothing but the execution ids.\<close>

lemma renumber_map:
  assumes "\<And>f n. g (f\<lparr>fl_execution_id := n\<rparr>) = g f"
  shows "map g (fst (renumber n fs)) = map g fs"
  by (induction n fs rule: renumber.induct) (auto simp: assms split: prod.splits)

lemma renumber_fills [simp]:
  "map fl_passive_order_id (fst (renumber n fs)) = map fl_passive_order_id fs"
  "map fl_quantity (fst (renumber n fs)) = map fl_quantity fs"
  "total_filled (fst (renumber n fs)) = total_filled fs"
  by (simp_all add: renumber_map total_filled_def)

lemma renumber_in: "f \<in> set (fst (renumber n fs)) \<Longrightarrow> \<exists>f0 \<in> set fs. \<exists>m. f = f0\<lparr>fl_execution_id := m\<rparr>"
  by (induction n fs rule: renumber.induct) (auto split: prod.splits)

lemma live_eq: "live me (sym_value s) = entry_map (book_entries (book_of me s))"
  by (auto simp: live_def book_of_def fun_eq_iff split: option.splits)

lemma live_found: "um_find (me_books me) sv = Some b \<Longrightarrow> live me sv = entry_map (book_entries b)"
  by (simp add: live_def fun_eq_iff)

lemma live_update:
  "um_find (me_books me') = (um_find (me_books me))(sym_value s \<mapsto> b') \<Longrightarrow>
   live me' sv = (if sv = sym_value s then entry_map (book_entries b') else live me sv)"
  by (auto simp: live_def fun_eq_iff)

lemma Engine_AddOrder_accepted:
  assumes "MatchingEngine_AddOrder me s oid sd ty p qty clk = (Inr r, me', clk')"
  obtains r0 b' where "OrderBook_AddOrder (book_of me s) oid sd ty p qty clk = (Inr r0, b', clk')"
    and "ar_fills r = fst (renumber (me_next_execution_id me) (ar_fills r0))"
    and "um_find (me_books me') = (um_find (me_books me))(sym_value s \<mapsto> b')"
  using assms
proof (cases rule: Engine_AddOrder_book)
  case (1 bres b')
  then show thesis by (cases bres) (auto intro: that)
qed

lemma Engine_AddOrder_error:
  assumes ok: "engine_ok me" and "MatchingEngine_AddOrder me s oid sd ty p qty clk = (Inl e, me', clk')"
  shows "live me' = live me"
  using assms(2)
proof (cases rule: Engine_AddOrder_book)
  case (1 bres b')
  then have bres: "bres = Inl e" by (cases bres) auto
  from engine_ok_book_of [OF ok] have "book_ok (book_of me s)" by blast
  from this 1(1) have "b' = book_of me s"
    by (cases rule: AddOrder_cases) (use bres in auto)
  then show ?thesis
    by (auto simp: live_update [OF 1(2)] live_eq fun_eq_iff)
qed

lemma Engine_AddOrder_accepts:
  assumes ok: "engine_ok me" and "0 < qty" "ty = kLimit \<longrightarrow> 0 < p" "live me (sym_value s) oid = None"
  shows "\<exists>r me' clk'. MatchingEngine_AddOrder me s oid sd ty p qty clk = (Inr r, me', clk')"
proof -
  obtain res me' clk' where e: "MatchingEngine_AddOrder me s oid sd ty p qty clk = (res, me', clk')"
    by (metis prod_cases3)
  then show ?thesis
  proof (cases rule: Engine_AddOrder_book)
    case (1 bres b')
    from engine_ok_book_of [OF ok] have "book_ok (book_of me s)" by blast
    from this 1(1) show ?thesis
      by (cases rule: AddOrder_cases) (use assms e 1 in \<open>auto simp: live_eq entry_map_None_iff\<close>)
  qed
qed

lemma Engine_CancelOrder_live:
  assumes ok: "engine_ok me"
  shows "live me (sym_value s) oid = Some e \<Longrightarrow> \<exists>me'. MatchingEngine_CancelOrder me s oid = (Inr e, me') \<and>
      live me' = (\<lambda>sv k. if sv = sym_value s \<and> k = oid then None else live me sv k)"
    and "live me (sym_value s) oid = None \<Longrightarrow> \<exists>err me'. MatchingEngine_CancelOrder me s oid = (Inl err, me') \<and>
      live me' = live me"
proof -
  {
    assume "live me (sym_value s) oid = Some e"
    then obtain b where b: "um_find (me_books me) (sym_value s) = Some b" "entry_map (book_entries b) oid = Some e"
      by (auto simp: live_def split: option.splits)
    then have e: "e \<in> set (book_entries b)" "oid = be_order_id e" by (auto dest: entry_map_SomeD)
    from CancelOrder_found [OF _ e(1)] engine_ok_find [OF ok b(1)] obtain b' where
      b': "OrderBook_CancelOrder b oid = (Inr e, b')" "abs_book b' = spec_cancel (abs_book b) oid"
      unfolding e(2) by blast
    then have "book_entries b' = filter (\<lambda>x. be_order_id x \<noteq> oid) (book_entries b)"
      by (simp add: abs_book_def spec_cancel_def book_entries_def)
    with b b' show "\<exists>me'. MatchingEngine_CancelOrder me s oid = (Inr e, me') \<and>
        live me' = (\<lambda>sv k. if sv = sym_value s \<and> k = oid then None else live me sv k)"
      by (auto simp: MatchingEngine_CancelOrder_def live_update [OF put_book_find] live_found [OF b(1)]
          entry_map_filter fun_eq_iff)
  }
  assume none: "live me (sym_value s) oid = None"
  show "\<exists>err me'. MatchingEngine_CancelOrder me s oid = (Inl err, me') \<and> live me' = live me"
  proof (cases "um_find (me_books me) (sym_value s)")
    case (Some b)
    then have "oid \<notin> be_order_id ` set (book_entries b)"
      using none by (simp add: live_def entry_map_None_iff)
    from CancelOrder_unknown [OF _ this] engine_ok_find [OF ok Some] Some show ?thesis
      by (auto simp: MatchingEngine_CancelOrder_def live_update [OF put_book_find] live_found [OF Some]
          fun_eq_iff)
  qed (simp add: MatchingEngine_CancelOrder_def)
qed

lemma Engine_AddOrder_live:
  assumes ok: "engine_ok me" and add: "MatchingEngine_AddOrder me s oid sd ty p qty clk = (Inr r, me', clk')"
  shows "0 < qty \<and> total_filled (ar_fills r) \<le> qty \<and> live me (sym_value s) oid = None
    \<and> distinct (map fl_passive_order_id (ar_fills r))
    \<and> (\<forall>f \<in> set (ar_fills r). fl_aggressive_order_id f = oid \<and> 0 < fl_quantity f \<and>
        (\<exists>e. live me (sym_value s) (fl_passive_order_id f) = Some e \<and> fl_quantity f \<le> be_remaining_qty e))"
    and "sv \<noteq> sym_value s \<Longrightarrow> live me' sv k = live me sv k"
    and "map_option entry_view (live me' (sym_value s) oid) =
          (if ty = kLimit \<and> total_filled (ar_fills r) < qty
           then Some (sd, p, qty - total_filled (ar_fills r)) else None)"
    and "k \<noteq> oid \<Longrightarrow> live me' (sym_value s) k = (case fill_of (ar_fills r) k of None \<Rightarrow> live me (sym_value s) k
          | Some f \<Rightarrow> Option.bind (live me (sym_value s) k) (reduce_entry (fl_quantity f)))"
proof -
  obtain r0 b' where B: "OrderBook_AddOrder (book_of me s) oid sd ty p qty clk = (Inr r0, b', clk')"
    "ar_fills r = fst (renumber (me_next_execution_id me) (ar_fills r0))"
    "um_find (me_books me') = (um_find (me_books me))(sym_value s \<mapsto> b')"
    by (rule Engine_AddOrder_accepted [OF add])
  have bok: "book_ok (book_of me s)" using engine_ok_book_of [OF ok] by blast
  note F = AddOrder_fills [OF bok B(1)] and L = AddOrder_live [OF bok B(1)]
  show "0 < qty \<and> total_filled (ar_fills r) \<le> qty \<and> live me (sym_value s) oid = None
    \<and> distinct (map fl_passive_order_id (ar_fills r))
    \<and> (\<forall>f \<in> set (ar_fills r). fl_aggressive_order_id f = oid \<and> 0 < fl_quantity f \<and>
        (\<exists>e. live me (sym_value s) (fl_passive_order_id f) = Some e \<and> fl_quantity f \<le> be_remaining_qty e))"
    using F by (auto simp: B(2) live_eq dest!: renumber_in)
  show "sv \<noteq> sym_value s \<Longrightarrow> live me' sv k = live me sv k" by (simp add: live_update [OF B(3)])
  show "map_option entry_view (live me' (sym_value s) oid) =
      (if ty = kLimit \<and> total_filled (ar_fills r) < qty
       then Some (sd, p, qty - total_filled (ar_fills r)) else None)"
    using L(1) by (simp add: live_update [OF B(3)] B(2))
  show "k \<noteq> oid \<Longrightarrow> live me' (sym_value s) k = (case fill_of (ar_fills r) k of None \<Rightarrow> live me (sym_value s) k
      | Some f \<Rightarrow> Option.bind (live me (sym_value s) k) (reduce_entry (fl_quantity f)))"
    using L(2) [of k]
    unfolding live_eq [of me]
      fill_of_case [where g = "\<lambda>q. Option.bind (entry_map (book_entries (book_of me s)) k) (reduce_entry q)"]
    by (simp add: live_update [OF B(3)] B(2))
qed

interpretation engine_venue:
  venue MatchingEngine_AddOrder MatchingEngine_CancelOrder live engine_ok
proof unfold_locales
qed (blast dest: Engine_AddOrder_ok Engine_CancelOrder_ok Engine_AddOrder_error Engine_AddOrder_accepts
      Engine_AddOrder_live Engine_CancelOrder_live)+

end
