(* ===== verification/Order_Invariants.thy ===== *)
theory Order_Invariants
  imports Order_Manager Venue
begin

section \<open>Invariants of the order manager\<close>

text \<open>
  First what every small step of the order manager changes (\<open>om_simps\<close>), then the invariant
  \<open>om_ok\<close>: every order is well-formed, the table agrees with the live orders of the engine, and
  the filled quantity of every order is what the recorded executions say. SubmitOrder and
  CancelOrder keep it; the agreement with the engine comes from the interpretation
  \<open>engine_venue\<close>.
\<close>

named_theorems om_simps \<open>the fields of the order manager after a small step\<close>

subsection \<open>Frames of the small steps\<close>

lemma om_Now_eq [om_simps]: "om_Now om = (shd (om_clock om), om\<lparr>om_clock := stl (om_clock om)\<rparr>)"
  by (simp add: om_Now_def Now_def)

lemma with_db_simps [om_simps]:
  "om_risk (with_db f om) = om_risk om" "om_engine (with_db f om) = om_engine om"
  "om_next_order_id (with_db f om) = om_next_order_id om" "om_next_event_id (with_db f om) = om_next_event_id om"
  "om_orders (with_db f om) = om_orders om" "om_events (with_db f om) = om_events om"
  "om_executions (with_db f om) = om_executions om" "om_clock (with_db f om) = om_clock om"
  by (simp_all add: with_db_def)

lemma put_order_simps [om_simps]:
  "om_risk (put_order k ord om) = om_risk om" "om_engine (put_order k ord om) = om_engine om"
  "om_next_order_id (put_order k ord om) = om_next_order_id om"
  "om_next_event_id (put_order k ord om) = om_next_event_id om"
  "om_orders (put_order k ord om) = um_assign k ord (om_orders om)"
  "om_events (put_order k ord om) = om_events om"
  "om_executions (put_order k ord om) = om_executions om" "om_clock (put_order k ord om) = om_clock om"
  by (simp_all add: put_order_def)

lemma AppendEvent_simps [om_simps]:
  "om_risk (AppendEvent sq k ty d om) = om_risk om" "om_engine (AppendEvent sq k ty d om) = om_engine om"
  "om_next_order_id (AppendEvent sq k ty d om) = om_next_order_id om"
  "om_next_event_id (AppendEvent sq k ty d om) = om_next_event_id om + 1"
  "om_orders (AppendEvent sq k ty d om) = om_orders om"
  "om_events (AppendEvent sq k ty d om) = om_events om @
     [\<lparr>ev_event_id = om_next_event_id om, ev_order_id = k, ev_type = ty, ev_timestamp = shd (om_clock om),
       ev_detail = d\<rparr>]"
  "om_executions (AppendEvent sq k ty d om) = om_executions om"
  "om_clock (AppendEvent sq k ty d om) = stl (om_clock om)"
  by (simp_all add: AppendEvent_def NextEventId_def om_simps Let_def)

lemma passive_after_eq: "(fill_order f ord)\<lparr>o_updated_at := t, o_status :=
    (if o_remaining_qty ord - fl_quantity f = 0 then kFilled else kPartiallyFilled)\<rparr> = passive_after f t ord"
  by (simp add: fill_order_def passive_after_def)

lemma apply_passive_simps [om_simps]:
  "om_risk (apply_passive sq f om) = om_risk om" "om_engine (apply_passive sq f om) = om_engine om"
  "om_next_order_id (apply_passive sq f om) = om_next_order_id om"
  "om_executions (apply_passive sq f om) = om_executions om"
  by (simp_all add: apply_passive_def om_simps Let_def split: option.splits)

lemma apply_passive_orders:
  "um_find (om_orders (apply_passive sq f om)) k =
     (if k = fl_passive_order_id f
      then map_option (passive_after f (shd (om_clock om))) (um_find (om_orders om) k)
      else um_find (om_orders om) k)"
  "distinct (map fst (om_orders om)) \<Longrightarrow> distinct (map fst (om_orders (apply_passive sq f om)))"
  by (auto simp: apply_passive_def om_simps umap_simps Let_def fill_order_def passive_after_def
      split: option.splits)

subsection \<open>Applying fills\<close>

lemma ApplyFills_frame:
  "ApplyFills sq ord fs om = (ord', om') \<Longrightarrow>
     om_risk om' = om_risk om \<and> om_engine om' = om_engine om \<and> om_next_order_id om' = om_next_order_id om
     \<and> om_executions om' = om_executions om @ fs
     \<and> (distinct (map fst (om_orders om)) \<longrightarrow> distinct (map fst (om_orders om')))
     \<and> ord' = ord\<lparr>o_filled_qty := o_filled_qty ord + total_filled fs,
                  o_remaining_qty := o_remaining_qty ord - total_filled fs\<rparr>"
proof (induction sq ord fs om rule: ApplyFills.induct)
  case (2 sq ord f fs om)
  then show ?case by (simp add: Let_def om_simps apply_passive_orders fill_order_def algebra_simps)
qed simp

lemma filled_by_skip: "filled_by [] k x x' \<longleftrightarrow> x' = x"
  by (auto simp: filled_by_def split: option.splits)

lemma filled_by_Cons:
  "k \<noteq> fl_passive_order_id f \<Longrightarrow> filled_by (f # fs) k x x' = filled_by fs k x x'"
  by (auto simp: filled_by_def split: option.splits)

lemma filled_by_hit:
  "k = fl_passive_order_id f \<Longrightarrow> k \<notin> set (map fl_passive_order_id fs) \<Longrightarrow>
   filled_by fs k (map_option (passive_after f t) x) x' \<Longrightarrow> filled_by (f # fs) k x x'"
  by (cases x) (auto simp: filled_by_def fill_of_None_iff [THEN iffD2] split: option.splits)

lemma ApplyFills_orders:
  assumes "ApplyFills sq ord fs om = (ord', om')" and "distinct (map fl_passive_order_id fs)"
  shows "filled_by fs k (um_find (om_orders om) k) (um_find (om_orders om') k)"
  using assms
proof (induction sq ord fs om rule: ApplyFills.induct)
  case (1 sq ord om)
  then show ?case by (simp add: filled_by_skip)
next
  case (2 sq ord f fs om)
  let ?om1 = "with_db (Database_SaveExecution sq f) (om\<lparr>om_executions := om_executions om @ [f]\<rparr>)"
  let ?om3 = "apply_passive sq f ?om1"
  have "filled_by fs k (um_find (om_orders ?om3) k) (um_find (om_orders om') k)"
    using "2.IH" [OF refl refl refl refl refl] "2.prems" by (simp add: Let_def om_simps)
  moreover have "om_clock ?om1 = om_clock om" "om_orders ?om1 = om_orders om" by (simp_all add: om_simps)
  ultimately show ?case
    using "2.prems"(2)
    by (cases "k = fl_passive_order_id f")
      (auto simp: apply_passive_orders filled_by_Cons intro: filled_by_hit)
qed

subsection \<open>The invariant\<close>

definition status_ok :: "order \<Rightarrow> bool" where
  "status_ok ord = (case o_status ord of
       kPendingNew \<Rightarrow> False
     | kAccepted \<Rightarrow> o_type ord = kLimit \<and> o_filled_qty ord = 0
     | kPartiallyFilled \<Rightarrow> 0 < o_filled_qty ord \<and> 0 < o_remaining_qty ord
     | kFilled \<Rightarrow> o_remaining_qty ord = 0
     | kPendingCancel \<Rightarrow> False
     | kCancelled \<Rightarrow> o_type ord = kLimit \<and> 0 < o_remaining_qty ord
     | kRejected \<Rightarrow> o_filled_qty ord = 0)"

definition order_ok :: "order \<Rightarrow> bool" where
  "order_ok ord \<longleftrightarrow> 0 < o_order_qty ord \<and> (o_type ord = kLimit \<longrightarrow> 0 < o_price ord)
     \<and> sym_value (o_symbol ord) \<noteq> [] \<and> 0 \<le> o_filled_qty ord \<and> 0 \<le> o_remaining_qty ord
     \<and> o_filled_qty ord + o_remaining_qty ord = o_order_qty ord \<and> status_ok ord"

text \<open>The quantity that the recorded executions give to an order, on either side.\<close>

definition executed :: "order_id \<Rightarrow> fill list \<Rightarrow> quantity" where
  "executed k fs = sum_list (map fl_quantity
     (filter (\<lambda>f. fl_aggressive_order_id f = k \<or> fl_passive_order_id f = k) fs))"

definition fill_parties :: "fill list \<Rightarrow> order_id set" where
  "fill_parties fs = fl_aggressive_order_id ` set fs \<union> fl_passive_order_id ` set fs"

definition om_ok :: "'d order_manager \<Rightarrow> bool" where
  "om_ok om \<longleftrightarrow> engine_ok (om_engine om) \<and> distinct (map fst (om_orders om))
     \<and> tracks (live (om_engine om)) (um_find (om_orders om))
     \<and> (\<forall>k ord. um_find (om_orders om) k = Some ord \<longrightarrow>
          order_ok ord \<and> o_internal_id ord = k \<and> k < om_next_order_id om
          \<and> executed k (om_executions om) = o_filled_qty ord)
     \<and> fill_parties (om_executions om) \<subseteq> dom (um_find (om_orders om))"

lemma executed_simps [simp]:
  "executed k [] = 0"
  "executed k (xs @ ys) = executed k xs + executed k ys"
  by (simp_all add: executed_def)

lemma fill_parties_append [simp]: "fill_parties (xs @ ys) = fill_parties xs \<union> fill_parties ys"
  by (auto simp: fill_parties_def)

lemma executed_none: "k \<notin> fill_parties fs \<Longrightarrow> executed k fs = 0"
proof -
  assume "k \<notin> fill_parties fs"
  then have "filter (\<lambda>f. fl_aggressive_order_id f = k \<or> fl_passive_order_id f = k) fs = []"
    by (auto simp: fill_parties_def filter_empty_conv)
  then show ?thesis by (simp add: executed_def)
qed

lemma executed_aggressor: "\<forall>f \<in> set fs. fl_aggressive_order_id f = k \<Longrightarrow> executed k fs = total_filled fs"
  by (simp add: executed_def total_filled_def)

lemma executed_passive:
  "distinct (map fl_passive_order_id fs) \<Longrightarrow> \<forall>f \<in> set fs. fl_aggressive_order_id f \<noteq> k \<Longrightarrow>
   executed k fs = (case fill_of fs k of None \<Rightarrow> 0 | Some f \<Rightarrow> fl_quantity f)"
proof (induction fs)
  case (Cons f fs)
  show ?case
  proof (cases "fl_passive_order_id f = k")
    case True
    then have "k \<notin> fill_parties fs" using Cons.prems by (auto simp: fill_parties_def)
    with True show ?thesis using executed_none by (simp add: executed_def)
  next
    case False
    with Cons show ?thesis by (simp add: executed_def)
  qed
qed simp

lemma om_ok_new: "om_ok (OrderManager risk MatchingEngine db clk)"
  by (simp add: om_ok_def OrderManager_def tracks_def live_def order_view_def MatchingEngine_def
      engine_ok_def fill_parties_def)

lemma om_okD:
  assumes "om_ok om"
  shows "engine_ok (om_engine om)" "distinct (map fst (om_orders om))"
    "tracks (live (om_engine om)) (um_find (om_orders om))"
    "um_find (om_orders om) k = Some ord \<Longrightarrow> order_ok ord \<and> o_internal_id ord = k
      \<and> k < om_next_order_id om \<and> executed k (om_executions om) = o_filled_qty ord"
    "fill_parties (om_executions om) \<subseteq> dom (um_find (om_orders om))"
  using assms by (auto simp: om_ok_def)

lemma u64_less_Suc: "k \<noteq> - 1 \<Longrightarrow> k < k + (1 :: u64)"
  by (simp add: less_le inc_less_eq_self_iff_eq [symmetric] not_le [symmetric])

lemma om_ok_fresh:
  assumes "om_ok om"
  shows "um_find (om_orders om) (om_next_order_id om) = None"
    "live (om_engine om) sv (om_next_order_id om) = None"
proof -
  show *: "um_find (om_orders om) (om_next_order_id om) = None"
    using om_okD(4) [OF assms, of "om_next_order_id om"] by fastforce
  have "map_option entry_view (live (om_engine om) sv (om_next_order_id om)) =
      order_view sv (um_find (om_orders om) (om_next_order_id om))"
    using om_okD(3) [OF assms] by (simp only: tracks_def)
  with * show "live (om_engine om) sv (om_next_order_id om) = None"
    by (simp add: order_view_def)
qed

text \<open>The invariant depends only on the engine, the orders, the executions and the id counter.\<close>

lemma om_ok_cong:
  "om_ok om \<Longrightarrow> om_engine om' = om_engine om \<Longrightarrow> om_orders om' = om_orders om \<Longrightarrow>
   om_executions om' = om_executions om \<Longrightarrow> om_next_order_id om' = om_next_order_id om \<Longrightarrow> om_ok om'"
  by (simp add: om_ok_def)

text \<open>A closed order under a fresh id keeps it.\<close>

lemma om_ok_add_closed:
  assumes ok: "om_ok om" and fresh: "om_next_order_id om \<noteq> - 1"
    and ord: "order_ok ord" "o_internal_id ord = om_next_order_id om" "\<not> is_open ord" "o_filled_qty ord = 0"
    and om': "om_engine om' = om_engine om" "om_executions om' = om_executions om"
      "om_next_order_id om' = om_next_order_id om + 1"
      "um_find (om_orders om') = (um_find (om_orders om))(om_next_order_id om \<mapsto> ord)"
      "distinct (map fst (om_orders om'))"
  shows "om_ok om'"
proof -
  let ?k = "om_next_order_id om"
  note D = om_okD [OF ok] and F = om_ok_fresh [OF ok]
  note next_gt = u64_less_Suc [OF fresh]
  have "tracks (live (om_engine om)) (um_find (om_orders om'))"
    unfolding tracks_def
  proof (intro allI)
    fix sv k
    show "map_option entry_view (live (om_engine om) sv k) = order_view sv (um_find (om_orders om') k)"
      using D(3) F ord(3) unfolding tracks_def om'(4)
      by (cases "k = ?k") (auto simp: order_view_def)
  qed
  moreover have "executed ?k (om_executions om) = 0"
    using D(5) F(1) by (intro executed_none) auto
  then have "order_ok x \<and> o_internal_id x = k \<and> k < ?k + 1 \<and> executed k (om_executions om) = o_filled_qty x"
    if "um_find (om_orders om') k = Some x" for k x
    using that D(4) [of k x] ord next_gt unfolding om'(4)
    by (cases "k = ?k") (auto dest: less_trans)
  moreover have "fill_parties (om_executions om) \<subseteq> dom (um_find (om_orders om'))"
    using D(5) unfolding om'(4) by auto
  ultimately show ?thesis using D(1) om'(5) unfolding om_ok_def om'(1,2,3) by blast
qed

subsection \<open>The branches of SubmitOrder\<close>

lemma order_of_request_id [simp]: "o_internal_id (order_of_request oid req st c u) = oid"
  by (simp add: order_of_request_def)

definition valid_request :: "new_order_request \<Rightarrow> bool" where
  "valid_request req \<longleftrightarrow> 0 < nr_quantity req \<and> (nr_type req = kLimit \<longrightarrow> 0 < nr_price req)
     \<and> sym_value (nr_symbol req) \<noteq> []"

lemma reject_by_risk_simps [om_simps]:
  "om_engine (reject_by_risk sq req err om) = om_engine om"
  "om_executions (reject_by_risk sq req err om) = om_executions om"
  "om_next_order_id (reject_by_risk sq req err om) = om_next_order_id om + 1"
  "om_risk (reject_by_risk sq req err om) = om_risk om"
  "om_orders (reject_by_risk sq req err om) = um_assign (om_next_order_id om)
     (order_of_request (om_next_order_id om) req kRejected (shd (om_clock om)) (shd (stl (om_clock om))))
     (om_orders om)"
  by (simp_all add: reject_by_risk_def NextOrderId_def om_simps Let_def)

lemma accept_order_spec:
  assumes "accept_order sq ord fills om = (ord', om')" and "distinct (map fl_passive_order_id fills)"
    and "distinct (map fst (om_orders om))"
  obtains T now now' where "om_engine om' = om_engine om" "om_risk om' = om_risk om"
    "om_next_order_id om' = om_next_order_id om" "om_executions om' = om_executions om @ fills"
    "um_find (om_orders om') = T(o_internal_id ord \<mapsto> ord')" "distinct (map fst (om_orders om'))"
    "\<And>k. filled_by fills k (um_find (om_orders om) k) (T k)"
    "ord' = (let ord1 = ord\<lparr>o_status := kAccepted, o_updated_at := now,
        o_filled_qty := o_filled_qty ord + total_filled fills,
        o_remaining_qty := o_remaining_qty ord - total_filled fills\<rparr>
      in ord1\<lparr>o_status := final_status ord1, o_updated_at := now'\<rparr>)"
proof -
  let ?now = "shd (om_clock om)"
  let ?om2 = "AppendEvent sq (o_internal_id ord) kAccepted_event '''' (om\<lparr>om_clock := stl (om_clock om)\<rparr>)"
  obtain ord1 om3 where a: "ApplyFills sq (ord\<lparr>o_status := kAccepted, o_updated_at := ?now\<rparr>) fills ?om2 = (ord1, om3)"
    by force
  note F = ApplyFills_frame [OF a] and T = ApplyFills_orders [OF a assms(2)]
  show thesis
    using assms(1) a F T assms(3)
    by (intro that [of "um_find (om_orders om3)" ?now "o_updated_at ord'"])
      (auto simp: accept_order_def om_simps Let_def umap_simps fun_eq_iff split: if_splits)
qed

lemma SubmitOrder_cases:
  assumes "SubmitOrder sq req om = (res, om')"
  obtains (invalid) e where "\<not> valid_request req" "res = Inl e" "om' = om"
      "e = (if nr_quantity req \<le> 0 then kInvalidQuantity
            else if nr_type req = kLimit \<and> nr_price req \<le> 0 then kInvalidPrice else kInvalidSymbol)"
  | (risk) e risk' clk' where "valid_request req"
      "Check (om_risk om) (risk_request_of req) (om_clock om) = (Inl e, risk', clk')"
      "res = Inl e" "om' = reject_by_risk sq req e (om\<lparr>om_risk := risk', om_clock := clk'\<rparr>)"
  | (matched) risk' clk' om4 mres engine' clk'' where "valid_request req"
      "Check (om_risk om) (risk_request_of req) (om_clock om) = (Inr (), risk', clk')"
      "MatchingEngine_AddOrder (om_engine om) (nr_symbol req) (om_next_order_id om) (nr_side req)
         (nr_type req) (nr_price req) (nr_quantity req) (stl (stl clk')) = (mres, engine', clk'')"
      "om_engine om4 = engine'" "om_orders om4 = om_orders om" "om_executions om4 = om_executions om"
      "om_next_order_id om4 = om_next_order_id om + 1" "om_risk om4 = risk'" "om_clock om4 = clk''"
      "om_events om4 = om_events om @ [\<lparr>ev_event_id = om_next_event_id om, ev_order_id = om_next_order_id om,
         ev_type = kNewRequested, ev_timestamp = shd (stl clk'), ev_detail = nr_client_order_id req\<rparr>]"
      "om_next_event_id om4 = om_next_event_id om + 1"
      "(res, om') = (let ord = order_of_request (om_next_order_id om) req kPendingNew (shd clk') (shd clk')
         in case mres of Inl err \<Rightarrow> (Inl err, reject_by_matching sq ord err om4)
          | Inr r \<Rightarrow> (case accept_order sq ord (ar_fills r) om4 of (ord', om5) \<Rightarrow> (Inr ord', om5)))"
proof (cases "valid_request req")
  case False
  with assms show thesis
    by (intro invalid [of "if nr_quantity req \<le> 0 then kInvalidQuantity
            else if nr_type req = kLimit \<and> nr_price req \<le> 0 then kInvalidPrice else kInvalidSymbol"])
      (auto simp: SubmitOrder_def valid_request_def split: if_splits)
next
  case True
  obtain chk risk' clk' where c: "Check (om_risk om) (risk_request_of req) (om_clock om) = (chk, risk', clk')"
    by (metis prod_cases3)
  show thesis
  proof (cases chk)
    case (Inl e)
    with True c assms show thesis
      by (intro risk [of e risk' clk']) (auto simp: SubmitOrder_def valid_request_def)
  next
    case (Inr u)
    obtain mres engine' clk'' where m: "MatchingEngine_AddOrder (om_engine om) (nr_symbol req)
        (om_next_order_id om) (nr_side req) (nr_type req) (nr_price req) (nr_quantity req) (stl (stl clk'))
        = (mres, engine', clk'')"
      by (metis prod_cases3)
    let ?om3 = "AppendEvent sq (om_next_order_id om) kNewRequested (nr_client_order_id req)
      (om\<lparr>om_risk := risk', om_next_order_id := om_next_order_id om + 1, om_clock := stl clk'\<rparr>)"
    let ?om4 = "?om3\<lparr>om_engine := engine', om_clock := clk''\<rparr>"
    from True c assms m Inr show thesis
      by (intro matched [of risk' clk' mres engine' clk'' ?om4])
        (auto simp: SubmitOrder_def valid_request_def om_simps NextOrderId_def Let_def split: sum.splits prod.splits)
  qed
qed

subsection \<open>SubmitOrder keeps the invariant\<close>

lemma passive_after_ok:
  "order_ok ord \<Longrightarrow> is_open ord \<Longrightarrow> 0 < fl_quantity f \<Longrightarrow> fl_quantity f \<le> o_remaining_qty ord \<Longrightarrow>
   order_ok (passive_after f t ord)"
  by (auto simp: order_ok_def status_ok_def is_open_def passive_after_def)

lemma passive_after_sel [simp]:
  "o_internal_id (passive_after f t ord) = o_internal_id ord"
  "o_filled_qty (passive_after f t ord) = o_filled_qty ord + fl_quantity f"
  by (simp_all add: passive_after_def)

text \<open>The order that SubmitOrder returns, from the total of its fills.\<close>

lemma accepted_order:
  assumes "valid_request req" and "0 \<le> filled" "filled \<le> nr_quantity req"
    and ord': "ord' = (let ord1 = (order_of_request oid req st0 c0 u0)\<lparr>o_status := kAccepted, o_updated_at := now,
        o_filled_qty := o_filled_qty (order_of_request oid req st0 c0 u0) + filled,
        o_remaining_qty := o_remaining_qty (order_of_request oid req st0 c0 u0) - filled\<rparr>
      in ord1\<lparr>o_status := final_status ord1, o_updated_at := now'\<rparr>)"
  shows "order_ok ord'" "is_open ord' \<longleftrightarrow> nr_type req = kLimit \<and> filled < nr_quantity req"
    "o_internal_id ord' = oid" "o_symbol ord' = nr_symbol req" "o_side ord' = nr_side req"
    "o_price ord' = nr_price req" "o_filled_qty ord' = filled" "o_remaining_qty ord' = nr_quantity req - filled"
  using assms by (cases "nr_type req"; auto simp: order_ok_def status_ok_def is_open_def valid_request_def
      order_of_request_def final_status_def Let_def)+

lemma filled_by_cases:
  assumes "filled_by fs k x x'"
  obtains "x = None" "x' = None" | ord where "x = Some ord" "fill_of fs k = None" "x' = Some ord"
  | ord f t where "x = Some ord" "fill_of fs k = Some f" "x' = Some (passive_after f t ord)"
  using assms by (auto simp: filled_by_def split: option.splits)

lemma filled_by_None: "filled_by fs k x x' \<Longrightarrow> x' = None \<longleftrightarrow> x = None"
  by (auto elim: filled_by_cases)

text \<open>An order of the table after the fills of an incoming order have been applied.\<close>

lemma filled_order:
  assumes fb: "filled_by fs k x (Some y)" and dist: "distinct (map fl_passive_order_id fs)"
    and aggr: "\<forall>f \<in> set fs. fl_aggressive_order_id f \<noteq> k"
    and hits: "\<And>f ord. f \<in> set fs \<Longrightarrow> fl_passive_order_id f = k \<Longrightarrow> x = Some ord \<Longrightarrow>
      is_open ord \<and> 0 < fl_quantity f \<and> fl_quantity f \<le> o_remaining_qty ord"
    and old: "\<And>ord. x = Some ord \<Longrightarrow> order_ok ord \<and> o_internal_id ord = k \<and> executed k ex = o_filled_qty ord"
  shows "order_ok y \<and> o_internal_id y = k \<and> executed k (ex @ fs) = o_filled_qty y"
proof -
  note part = executed_passive [OF dist aggr]
  from fb show ?thesis
  proof (cases rule: filled_by_cases)
    case (2 ord)
    with part old [of ord] show ?thesis by simp
  next
    case (3 ord f t)
    then have f: "f \<in> set fs" "fl_passive_order_id f = k" by (auto dest: fill_of_SomeD)
    from passive_after_ok [of ord f t] old [OF 3(1)] hits [OF f 3(1)] part 3 show ?thesis by simp
  qed simp
qed

lemma om_ok_matched:
  assumes ok: "om_ok om" and fresh: "om_next_order_id om \<noteq> - 1" and valid: "valid_request req"
    and add: "MatchingEngine_AddOrder (om_engine om) (nr_symbol req) (om_next_order_id om) (nr_side req)
         (nr_type req) (nr_price req) (nr_quantity req) clk = (Inr r, engine', clk'')"
    and om4: "om_engine om4 = engine'" "om_orders om4 = om_orders om" "om_executions om4 = om_executions om"
      "om_next_order_id om4 = om_next_order_id om + 1"
    and acc: "accept_order sq (order_of_request (om_next_order_id om) req kPendingNew c0 c0) (ar_fills r) om4 = (ord', om')"
  shows "om_ok om' \<and> order_ok ord' \<and> um_find (om_orders om') (om_next_order_id om) = Some ord'
    \<and> om_executions om' = om_executions om @ ar_fills r \<and> om_engine om' = engine'
    \<and> om_next_order_id om' = om_next_order_id om + 1
    \<and> o_filled_qty ord' = total_filled (ar_fills r)
    \<and> (is_open ord' \<longleftrightarrow> nr_type req = kLimit \<and> total_filled (ar_fills r) < nr_quantity req)
    \<and> (\<forall>k. k \<noteq> om_next_order_id om \<longrightarrow>
         filled_by (ar_fills r) k (um_find (om_orders om) k) (um_find (om_orders om') k))"
proof -
  let ?k = "om_next_order_id om" and ?fs = "ar_fills r" and ?T0 = "um_find (om_orders om)"
  note D = om_okD [OF ok] and F = om_ok_fresh [OF ok] and next_gt = u64_less_Suc [OF fresh]
  note dist = engine_venue.add_distinct [OF D(1) add]
  have "distinct (map fst (om_orders om4))" using D(2) om4 by simp
  from acc dist this obtain T now now' where
    B: "om_engine om' = om_engine om4" "om_risk om' = om_risk om4" "om_next_order_id om' = om_next_order_id om4"
      "om_executions om' = om_executions om4 @ ?fs"
      "um_find (om_orders om') = T(o_internal_id (order_of_request ?k req kPendingNew c0 c0) \<mapsto> ord')"
    and keys: "distinct (map fst (om_orders om'))"
    and T: "\<And>k. filled_by ?fs k (um_find (om_orders om4) k) (T k)"
    and ord': "ord' = (let ord1 = (order_of_request ?k req kPendingNew c0 c0)\<lparr>o_status := kAccepted, o_updated_at := now,
        o_filled_qty := o_filled_qty (order_of_request ?k req kPendingNew c0 c0) + total_filled ?fs,
        o_remaining_qty := o_remaining_qty (order_of_request ?k req kPendingNew c0 c0) - total_filled ?fs\<rparr>
      in ord1\<lparr>o_status := final_status ord1, o_updated_at := now'\<rparr>)"
    by (rule accept_order_spec) (rule that)
  have om': "om_engine om' = engine'" "om_next_order_id om' = ?k + 1" "om_executions om' = om_executions om @ ?fs"
    and tbl: "um_find (om_orders om') = T(?k \<mapsto> ord')"
    using B om4 by (simp_all add: fun_upd_def)
  note T = T [unfolded om4]
  note fills = engine_venue.add_fills [OF D(1) add] and hits = engine_venue.fill_hits_open [OF D(1,3) add]
  have total: "0 \<le> total_filled ?fs" "total_filled ?fs \<le> nr_quantity req"
  proof -
    show "0 \<le> total_filled ?fs"
      using fills unfolding total_filled_def by (intro sum_list_map_nonneg ballI) (meson less_imp_le)
    show "total_filled ?fs \<le> nr_quantity req" using engine_venue.add_total [OF D(1) add] by blast
  qed
  note A = accepted_order [OF valid total ord']
  have others: "filled_by ?fs k (?T0 k) (um_find (om_orders om') k)" if "k \<noteq> ?k" for k
    using T that by (simp add: tbl)
  have tracks: "tracks (live (om_engine om')) (um_find (om_orders om'))"
    unfolding om'(1)
    by (rule engine_venue.tracks_add [OF D(1,3) add others, of ord']) (use A F(1) in \<open>simp_all add: tbl\<close>)
  have orders: "order_ok x \<and> o_internal_id x = k \<and> k < om_next_order_id om'
      \<and> executed k (om_executions om') = o_filled_qty x" if x: "um_find (om_orders om') k = Some x" for k x
  proof (cases "k = ?k")
    case True
    moreover have "executed ?k (om_executions om) = 0"
      using D(5) F(1) by (intro executed_none) auto
    moreover have "executed ?k ?fs = total_filled ?fs"
      using fills by (intro executed_aggressor) blast
    ultimately show ?thesis using x A next_gt by (simp add: tbl om')
  next
    case False
    have "um_find (om_orders om') k = Some x \<Longrightarrow> filled_by ?fs k (?T0 k) (Some x)"
      using others [OF False] by simp
    from filled_order [OF this [OF x] dist, of "om_executions om"] fills False hits D(4) [of k]
    have "order_ok x \<and> o_internal_id x = k \<and> executed k (om_executions om @ ?fs) = o_filled_qty x" by fastforce
    moreover have "?T0 k \<noteq> None"
      using filled_by_None [OF others [OF False]] x by auto
    then have "k < ?k + 1" using D(4) [of k] next_gt by (auto dest: less_trans)
    ultimately show ?thesis by (simp add: om')
  qed
  have "dom ?T0 \<subseteq> dom (um_find (om_orders om'))"
    using filled_by_None [OF T] unfolding tbl by (intro subsetI) (simp add: domIff del: not_None_eq)
  moreover have "fl_aggressive_order_id f = ?k \<and> fl_passive_order_id f \<in> dom ?T0" if "f \<in> set ?fs" for f
    using fills [OF that] hits [OF that] by blast
  then have "fill_parties ?fs \<subseteq> insert ?k (dom ?T0)"
    unfolding fill_parties_def by blast
  moreover have "?k \<in> dom (um_find (om_orders om'))" unfolding tbl by (simp add: domIff)
  ultimately have "fill_parties (om_executions om') \<subseteq> dom (um_find (om_orders om'))"
    using D(5) by (simp add: om' del: dom_fun_upd) blast
  moreover have "engine_ok (om_engine om')"
    unfolding om'(1) by (rule engine_venue.add_ok [OF D(1) add])
  ultimately have "om_ok om'" using keys tracks orders unfolding om_ok_def by blast
  moreover have "um_find (om_orders om') ?k = Some ord'" by (simp add: tbl)
  ultimately show ?thesis using A(1,2,7) om'(1,2,3) others by blast
qed

lemma om_ok_reject_by_risk:
  assumes ok: "om_ok om" and fresh: "om_next_order_id om \<noteq> - 1" and valid: "valid_request req"
  shows "om_ok (reject_by_risk sq req err (om\<lparr>om_risk := risk', om_clock := clk'\<rparr>))"
proof -
  let ?ord = "order_of_request (om_next_order_id om) req kRejected (shd clk') (shd (stl clk'))"
  have "order_ok ?ord" "\<not> is_open ?ord" "o_filled_qty ?ord = 0"
    using valid by (auto simp: order_ok_def status_ok_def is_open_def valid_request_def order_of_request_def)
  then show ?thesis
    using om_okD(2) [OF ok]
    by (intro om_ok_add_closed [OF ok fresh, of ?ord]) (auto simp: om_simps umap_simps fun_eq_iff)
qed

theorem SubmitOrder_om_ok:
  assumes ok: "om_ok om" and fresh: "om_next_order_id om \<noteq> - 1" and s: "SubmitOrder sq req om = (res, om')"
  shows "om_ok om'"
  using s
proof (cases rule: SubmitOrder_cases)
  case (risk e risk' clk')
  then show ?thesis using om_ok_reject_by_risk [OF ok fresh] by simp
next
  case (matched risk' clk' om4 mres engine' clk'')
  have "\<exists>r v c. MatchingEngine_AddOrder (om_engine om) (nr_symbol req) (om_next_order_id om) (nr_side req)
      (nr_type req) (nr_price req) (nr_quantity req) (stl (stl clk')) = (Inr r, v, c)"
    using engine_venue.add_accepts [OF om_okD(1) [OF ok]] matched(1) om_ok_fresh(2) [OF ok]
    by (simp add: valid_request_def)
  with matched(3) obtain r where r: "mres = Inr r" by auto
  obtain ord' om5 where a: "accept_order sq (order_of_request (om_next_order_id om) req kPendingNew (shd clk') (shd clk'))
      (ar_fills r) om4 = (ord', om5)" by force
  from om_ok_matched [OF ok fresh matched(1) matched(3) [unfolded r] matched(4-7) a] matched(12) r a show ?thesis
    by simp
qed (use ok in simp)

subsection \<open>CancelOrder keeps the invariant\<close>

text \<open>The branches of CancelOrder: refused, failed in the engine, or cancelled.\<close>

lemma CancelOrder_cases:
  assumes "OrderManager_CancelOrder sq req om = (res, om')"
  obtains (unknown) "um_find (om_orders om) (cr_order_id req) = None" "res = Inl kOrderNotFound" "om' = om"
  | (closed) ord where "um_find (om_orders om) (cr_order_id req) = Some ord"
      "o_status ord \<in> {kFilled, kCancelled, kRejected}" "res = Inl kInvalidStateTransition" "om' = om"
  | (failed) ord err engine' where "um_find (om_orders om) (cr_order_id req) = Some ord"
      "o_status ord \<notin> {kFilled, kCancelled, kRejected}"
      "MatchingEngine_CancelOrder (om_engine om) (o_symbol ord) (o_internal_id ord) = (Inl err, engine')"
      "res = Inl err" "om' = (AppendEvent sq (o_internal_id ord) kCancelRequested '''' om)\<lparr>om_engine := engine'\<rparr>"
  | (cancelled) ord e engine' now where "um_find (om_orders om) (cr_order_id req) = Some ord"
      "o_status ord \<notin> {kFilled, kCancelled, kRejected}"
      "MatchingEngine_CancelOrder (om_engine om) (o_symbol ord) (o_internal_id ord) = (Inr e, engine')"
      "res = Inr (ord\<lparr>o_status := kCancelled, o_updated_at := now\<rparr>)"
      "om_engine om' = engine'" "om_executions om' = om_executions om" "om_next_order_id om' = om_next_order_id om"
      "om_risk om' = om_risk om"
      "om_orders om' = um_assign (cr_order_id req) (ord\<lparr>o_status := kCancelled, o_updated_at := now\<rparr>) (om_orders om)"
proof (cases "um_find (om_orders om) (cr_order_id req)")
  case None
  with assms show thesis by (intro unknown) (auto simp: OrderManager_CancelOrder_def)
next
  case (Some ord)
  show thesis
  proof (cases "o_status ord \<in> {kFilled, kCancelled, kRejected}")
    case True
    with Some assms show thesis by (intro closed [OF Some]) (auto simp: OrderManager_CancelOrder_def)
  next
    case False
    obtain c engine' where m: "MatchingEngine_CancelOrder (om_engine om) (o_symbol ord) (o_internal_id ord) = (c, engine')"
      by force
    show thesis
    proof (cases c)
      case (Inl err)
      with Some False m assms show thesis
        by (intro failed [OF Some, of err engine']) (auto simp: OrderManager_CancelOrder_def om_simps Let_def)
    next
      case (Inr e)
      with Some False m assms show thesis
        by (intro cancelled [OF Some, of e engine' "shd (stl (om_clock om))"])
          (auto simp: OrderManager_CancelOrder_def om_simps Let_def)
    qed
  qed
qed

lemma cancelled_ok:
  "order_ok ord \<Longrightarrow> is_open ord \<Longrightarrow> order_ok (ord\<lparr>o_status := kCancelled, o_updated_at := t\<rparr>)
     \<and> \<not> is_open (ord\<lparr>o_status := kCancelled, o_updated_at := t\<rparr>)"
  by (auto simp: order_ok_def status_ok_def is_open_def)

theorem CancelOrder_om_ok:
  assumes ok: "om_ok om" and c: "OrderManager_CancelOrder sq req om = (res, om')"
  shows "om_ok om'"
proof -
  note D = om_okD [OF ok]
  from c show ?thesis
  proof (cases rule: CancelOrder_cases)
    case (failed ord err engine')
    have "\<not> is_open ord"
      using engine_venue.tracks_cancel [OF D(1,3) failed(1), of "ord\<lparr>o_status := kCancelled\<rparr>"] failed(3) D(4) [OF failed(1)]
      by (auto simp: is_open_def)
    from engine_venue.cancel_closed [OF D(1,3) failed(1) this] failed(3) D(4) [OF failed(1)]
    have "engine_ok engine'" "live engine' = live (om_engine om)" by auto
    with ok failed(5) show ?thesis by (simp add: om_ok_def om_simps)
  next
    case (cancelled ord e engine' now)
    let ?ord' = "ord\<lparr>o_status := kCancelled, o_updated_at := now\<rparr>"
    have k: "o_internal_id ord = cr_order_id req" using D(4) [OF cancelled(1)] by simp
    have opn: "is_open ord"
      using engine_venue.cancel_closed [OF D(1,3) cancelled(1)] cancelled(3) k by fastforce
    note O = cancelled_ok [OF _ opn, of now]
    from engine_venue.tracks_cancel [OF D(1,3) cancelled(1) opn] O D(4) [OF cancelled(1)] cancelled(3) k
    have E: "engine_ok engine'" "tracks (live engine') ((um_find (om_orders om))(cr_order_id req \<mapsto> ?ord'))"
      by (fastforce, fastforce)
    have tbl: "um_find (om_orders om') = (um_find (om_orders om))(cr_order_id req \<mapsto> ?ord')"
      by (simp add: cancelled umap_simps fun_eq_iff)
    have "order_ok x \<and> o_internal_id x = j \<and> j < om_next_order_id om \<and> executed j (om_executions om) = o_filled_qty x"
      if "um_find (om_orders om') j = Some x" for j x
      using that D(4) [of j] D(4) [OF cancelled(1)] O unfolding tbl by (cases "j = cr_order_id req") auto
    with E D(2,5) show ?thesis
      unfolding om_ok_def tbl by (simp add: cancelled umap_simps) blast
  qed (use ok in simp_all)
qed

end
