(* ===== verification/Order_Lifecycle.thy ===== *)
theory Order_Lifecycle
  imports Order_Invariants
begin

section \<open>The lifecycle of orders and its event log\<close>

text \<open>
  How an order changes over its life, and what its events say about it. \<open>evolves\<close> relates an
  order to what it may become; \<open>replay\<close> runs the events of one order through the lifecycle
  automaton. \<open>log_ok\<close> is the invariant that ties the event log to the table of orders.
\<close>

subsection \<open>What an order may become\<close>

fun status_reach :: "order_status \<Rightarrow> order_status \<Rightarrow> bool" where
  "status_reach kAccepted st \<longleftrightarrow> st \<in> {kAccepted, kPartiallyFilled, kFilled, kCancelled}"
| "status_reach kPartiallyFilled st \<longleftrightarrow> st \<in> {kPartiallyFilled, kFilled, kCancelled}"
| "status_reach s st \<longleftrightarrow> st = s"

definition terminal :: "order \<Rightarrow> bool" where
  "terminal ord \<longleftrightarrow> o_status ord \<in> {kFilled, kCancelled, kRejected}"

text \<open>The terms of an order never change; its fills only grow; a terminal order is frozen.\<close>

definition terms :: "order \<Rightarrow> order_id \<times> string \<times> symbol \<times> side \<times> order_type \<times> price \<times> quantity \<times> timestamp" where
  "terms ord = (o_internal_id ord, o_client_order_id ord, o_symbol ord, o_side ord, o_type ord,
                o_price ord, o_order_qty ord, o_created_at ord)"

definition evolves :: "order \<Rightarrow> order \<Rightarrow> bool" where
  "evolves ord ord' \<longleftrightarrow> terms ord' = terms ord \<and> o_filled_qty ord \<le> o_filled_qty ord'
     \<and> status_reach (o_status ord) (o_status ord') \<and> (terminal ord \<longrightarrow> ord' = ord)"

lemma status_reach_refl [simp]: "status_reach s s"
  by (cases s) auto

lemma status_reach_trans: "status_reach a b \<Longrightarrow> status_reach b c \<Longrightarrow> status_reach a c"
  by (cases a; cases b; auto)

lemma evolves_refl [simp]: "evolves ord ord"
  by (simp add: evolves_def)

lemma evolves_trans: "evolves a b \<Longrightarrow> evolves b c \<Longrightarrow> evolves a c"
  unfolding evolves_def using status_reach_trans by (metis order_trans)

lemma evolves_passive:
  "is_open ord \<Longrightarrow> 0 < fl_quantity f \<Longrightarrow> evolves ord (passive_after f t ord)"
  by (auto simp: evolves_def terms_def terminal_def is_open_def passive_after_def)

lemma evolves_cancelled:
  "is_open ord \<Longrightarrow> evolves ord (ord\<lparr>o_status := kCancelled, o_updated_at := t\<rparr>)"
  by (auto simp: evolves_def terms_def terminal_def is_open_def)

subsection \<open>Replaying events\<close>

text \<open>
  The status an order is in after the events of its history. An accepted order may still be rejected:
  the code does so when a market order found no liquidity.
\<close>

datatype life = NoEvents | Status order_status | Illegal

fun life_step :: "life \<Rightarrow> event_type \<Rightarrow> life" where
  "life_step NoEvents kNewRequested = Status kPendingNew"
| "life_step (Status kPendingNew) kAccepted_event = Status kAccepted"
| "life_step (Status kPendingNew) kRejected_event = Status kRejected"
| "life_step (Status kAccepted) kRejected_event = Status kRejected"
| "life_step (Status kAccepted) kPartialFill = Status kPartiallyFilled"
| "life_step (Status kAccepted) kFill = Status kFilled"
| "life_step (Status kAccepted) kCancelRequested = Status kAccepted"
| "life_step (Status kAccepted) kCancelled_event = Status kCancelled"
| "life_step (Status kPartiallyFilled) kPartialFill = Status kPartiallyFilled"
| "life_step (Status kPartiallyFilled) kFill = Status kFilled"
| "life_step (Status kPartiallyFilled) kCancelRequested = Status kPartiallyFilled"
| "life_step (Status kPartiallyFilled) kCancelled_event = Status kCancelled"
| "life_step _ _ = Illegal"

definition replay :: "order_event list \<Rightarrow> life" where
  "replay evs = foldl life_step NoEvents (map ev_type evs)"

definition life_of :: "order option \<Rightarrow> life" where
  "life_of x = (case x of None \<Rightarrow> NoEvents | Some ord \<Rightarrow> Status (o_status ord))"

abbreviation replay_of :: "'d order_manager \<Rightarrow> order_id \<Rightarrow> life" where
  "replay_of om k \<equiv> replay (GetEvents om k)"

lemma life_of_simps [simp]: "life_of None = NoEvents" "life_of (Some ord) = Status (o_status ord)"
  by (simp_all add: life_of_def)

lemma replay_cong: "om_events om' = om_events om \<Longrightarrow> replay_of om' k = replay_of om k"
  by (simp add: GetEvents_def)

lemma replay_AppendEvent [om_simps]:
  "replay_of (AppendEvent sq j ty d om) k =
     (if k = j then life_step (replay_of om k) ty else replay_of om k)"
  by (auto simp: GetEvents_def replay_def om_simps)

lemma replay_frame [om_simps]:
  "replay_of (with_db g om) k = replay_of om k" "replay_of (put_order j ord om) k = replay_of om k"
  "replay_of (om\<lparr>om_executions := es\<rparr>) k = replay_of om k" "replay_of (om\<lparr>om_clock := c\<rparr>) k = replay_of om k"
  "replay_of (om\<lparr>om_engine := e\<rparr>) k = replay_of om k" "replay_of (om\<lparr>om_next_order_id := n\<rparr>) k = replay_of om k"
  "replay_of (om\<lparr>om_risk := r\<rparr>) k = replay_of om k"
  by (simp_all add: GetEvents_def om_simps)

subsection \<open>The log is numbered and append-only\<close>

definition numbered :: "'d order_manager \<Rightarrow> bool" where
  "numbered om \<longleftrightarrow> map ev_event_id (om_events om) = map of_nat [1..<Suc (length (om_events om))]
     \<and> om_next_event_id om = of_nat (Suc (length (om_events om)))"

definition log_extends :: "'d order_manager \<Rightarrow> 'd order_manager \<Rightarrow> bool" where
  "log_extends om om' \<longleftrightarrow> (\<exists>es. om_events om' = om_events om @ es)
     \<and> (\<exists>fs. om_executions om' = om_executions om @ fs) \<and> (numbered om \<longrightarrow> numbered om')"

lemma log_extends_trans [trans]: "log_extends a b \<Longrightarrow> log_extends b c \<Longrightarrow> log_extends a c"
  unfolding log_extends_def by (metis append.assoc)

lemma log_extends_frame:
  "om_events om' = om_events om \<Longrightarrow> om_next_event_id om' = om_next_event_id om \<Longrightarrow>
   om_executions om' = om_executions om @ fs \<Longrightarrow> log_extends om om'"
  by (auto simp: log_extends_def numbered_def)

lemma log_extends_refl [simp]: "log_extends om om"
  by (rule log_extends_frame [where fs = "[]"]) simp_all

lemma log_extends_event:
  assumes "om_events om' = om_events om @ [e]" "ev_event_id e = om_next_event_id om"
    "om_next_event_id om' = om_next_event_id om + 1" "om_executions om' = om_executions om"
  shows "log_extends om om'"
  using assms by (auto simp: log_extends_def numbered_def)

lemma log_AppendEvent: "log_extends om (AppendEvent sq k ty d om)"
  by (rule log_extends_event [OF AppendEvent_simps(6)]) (simp_all add: om_simps)

lemma log_to_AppendEvent: "log_extends om0 om \<Longrightarrow> log_extends om0 (AppendEvent sq k ty d om)"
  by (rule log_extends_trans [OF _ log_AppendEvent])

lemma log_to_frame:
  "log_extends om0 om \<Longrightarrow> om_events om' = om_events om \<Longrightarrow> om_next_event_id om' = om_next_event_id om \<Longrightarrow>
   om_executions om' = om_executions om @ fs \<Longrightarrow> log_extends om0 om'"
  by (rule log_extends_trans [OF _ log_extends_frame])

lemma log_with_db: "log_extends om0 om \<Longrightarrow> log_extends om0 (with_db g om)"
  by (erule log_to_frame [where fs = "[]"]) (simp_all add: om_simps)

lemma log_put_order: "log_extends om0 om \<Longrightarrow> log_extends om0 (put_order k ord om)"
  by (erule log_to_frame [where fs = "[]"]) (simp_all add: om_simps)

lemma log_clock: "log_extends om0 om \<Longrightarrow> log_extends om0 (om\<lparr>om_clock := c\<rparr>)"
  by (erule log_to_frame [where fs = "[]"]) simp_all

lemma log_engine: "log_extends om0 om \<Longrightarrow> log_extends om0 (om\<lparr>om_engine := e\<rparr>)"
  by (erule log_to_frame [where fs = "[]"]) simp_all

lemmas log_intros = log_extends_refl log_to_AppendEvent log_with_db log_put_order log_clock log_engine

lemma log_apply_passive: "log_extends om0 om \<Longrightarrow> log_extends om0 (apply_passive sq f om)"
  by (auto simp: apply_passive_def om_Now_eq Let_def intro!: log_intros split: option.splits)

lemma log_ApplyFills: "ApplyFills sq ord fs om = (ord', om') \<Longrightarrow> log_extends om om'"
proof (induction sq ord fs om rule: ApplyFills.induct)
  case (2 sq ord f fs om)
  let ?om1 = "om\<lparr>om_executions := om_executions om @ [f]\<rparr>"
  let ?om4 = "AppendEvent sq (o_internal_id (fill_order f ord))
      (if o_remaining_qty (fill_order f ord) = 0 then kFill else kPartialFill) (fill_detail f)
      (apply_passive sq f (with_db (Database_SaveExecution sq f) ?om1))"
  have "log_extends om ?om1" by (rule log_extends_frame [where fs = "[f]"]) simp_all
  then have "log_extends om ?om4" by (intro log_intros log_apply_passive)
  moreover have "log_extends ?om4 om'"
    using "2.IH" [OF refl refl refl refl refl] "2.prems" by (simp add: Let_def)
  ultimately show ?case by (rule log_extends_trans)
qed simp

lemma log_accept_order:
  assumes "accept_order sq ord fills om = (ord', om')"
  shows "log_extends om om'"
proof -
  let ?om2 = "AppendEvent sq (o_internal_id ord) kAccepted_event '''' (om\<lparr>om_clock := stl (om_clock om)\<rparr>)"
  obtain ord1 om3 where a: "ApplyFills sq (ord\<lparr>o_status := kAccepted, o_updated_at := shd (om_clock om)\<rparr>) fills ?om2
      = (ord1, om3)" by force
  have "log_extends om ?om2" by (intro log_intros)
  from log_extends_trans [OF this log_ApplyFills [OF a]] assms a show ?thesis
    by (auto simp: accept_order_def om_Now_eq Let_def intro!: log_intros)
qed

theorem SubmitOrder_log:
  assumes "SubmitOrder sq req om = (res, om')"
  shows "log_extends om om'"
  using assms
proof (cases rule: SubmitOrder_cases)
  case (risk e risk' clk')
  have "log_extends om (om\<lparr>om_risk := risk', om_next_order_id := om_next_order_id om + 1\<rparr>)"
    by (rule log_extends_frame [where fs = "[]"]) simp_all
  then show ?thesis
    by (auto simp: risk(4) reject_by_risk_def NextOrderId_def om_Now_eq Let_def intro!: log_intros)
next
  case (matched risk' clk' om4 mres engine' clk'')
  have "log_extends om om4" by (rule log_extends_event [OF matched(10)]) (use matched in simp_all)
  then show ?thesis
    using matched(12)
    by (cases mres)
      (auto simp: reject_by_matching_def om_Now_eq Let_def intro!: log_intros
        intro: log_extends_trans log_accept_order split: prod.splits)
qed simp

theorem CancelOrder_log:
  assumes "OrderManager_CancelOrder sq req om = (res, om')"
  shows "log_extends om om'"
  using assms
  by (auto simp: OrderManager_CancelOrder_def om_Now_eq Let_def intro!: log_intros
      split: option.splits if_splits prod.splits sum.splits)

subsection \<open>The event log replays to the status\<close>

definition replays :: "'d order_manager \<Rightarrow> order_id \<Rightarrow> bool" where
  "replays om k \<longleftrightarrow> replay_of om k = life_of (um_find (om_orders om) k)"

definition working :: "order \<Rightarrow> bool" where
  "working ord \<longleftrightarrow> o_status ord = kAccepted \<or> o_status ord = kPartiallyFilled"

definition fill_status :: "quantity \<Rightarrow> order_status" where
  "fill_status remaining = (if remaining = 0 then kFilled else kPartiallyFilled)"

lemma life_step_fill:
  "s = kAccepted \<or> s = kPartiallyFilled \<Longrightarrow>
   life_step (Status s) (if r = 0 then kFill else kPartialFill) = Status (fill_status r)"
  by (auto simp: fill_status_def)

lemma replays_apply_passive:
  assumes p: "um_find (om_orders om) (fl_passive_order_id f) = Some p" "o_internal_id p = fl_passive_order_id f"
    "working p" and r: "replays om (fl_passive_order_id f)"
  shows "replays (apply_passive sq f om) k \<longleftrightarrow> replays om k"
    and "k \<noteq> fl_passive_order_id f \<Longrightarrow> replay_of (apply_passive sq f om) k = replay_of om k"
proof -
  have "replay_of (apply_passive sq f om) k = (if k = fl_passive_order_id f
      then Status (fill_status (o_remaining_qty p - fl_quantity f)) else replay_of om k)" for k
    using p r life_step_fill [of "o_status p"]
    by (auto simp: apply_passive_def om_simps om_Now_eq Let_def replays_def working_def fill_order_def fill_status_def)
  with p r show "replays (apply_passive sq f om) k \<longleftrightarrow> replays om k"
    and "k \<noteq> fl_passive_order_id f \<Longrightarrow> replay_of (apply_passive sq f om) k = replay_of om k"
    by (auto simp: replays_def apply_passive_orders passive_after_def fill_status_def)
qed

definition fillable :: "'d order_manager \<Rightarrow> order_id \<Rightarrow> fill \<Rightarrow> bool" where
  "fillable om a f \<longleftrightarrow> 0 < fl_quantity f \<and> fl_passive_order_id f \<noteq> a
     \<and> (\<exists>p. um_find (om_orders om) (fl_passive_order_id f) = Some p
            \<and> o_internal_id p = fl_passive_order_id f \<and> working p)"

lemma fills_exhausted: "\<forall>f \<in> set fs. 0 < fl_quantity f \<Longrightarrow> total_filled fs \<le> 0 \<Longrightarrow> fs = []"
proof (cases fs)
  case (Cons f gs)
  moreover assume "\<forall>f \<in> set fs. 0 < fl_quantity f" and "total_filled fs \<le> 0"
  moreover from this(1) Cons have "0 \<le> total_filled gs"
    unfolding total_filled_def by (intro sum_list_map_nonneg) auto
  ultimately show ?thesis by auto
qed

lemma ApplyFills_replays:
  assumes "ApplyFills sq ord fs om = (ord', om')" and "distinct (map fl_passive_order_id fs)"
    and "\<forall>f \<in> set fs. fillable om (o_internal_id ord) f" and "total_filled fs \<le> o_remaining_qty ord"
    and "\<forall>k. k \<noteq> o_internal_id ord \<longrightarrow> replays om k"
    and "replay_of om (o_internal_id ord) = Status s" and "s = kAccepted \<or> s = kPartiallyFilled"
  shows "(\<forall>k. k \<noteq> o_internal_id ord \<longrightarrow> replays om' k) \<and> replay_of om' (o_internal_id ord) =
     Status (if fs = [] then s else fill_status (o_remaining_qty ord'))"
  using assms
proof (induction sq ord fs om arbitrary: s rule: ApplyFills.induct)
  case (2 sq ord f fs om)
  let ?a = "o_internal_id ord" and ?p = "fl_passive_order_id f" and ?r = "o_remaining_qty ord - fl_quantity f"
  let ?om2 = "with_db (Database_SaveExecution sq f) (om\<lparr>om_executions := om_executions om @ [f]\<rparr>)"
  let ?om4 = "AppendEvent sq ?a (if ?r = 0 then kFill else kPartialFill) (fill_detail f) (apply_passive sq f ?om2)"
  have id': "o_internal_id (fill_order f ord) = ?a" and r': "o_remaining_qty (fill_order f ord) = ?r"
    by (simp_all add: fill_order_def)
  have rest: "ApplyFills sq (fill_order f ord) fs ?om4 = (ord', om')"
    using "2.prems"(1) by (simp add: Let_def id' r')
  have f: "fillable om ?a f" using "2.prems"(3) by simp
  then obtain p where p: "um_find (om_orders ?om2) ?p = Some p" "o_internal_id p = ?p" "working p" and a: "?p \<noteq> ?a"
    by (auto simp: fillable_def om_simps)
  have rep2: "replays ?om2 k \<longleftrightarrow> replays om k" for k by (simp add: replays_def om_simps)
  have "replays ?om2 ?p" using "2.prems"(5) a by (simp add: rep2)
  note P = replays_apply_passive [where sq = sq, OF p this]
  have others: "\<forall>k. k \<noteq> ?a \<longrightarrow> replays ?om4 k"
    using "2.prems"(5) P(1) by (simp add: replays_def om_simps)
  have own: "replay_of ?om4 ?a = Status (fill_status ?r)"
    using "2.prems"(6,7) P(2) [of ?a] a life_step_fill [of s ?r] by (simp add: om_simps)
  have left: "total_filled fs \<le> ?r" using "2.prems"(4) by simp
  show ?case
  proof (cases "?r = 0")
    case True
    then have "fs = []" using left "2.prems"(3) by (intro fills_exhausted) (auto simp: fillable_def)
    with rest others own r' show ?thesis by simp
  next
    case False
    have "\<forall>g \<in> set fs. fl_passive_order_id g \<noteq> ?p" using "2.prems"(2) by (auto simp: image_iff)
    then have "\<forall>g \<in> set fs. fillable ?om4 ?a g"
      using "2.prems"(3) by (auto simp: fillable_def om_simps apply_passive_orders)
    from "2.IH" [OF refl refl refl refl refl, unfolded id' r', OF rest _ this left others own] "2.prems"(2) False
    show ?thesis by (auto simp: fill_status_def ApplyFills_frame [OF rest] r' split: if_splits)
  qed
qed simp

lemma accept_order_replays:
  assumes acc: "accept_order sq ord fs om = (ord', om')" and dist: "distinct (map fl_passive_order_id fs)"
    and fills: "\<forall>f \<in> set fs. fillable om (o_internal_id ord) f"
    and qty: "o_filled_qty ord = 0" "0 < o_remaining_qty ord" "total_filled fs \<le> o_remaining_qty ord"
    and others: "\<forall>k. k \<noteq> o_internal_id ord \<longrightarrow> replays om k"
    and own: "replay_of om (o_internal_id ord) = Status kPendingNew"
  shows "replays om' k"
proof -
  let ?a = "o_internal_id ord" and ?ord0 = "ord\<lparr>o_status := kAccepted, o_updated_at := shd (om_clock om)\<rparr>"
  let ?om2 = "AppendEvent sq ?a kAccepted_event '''' (om\<lparr>om_clock := stl (om_clock om)\<rparr>)"
  obtain ord1 om3 where a: "ApplyFills sq ?ord0 fs ?om2 = (ord1, om3)" by force
  note F = ApplyFills_frame [OF a]
  have "\<forall>k. k \<noteq> o_internal_id ?ord0 \<longrightarrow> replays ?om2 k" "replay_of ?om2 (o_internal_id ?ord0) = Status kAccepted"
    "\<forall>f \<in> set fs. fillable ?om2 (o_internal_id ?ord0) f" "total_filled fs \<le> o_remaining_qty ?ord0"
    using others own fills qty by (simp_all add: replays_def om_simps fillable_def)
  from ApplyFills_replays [OF a dist this(3,4,1,2)]
  have A: "k \<noteq> ?a \<Longrightarrow> replays om3 k" "replay_of om3 ?a =
      Status (if fs = [] then kAccepted else fill_status (o_remaining_qty ord1))" for k
    by simp_all
  have pos: "fs \<noteq> [] \<Longrightarrow> 0 < total_filled fs"
    using fills_exhausted [of fs] fills by (force simp: fillable_def)
  have "replay_of om' ?a = Status (o_status ord')"
    using acc a A(2) F qty pos by (cases "fs = []")
      (auto simp: accept_order_def om_simps om_Now_eq Let_def final_status_def fill_status_def)
  moreover have "um_find (om_orders om') ?a = Some ord'"
    and "k \<noteq> ?a \<Longrightarrow> replays om' k = replays om3 k"
    using acc a by (auto simp: accept_order_def om_simps om_Now_eq Let_def umap_simps replays_def split: if_splits)
  ultimately show ?thesis using A(1) by (cases "k = ?a") (auto simp: replays_def)
qed

lemma working_open: "is_open ord \<Longrightarrow> working ord"
  by (auto simp: is_open_def working_def)

theorem SubmitOrder_replays:
  assumes ok: "om_ok om" and fresh: "om_next_order_id om \<noteq> - 1" and s: "SubmitOrder sq req om = (res, om')"
    and R: "\<forall>k. replays om k"
  shows "replays om' k"
  using s
proof (cases rule: SubmitOrder_cases)
  let ?k = "om_next_order_id om"
  have new: "replay_of om ?k = NoEvents" using R om_ok_fresh(1) [OF ok] by (simp add: replays_def)
  {
    case (risk e risk' clk')
    show ?thesis using R new unfolding risk(4)
      by (auto simp: reject_by_risk_def NextOrderId_def om_simps Let_def replays_def umap_simps order_of_request_def)
  next
    case (matched risk' clk' om4 mres engine' clk'')
    let ?ord = "order_of_request ?k req kPendingNew (shd clk') (shd clk')"
    have rep4: "replay_of om4 k = (if k = ?k then Status kPendingNew else replay_of om k)" for k
      using new by (auto simp: GetEvents_def matched(10) replay_def)
    show ?thesis
    proof (cases mres)
      case (Inl err)
      then have om': "om' = reject_by_matching sq ?ord err om4" using matched(12) by simp
      show ?thesis using R rep4
        by (auto simp: om' reject_by_matching_def om_simps Let_def replays_def umap_simps matched(5))
    next
      case (Inr r)
      note add = matched(3) [unfolded Inr]
      obtain ord' where acc: "accept_order sq ?ord (ar_fills r) om4 = (ord', om')"
        using matched(12) Inr by (auto split: prod.splits)
      note D = om_okD [OF ok]
      have "fillable om4 ?k f" if "f \<in> set (ar_fills r)" for f
        using engine_venue.fill_hits_open [OF D(1,3) add that] engine_venue.add_passive_neq [OF D(1) add that] D(4)
        by (auto simp: fillable_def matched(5) intro: working_open)
      then show ?thesis
        using engine_venue.add_distinct [OF D(1) add] engine_venue.add_total [OF D(1) add] rep4 R
        by (intro accept_order_replays [OF acc]) (auto simp: order_of_request_def replays_def matched(5))
    qed
  }
qed (use R in simp)

theorem CancelOrder_replays:
  assumes ok: "om_ok om" and c: "OrderManager_CancelOrder sq req om = (res, om')" and R: "\<forall>k. replays om k"
  shows "replays om' k"
proof -
  note D = om_okD [OF ok]
  have "life_step (Status (o_status ord)) kCancelRequested = Status (o_status ord)
      \<and> life_step (Status (o_status ord)) kCancelled_event = Status kCancelled"
    if "um_find (om_orders om) j = Some ord" "o_status ord \<notin> {kFilled, kCancelled, kRejected}" for j ord
    using that D(4) [OF that(1)] by (cases "o_status ord") (auto simp: order_ok_def status_ok_def)
  then show ?thesis
    using c R D(4)
    by (auto simp: OrderManager_CancelOrder_def om_simps Let_def replays_def umap_simps
        split: option.splits if_splits prod.splits sum.splits)
qed

subsection \<open>The three outcomes of SubmitOrder\<close>

text \<open>On a manager that satisfies the invariant, matching never rejects a valid request.\<close>

lemma SubmitOrder_outcome:
  assumes ok: "om_ok om" and fresh: "om_next_order_id om \<noteq> - 1" and s: "SubmitOrder sq req om = (res, om')"
  obtains (invalid) e where "\<not> valid_request req" "res = Inl e" "om' = om"
      "e = (if nr_quantity req \<le> 0 then kInvalidQuantity
            else if nr_type req = kLimit \<and> nr_price req \<le> 0 then kInvalidPrice else kInvalidSymbol)"
  | (risk) e risk' clk' where "valid_request req"
      "Check (om_risk om) (risk_request_of req) (om_clock om) = (Inl e, risk', clk')"
      "res = Inl e" "om' = reject_by_risk sq req e (om\<lparr>om_risk := risk', om_clock := clk'\<rparr>)"
  | (accepted) ord r risk' clk' om4 clk'' where "valid_request req"
      "Check (om_risk om) (risk_request_of req) (om_clock om) = (Inr (), risk', clk')"
      "MatchingEngine_AddOrder (om_engine om) (nr_symbol req) (om_next_order_id om) (nr_side req)
         (nr_type req) (nr_price req) (nr_quantity req) (stl (stl clk')) = (Inr r, om_engine om', clk'')"
      "res = Inr ord" "om_orders om4 = om_orders om"
      "accept_order sq (order_of_request (om_next_order_id om) req kPendingNew (shd clk') (shd clk'))
         (ar_fills r) om4 = (ord, om')"
      "order_ok ord" "um_find (om_orders om') (om_next_order_id om) = Some ord"
      "om_executions om' = om_executions om @ ar_fills r" "o_filled_qty ord = total_filled (ar_fills r)"
      "\<And>k. k \<noteq> om_next_order_id om \<Longrightarrow>
         filled_by (ar_fills r) k (um_find (om_orders om) k) (um_find (om_orders om') k)"
      "om_next_order_id om' = om_next_order_id om + 1"
proof -
  note D = om_okD [OF ok]
  from s show thesis
  proof (cases rule: SubmitOrder_cases)
    case (matched risk' clk' om4 mres engine' clk'')
    have "\<exists>r v c. MatchingEngine_AddOrder (om_engine om) (nr_symbol req) (om_next_order_id om) (nr_side req)
        (nr_type req) (nr_price req) (nr_quantity req) (stl (stl clk')) = (Inr r, v, c)"
      using engine_venue.add_accepts [OF D(1)] matched(1) om_ok_fresh(2) [OF ok] by (simp add: valid_request_def)
    with matched(3) obtain r where r: "mres = Inr r" by auto
    obtain ord' om5 where a: "accept_order sq (order_of_request (om_next_order_id om) req kPendingNew (shd clk') (shd clk'))
        (ar_fills r) om4 = (ord', om5)" by force
    with matched(12) r have "om' = om5" "res = Inr ord'" by simp_all
    with om_ok_matched [OF ok fresh matched(1) matched(3) [unfolded r] matched(4-7) a] matched(1,2,3,5) r a show thesis
      by (intro accepted [of risk' clk' r clk'' ord' om4]) auto
  qed (erule (3) invalid, erule (3) risk)
qed

theorem SubmitOrder_evolves:
  assumes ok: "om_ok om" and fresh: "om_next_order_id om \<noteq> - 1" and s: "SubmitOrder sq req om = (res, om')"
    and k: "um_find (om_orders om) k = Some ord"
  shows "\<exists>ord'. um_find (om_orders om') k = Some ord' \<and> evolves ord ord'"
proof -
  note D = om_okD [OF ok]
  have old: "k \<noteq> om_next_order_id om" using k om_ok_fresh(1) [OF ok] by auto
  from ok fresh s show ?thesis
  proof (cases rule: SubmitOrder_outcome)
    case (risk e risk' clk')
    with k old show ?thesis by (intro exI [of _ ord]) (simp add: om_simps umap_simps)
  next
    case (accepted ord0 r risk' clk' om4 clk'')
    from accepted(11) [OF old] show ?thesis
    proof (cases rule: filled_by_cases)
      case (3 ord1 f t)
      with k have f: "f \<in> set (ar_fills r)" and fk: "fl_passive_order_id f = k" "ord1 = ord"
        by (auto dest: fill_of_SomeD)
      from engine_venue.fill_hits_open [OF D(1,3) accepted(3) f] k 3 fk show ?thesis
        by (auto intro: evolves_passive)
    qed (use k in auto)
  qed (use k in auto)
qed

text \<open>CancelOrder succeeds exactly on open orders.\<close>

lemma CancelOrder_open:
  assumes ok: "om_ok om" and c: "OrderManager_CancelOrder sq req om = (res, om')"
    and k: "um_find (om_orders om) (cr_order_id req) = Some ord" and opn: "is_open ord"
  obtains now where "res = Inr (ord\<lparr>o_status := kCancelled, o_updated_at := now\<rparr>)"
    and "um_find (om_orders om') = (um_find (om_orders om))(cr_order_id req \<mapsto> ord\<lparr>o_status := kCancelled, o_updated_at := now\<rparr>)"
    and "om_executions om' = om_executions om"
proof -
  note D = om_okD [OF ok]
  have idk: "o_internal_id ord = cr_order_id req" using D(4) [OF k] by simp
  obtain e v where "MatchingEngine_CancelOrder (om_engine om) (o_symbol ord) (cr_order_id req) = (Inr e, v)"
    using engine_venue.tracks_cancel [OF D(1,3) k opn, of "ord\<lparr>o_status := kCancelled\<rparr>"] by (auto simp: is_open_def)
  with c k opn idk show thesis
    by (cases rule: CancelOrder_cases)
      (auto simp: is_open_def umap_simps fun_eq_iff intro: that)
qed

lemma CancelOrder_not_open:
  assumes ok: "om_ok om" and c: "OrderManager_CancelOrder sq req om = (res, om')"
    and k: "\<And>ord. um_find (om_orders om) (cr_order_id req) = Some ord \<Longrightarrow> \<not> is_open ord"
  shows "(\<exists>e. res = Inl e) \<and> om_orders om' = om_orders om \<and> om_executions om' = om_executions om
    \<and> live (om_engine om') = live (om_engine om)"
proof -
  note D = om_okD [OF ok]
  from c show ?thesis
  proof (cases rule: CancelOrder_cases)
    case (failed ord err engine')
    with engine_venue.cancel_closed [OF D(1,3) failed(1) k [OF failed(1)]] D(4) [OF failed(1)]
    show ?thesis by (simp add: om_simps)
  next
    case (cancelled ord e engine' now)
    with engine_venue.cancel_closed [OF D(1,3) cancelled(1) k [OF cancelled(1)]] D(4) [OF cancelled(1)]
    show ?thesis by simp
  qed simp_all
qed

theorem CancelOrder_evolves:
  assumes ok: "om_ok om" and c: "OrderManager_CancelOrder sq req om = (res, om')"
    and k: "um_find (om_orders om) k = Some ord"
  shows "\<exists>ord'. um_find (om_orders om') k = Some ord' \<and> evolves ord ord'"
proof (cases "\<exists>ord0. um_find (om_orders om) (cr_order_id req) = Some ord0 \<and> is_open ord0")
  case True
  then obtain ord0 where o0: "um_find (om_orders om) (cr_order_id req) = Some ord0" "is_open ord0" by blast
  from CancelOrder_open [OF ok c this] obtain now where
    "um_find (om_orders om') = (um_find (om_orders om))(cr_order_id req \<mapsto> ord0\<lparr>o_status := kCancelled, o_updated_at := now\<rparr>)"
    by blast
  with k o0 evolves_cancelled [OF o0(2), of now] show ?thesis by (cases "k = cr_order_id req") auto
next
  case False
  with CancelOrder_not_open [OF ok c] k show ?thesis by auto
qed

text \<open>The order that SubmitOrder returns when it accepts.\<close>

lemma accept_order_terms:
  assumes "accept_order sq (order_of_request oid req kPendingNew c c) fills om = (ord, om')"
  shows "terms ord = terms (order_of_request oid req kPendingNew c c)"
proof -
  let ?ord0 = "order_of_request oid req kPendingNew c c"
  obtain ord1 om3 where a: "ApplyFills sq (?ord0\<lparr>o_status := kAccepted, o_updated_at := shd (om_clock om)\<rparr>) fills
      (AppendEvent sq oid kAccepted_event '''' (om\<lparr>om_clock := stl (om_clock om)\<rparr>)) = (ord1, om3)" by force
  have "terms ord = terms ord1"
    using assms a by (auto simp: accept_order_def om_Now_eq Let_def terms_def order_of_request_def)
  then show ?thesis
    using ApplyFills_frame [OF a] by (simp add: terms_def order_of_request_def)
qed

lemma accept_order_result:
  assumes acc: "accept_order sq (order_of_request oid req kPendingNew c c) fills om = (ord, om')"
    and "total_filled fills \<le> nr_quantity req" "0 \<le> total_filled fills" "0 < nr_quantity req"
  shows "terms ord = terms (order_of_request oid req kPendingNew c c)"
    "o_remaining_qty ord = nr_quantity req - total_filled fills"
    "o_status ord = (if total_filled fills = nr_quantity req then kFilled
       else if 0 < total_filled fills then kPartiallyFilled
       else if nr_type req = kLimit then kAccepted else kRejected)"
proof -
  let ?ord0 = "order_of_request oid req kPendingNew c c"
  let ?om2 = "AppendEvent sq oid kAccepted_event '''' (om\<lparr>om_clock := stl (om_clock om)\<rparr>)"
  obtain ord1 om3 where a: "ApplyFills sq (?ord0\<lparr>o_status := kAccepted, o_updated_at := shd (om_clock om)\<rparr>) fills ?om2
      = (ord1, om3)" by force
  have ord: "ord = ord1\<lparr>o_status := final_status ord1, o_updated_at := o_updated_at ord\<rparr>"
    using acc a by (auto simp: accept_order_def om_Now_eq Let_def)
  have ord1: "ord1 = ?ord0\<lparr>o_status := kAccepted, o_updated_at := shd (om_clock om),
      o_filled_qty := total_filled fills, o_remaining_qty := nr_quantity req - total_filled fills\<rparr>"
    using ApplyFills_frame [OF a] by (simp add: order_of_request_def)
  show "terms ord = terms ?ord0" by (rule accept_order_terms [OF acc])
  show "o_remaining_qty ord = nr_quantity req - total_filled fills"
    by (subst ord) (simp add: ord1)
  have "o_status ord = final_status ord1" by (subst ord) simp
  then show "o_status ord = (if total_filled fills = nr_quantity req then kFilled
       else if 0 < total_filled fills then kPartiallyFilled
       else if nr_type req = kLimit then kAccepted else kRejected)"
    using assms(3) by (cases "nr_type req") (simp_all add: ord1 final_status_def order_of_request_def)
qed

text \<open>What CancelOrder does to the live orders.\<close>

lemma CancelOrder_live:
  assumes ok: "om_ok om" and c: "OrderManager_CancelOrder sq req om = (Inr ord', om')"
    and k: "um_find (om_orders om) (cr_order_id req) = Some ord" and opn: "is_open ord"
  shows "live (om_engine om') = (\<lambda>sv j. if sv = sym_value (o_symbol ord) \<and> j = cr_order_id req
    then None else live (om_engine om) sv j)"
proof -
  note D = om_okD [OF ok]
  have idk: "o_internal_id ord = cr_order_id req" using D(4) [OF k] by simp
  have "map_option entry_view (live (om_engine om) (sym_value (o_symbol ord)) (cr_order_id req)) \<noteq> None"
    using D(3) k opn by (simp add: tracks_def order_view_def)
  then obtain e where "live (om_engine om) (sym_value (o_symbol ord)) (cr_order_id req) = Some e" by auto
  note gone = engine_venue.cancel_alive [OF D(1) this]
  from c show ?thesis
    by (cases rule: CancelOrder_cases) (use gone k idk in auto)
qed

end
