(* ===== verification/Book_Properties.thy ===== *)
theory Book_Properties
  imports Venue
begin

section \<open>Properties of the order book\<close>

text \<open>
  What the order book guarantees to its callers, over every book that its public operations
  can build (\<open>reachable_book\<close>) or over every book that satisfies the invariant \<open>book_ok\<close>.
\<close>

subsection \<open>Reachable books\<close>

text \<open>The books that a sequence of calls of AddOrder and CancelOrder builds, with any arguments.\<close>

inductive reachable_book :: "symbol \<Rightarrow> order_book \<Rightarrow> bool" for s where
  new_book: "reachable_book s (OrderBook s)"
| add_step: "reachable_book s b \<Longrightarrow> OrderBook_AddOrder b oid sd ty p qty clk = (res, b', clk') \<Longrightarrow>
    reachable_book s b'"
| cancel_step: "reachable_book s b \<Longrightarrow> OrderBook_CancelOrder b oid = (res', b') \<Longrightarrow> reachable_book s b'"

lemma reachable_book_inv: "reachable_book s b \<Longrightarrow> book_ok b \<and> uncrossed b \<and> ob_symbol b = s"
  by (induction rule: reachable_book.induct) (auto dest: AddOrder_ok CancelOrder_ok)

lemma add_reachable:
  "reachable_book s b \<Longrightarrow> reachable_book s (fst (snd (OrderBook_AddOrder b oid sd ty p qty clk)))"
  by (rule add_step [where res = "fst (OrderBook_AddOrder b oid sd ty p qty clk)"
        and clk' = "snd (snd (OrderBook_AddOrder b oid sd ty p qty clk))"]) auto

text \<open>A small book for concrete evaluations: asks at 100 (5 and 7) and 101 (4).\<close>

definition sample_clock :: clock where
  "sample_clock = sconst 9"

definition sample_book :: order_book where
  "sample_book =
     (let s = \<lparr>sym_value = ''7203''\<rparr>;
          b1 = fst (snd (OrderBook_AddOrder (OrderBook s) 1 kSell kLimit 100 5 sample_clock));
          b2 = fst (snd (OrderBook_AddOrder b1 2 kSell kLimit 101 4 sample_clock))
      in fst (snd (OrderBook_AddOrder b2 3 kSell kLimit 100 7 sample_clock)))"

lemmas book_eval = OrderBook_AddOrder_def OrderBook_CancelOrder_def OrderBook_def MatchAgainst_def
  Rest_def Now_def om_push_back_def same_key_def match_front_def mk_fill_def Let_def um_emplace_def
  um_erase_def cancel_in_def

lemma sample_book_eq:
  "sample_book = \<lparr>ob_symbol = \<lparr>sym_value = ''7203''\<rparr>, ob_bids = [],
     ob_asks = [(100, [\<lparr>be_order_id = 1, be_side = kSell, be_price = 100, be_remaining_qty = 5, be_timestamp = 9\<rparr>,
                       \<lparr>be_order_id = 3, be_side = kSell, be_price = 100, be_remaining_qty = 7, be_timestamp = 9\<rparr>]),
                (101, [\<lparr>be_order_id = 2, be_side = kSell, be_price = 101, be_remaining_qty = 4, be_timestamp = 9\<rparr>])],
     ob_id_index = [(1, \<lparr>ix_side = kSell, ix_price = 100\<rparr>), (2, \<lparr>ix_side = kSell, ix_price = 101\<rparr>),
                    (3, \<lparr>ix_side = kSell, ix_price = 100\<rparr>)],
     ob_next_execution_id = 1\<rparr>"
  by (simp add: sample_book_def sample_clock_def book_eval)

lemma sample_book_reachable: "reachable_book \<lparr>sym_value = ''7203''\<rparr> sample_book"
  by (simp add: sample_book_def Let_def add_reachable new_book)

lemmas sample_book_ok = reachable_book_inv [OF sample_book_reachable, THEN conjunct1]

text \<open>A buy of 9 at 100 against the sample book: 5 from order 1, then 4 from order 3.\<close>

definition sample_fills :: "fill list" where
  "sample_fills =
     [\<lparr>fl_execution_id = 1, fl_symbol = \<lparr>sym_value = ''7203''\<rparr>, fl_aggressive_order_id = 4,
       fl_passive_order_id = 1, fl_aggressive_side = kBuy, fl_price = 100, fl_quantity = 5, fl_timestamp = 9\<rparr>,
      \<lparr>fl_execution_id = 2, fl_symbol = \<lparr>sym_value = ''7203''\<rparr>, fl_aggressive_order_id = 4,
       fl_passive_order_id = 3, fl_aggressive_side = kBuy, fl_price = 100, fl_quantity = 4, fl_timestamp = 9\<rparr>]"

definition sample_after :: order_book where
  "sample_after = fst (snd (OrderBook_AddOrder sample_book 4 kBuy kLimit 100 9 sample_clock))"

lemma sample_trade:
  "OrderBook_AddOrder sample_book 4 kBuy kLimit 100 9 sample_clock =
     (Inr \<lparr>ar_fills = sample_fills, ar_resting = None\<rparr>, sample_after, sample_clock)"
  by (simp add: sample_after_def sample_book_eq sample_clock_def sample_fills_def book_eval)

text \<open>A buy of 20 at 100 takes the level at 100 and rests the remaining 8.\<close>

definition sample_result :: add_order_result where
  "sample_result = (case OrderBook_AddOrder sample_book 4 kBuy kLimit 100 20 sample_clock of
     (Inr r, _) \<Rightarrow> r | (Inl _, _) \<Rightarrow> \<lparr>ar_fills = [], ar_resting = None\<rparr>)"

definition sample_swept :: order_book where
  "sample_swept = fst (snd (OrderBook_AddOrder sample_book 4 kBuy kLimit 100 20 sample_clock))"

lemma sample_rest:
  "OrderBook_AddOrder sample_book 4 kBuy kLimit 100 20 sample_clock = (Inr sample_result, sample_swept, sample_clock)"
  by (simp add: sample_result_def sample_swept_def sample_book_eq sample_clock_def book_eval)

lemma sample_result_facts:
  "total_filled (ar_fills sample_result) = 12" "length (ar_fills sample_result) = 2"
  "ar_resting sample_result = Some \<lparr>be_order_id = 4, be_side = kBuy, be_price = 100,
     be_remaining_qty = 8, be_timestamp = 9\<rparr>"
  "map be_order_id (om_flat (ob_asks sample_swept)) = [2]"
  by (simp_all add: sample_result_def sample_swept_def sample_book_eq sample_clock_def book_eval)

text \<open>A buy of 3 at 99 only rests.\<close>

definition sample_quiet :: order_book where
  "sample_quiet = fst (snd (OrderBook_AddOrder sample_book 4 kBuy kLimit 99 3 sample_clock))"

lemma sample_no_trade:
  "OrderBook_AddOrder sample_book 4 kBuy kLimit 99 3 sample_clock =
     (Inr \<lparr>ar_fills = [], ar_resting = Some \<lparr>be_order_id = 4, be_side = kBuy, be_price = 99,
        be_remaining_qty = 3, be_timestamp = 9\<rparr>\<rparr>, sample_quiet, sample_clock)"
  by (simp add: sample_quiet_def sample_book_eq sample_clock_def book_eval)

subsection \<open>Lemmas shared by the properties\<close>

lemma mk_fills_nth: "i < length fs \<Longrightarrow>
    mk_fills tk n fs ! i = mk_fill tk (n + of_nat i) (fst (fs ! i)) (snd (fs ! i))"
  by (induction tk n fs arbitrary: i rule: mk_fills.induct)
    (auto simp: nth_Cons algebra_simps split: nat.splits)

lemma set_insert_by_priority [simp]: "set (insert_by_priority sd e es) = insert e (set es)"
  by (metis mset_insert_by_priority set_mset_add_mset_insert set_mset_mset)

lemma take_nil_fills: "take_liquidity ok es r = ([], es', r') \<Longrightarrow> es' = es \<and> r' = r"
  by (cases es) (auto split: if_splits prod.splits)

lemma filter_insert_by_priority:
  assumes "be_order_id e \<notin> be_order_id ` set es"
  shows "filter (\<lambda>x. be_order_id x \<noteq> be_order_id e) (insert_by_priority sd e es) = es"
proof -
  let ?P = "\<lambda>x. be_order_id x \<noteq> be_order_id e" and ?Q = "\<lambda>x. \<not> side_cmp sd (be_price e) (be_price x)"
  have "filter ?P (insert_by_priority sd e es) = filter ?P (takeWhile ?Q es @ dropWhile ?Q es)"
    unfolding insert_by_priority_def filter_append by simp
  also have "\<dots> = es" using filter_neq_id [OF assms] by simp
  finally show ?thesis .
qed

lemma AddOrder_sides:
  "book_ok b \<Longrightarrow> OrderBook_AddOrder b oid sd ty p qty clk = (Inr r, b', clk') \<Longrightarrow>
   \<exists>fs es' r'. take_liquidity (marketable ty sd p) (om_flat (book_side (opposite sd) b)) qty = (fs, es', r')
     \<and> ar_fills r = mk_fills (taker_of b oid sd ty (shd clk)) (ob_next_execution_id b) fs
     \<and> om_flat (book_side (opposite sd) b') = es' \<and> total_filled (ar_fills r) = qty - r' \<and> 0 \<le> r'
     \<and> ar_resting r = (if r' > 0 \<and> ty \<noteq> kMarket then Some \<lparr>be_order_id = oid, be_side = sd, be_price = p,
          be_remaining_qty = r', be_timestamp = shd clk\<rparr> else None)
     \<and> om_flat (book_side sd b') = (case ar_resting r of None \<Rightarrow> om_flat (book_side sd b)
          | Some e \<Rightarrow> insert_by_priority sd e (om_flat (book_side sd b)))"
  for b b' :: order_book
proof -
  assume ok: "book_ok b" and add: "OrderBook_AddOrder b oid sd ty p qty clk = (Inr r, b', clk')"
  from ok add show ?thesis
  proof (cases rule: AddOrder_cases [OF ok add, case_names error added])
    case (added fs rest)
    from added(4) show ?thesis
    proof (rule spec_add_sides, goal_cases)
      case (1 es' r')
      with added take_conserves [OF 1(1)] take_leftover_nonneg [OF 1(1)] show ?thesis by simp
    qed
  qed simp
qed

lemma AddOrder_conserves_total:
  assumes "book_ok b" and "OrderBook_AddOrder b oid sd ty p qty clk = (Inr r, b', clk')"
  shows "0 \<le> total_filled (ar_fills r) \<and> total_filled (ar_fills r) \<le> qty"
proof
  show "0 \<le> total_filled (ar_fills r)"
    using AddOrder_fills [OF assms] unfolding total_filled_def
    by (intro sum_list_map_nonneg ballI) (meson less_imp_le)
qed (use AddOrder_fills [OF assms] in blast)

text \<open>A side read level by level is ordered by price.\<close>

lemma om_flat_sorted:
  assumes "om_sorted (side_cmp sd) lad" and "ladder_ok sd lad"
  shows "sorted_wrt (\<lambda>x y. \<not> side_cmp sd (be_price y) (be_price x)) (om_flat lad)"
  using assms
proof (induction lad)
  case (Cons level lad)
  obtain p q where level: "level = (p, q)" by force
  have q: "sorted_wrt (\<lambda>x y. \<not> side_cmp sd (be_price y) (be_price x)) q"
    using Cons.prems level side_order.before_irrefl by (intro sorted_wrt_mono_rel [OF _ sorted_wrt_true]) auto
  have "\<not> side_cmp sd (be_price y) (be_price x)" if "x \<in> set q" "y \<in> set (om_flat lad)" for x y
  proof -
    have "be_price x = p" using Cons.prems level that by auto
    moreover have "be_price y \<in> fst ` set lad"
      using Cons.prems level ladder_ok_entries that(2) by auto
    ultimately show ?thesis
      using Cons.prems level side_order.before_asym by auto
  qed
  with q Cons level show ?case by (simp add: sorted_wrt_append)
qed simp

lemma book_side_sorted:
  "book_ok b \<Longrightarrow> sorted_wrt (\<lambda>x y. \<not> side_cmp sd (be_price y) (be_price x)) (om_flat (book_side sd b))"
  using book_ok_side om_flat_sorted by blast

text \<open>When the best order of a side is out of reach of a limit, the whole side is.\<close>

lemma unmarketable_side:
  assumes "sorted_wrt (\<lambda>x y. \<not> side_cmp (opposite sd) (be_price y) (be_price x)) es"
    and "es = [] \<or> \<not> marketable ty sd p (hd es)"
  shows "\<forall>e \<in> set es. \<not> marketable ty sd p e"
proof (cases es)
  case (Cons e rest)
  with assms show ?thesis by (cases sd) (fastforce simp: marketable_def)+
qed simp

subsection \<open>Properties\<close>

text \<open>
  C3: \<open>OrderBook::AddOrder\<close> refines the abstract price-time priority book. Each documented
  input error is reported in the code's order and changes nothing, the clock included;
  otherwise the fills, the resting order and both sides of the new book are those of
  \<open>spec_add\<close>, and the next execution id advances by the number of fills.
\<close>

theorem AddOrder_refines_priority_book:
  assumes "book_ok b"
  shows "case OrderBook_AddOrder b oid sd ty p qty clk of (res, b', clk') \<Rightarrow>
    if qty \<le> 0 then res = Inl kInvalidQuantity \<and> b' = b \<and> clk' = clk
    else if ty = kLimit \<and> p \<le> 0 then res = Inl kInvalidPrice \<and> b' = b \<and> clk' = clk
    else if oid \<in> be_order_id ` set (book_entries b) then res = Inl kDuplicateOrder \<and> b' = b \<and> clk' = clk
    else (case spec_add (abs_book b) oid sd ty p qty (shd clk) of (fs, rest, pb') \<Rightarrow>
      res = Inr \<lparr>ar_fills = mk_fills (taker_of b oid sd ty (shd clk)) (ob_next_execution_id b) fs,
                 ar_resting = rest\<rparr>
      \<and> abs_book b' = pb' \<and> book_ok b' \<and> clk' = stl clk \<and> ob_symbol b' = ob_symbol b
      \<and> ob_next_execution_id b' = ob_next_execution_id b + of_nat (length fs))"
proof (cases "qty \<le> 0 \<or> ty = kLimit \<and> p \<le> 0 \<or> oid \<in> be_order_id ` set (book_entries b)")
  case True
  then show ?thesis using assms AddOrder_errors by (auto split: prod.splits)
next
  case False
  obtain fs rest pb' where spec: "spec_add (abs_book b) oid sd ty p qty (shd clk) = (fs, rest, pb')"
    by (metis prod_cases3)
  from AddOrder_spec [OF assms _ _ _ spec] False spec show ?thesis by auto
qed

lemma AddOrder_refines_priority_book_witness:
  "case OrderBook_AddOrder sample_book 4 kBuy kLimit 100 9 sample_clock of (res, b', clk') \<Rightarrow>
     \<exists>r. res = Inr r \<and> length (ar_fills r) = 2 \<and> abs_book b' =
       snd (snd (spec_add (abs_book sample_book) 4 kBuy kLimit 100 9 9))"
  using AddOrder_refines_priority_book [OF sample_book_ok,
      where oid = 4 and sd = kBuy and ty = kLimit and p = 100 and qty = 9 and clk = sample_clock]
  unfolding sample_trade
  by (auto simp: sample_book_eq book_entries_def om_flat_def sample_clock_def sample_fills_def split: prod.splits)

text \<open>
  Every book that calls of AddOrder and CancelOrder build, with any arguments and clock,
  satisfies the invariant (both sides strictly ordered by price without empty levels, every
  entry at its level with positive quantity, unique ids, and an id index that holds exactly
  the resting orders), is uncrossed, and keeps its symbol; each side read front to back is
  ordered by price.
\<close>

theorem reachable_book_correct:
  assumes "reachable_book s b"
  shows "book_ok b \<and> uncrossed b \<and> ob_symbol b = s
    \<and> sorted_wrt (\<lambda>x y. be_price y \<le> be_price x) (om_flat (ob_bids b))
    \<and> sorted_wrt (\<lambda>x y. be_price x \<le> be_price y) (om_flat (ob_asks b))"
  using reachable_book_inv [OF assms] book_side_sorted [of b kBuy] book_side_sorted [of b kSell]
  by (simp add: not_less)

lemma reachable_book_correct_witness:
  "uncrossed sample_book \<and> length (om_flat (ob_asks sample_book)) = 3"
  using reachable_book_correct [OF sample_book_reachable] by (simp add: sample_book_eq)

text \<open>
  C13: price-time priority in closed form. The i-th fill of an accepted order trades with the
  i-th order of the opposite side in priority order, at that order's price, which satisfies
  the limit, for all of it or for what the orders before it have left of the incoming
  quantity; execution ids are consecutive.
\<close>

theorem fills_follow_priority:
  assumes "book_ok b" and "OrderBook_AddOrder b oid sd ty p qty clk = (Inr r, b', clk')"
    and "i < length (ar_fills r)"
  defines "side_orders \<equiv> om_flat (book_side (opposite sd) b)"
  shows "i < length side_orders \<and> marketable ty sd p (side_orders ! i)
    \<and> ar_fills r ! i =
       \<lparr>fl_execution_id = ob_next_execution_id b + of_nat i, fl_symbol = ob_symbol b,
        fl_aggressive_order_id = oid, fl_passive_order_id = be_order_id (side_orders ! i),
        fl_aggressive_side = sd, fl_price = be_price (side_orders ! i),
        fl_quantity = min (be_remaining_qty (side_orders ! i))
          (qty - sum_list (map be_remaining_qty (take i side_orders))),
        fl_timestamp = shd clk\<rparr>"
proof -
  from AddOrder_sides [OF assms(1,2)] obtain fs es' r'
    where t: "take_liquidity (marketable ty sd p) side_orders qty = (fs, es', r')"
      and fills: "ar_fills r = mk_fills (taker_of b oid sd ty (shd clk)) (ob_next_execution_id b) fs"
    unfolding side_orders_def by blast
  have i: "i < length fs" using assms(3) fills by simp
  have len: "length fs \<le> length side_orders" and nth: "fst (fs ! i) = side_orders ! i"
    using take_prefix [OF t] i by (metis length_map length_take min.cobounded1, metis nth_map nth_take)
  have "(side_orders ! i, snd (fs ! i)) \<in> set fs"
    using nth_mem [OF i] by (simp flip: nth)
  then have "marketable ty sd p (side_orders ! i)"
    using take_fills [OF t] book_side_entries(2) [OF assms(1)] unfolding side_orders_def by blast
  with i len take_closed_form [OF t i] show ?thesis
    by (simp add: fills mk_fills_nth [OF i] mk_fill_def nth)
qed

lemma fills_follow_priority_witness:
  "fl_quantity (sample_fills ! 1) = min 7 (9 - 5)"
  using fills_follow_priority [OF sample_book_ok sample_trade, of 1]
  by (simp add: sample_book_eq sample_fills_def om_flat_def)

text \<open>
  Conservation. The incoming quantity is exactly what was filled plus what rests (a limit
  order's remainder always rests, a market order never does), the opposite side loses exactly
  the filled volume, and no quantity is ever negative.
\<close>

theorem AddOrder_conserves_quantity:
  assumes "book_ok b" and "OrderBook_AddOrder b oid sd ty p qty clk = (Inr r, b', clk')"
  defines "volume \<equiv> \<lambda>bk. sum_list (map be_remaining_qty (om_flat (book_side (opposite sd) bk)))"
  shows "volume b' = volume b - total_filled (ar_fills r)
    \<and> 0 \<le> total_filled (ar_fills r) \<and> total_filled (ar_fills r) \<le> qty
    \<and> (ty = kLimit \<longrightarrow> total_filled (ar_fills r)
         + (case ar_resting r of None \<Rightarrow> 0 | Some e \<Rightarrow> be_remaining_qty e) = qty)
    \<and> (ty = kMarket \<longrightarrow> ar_resting r = None)"
proof -
  from AddOrder_sides [OF assms(1,2)] obtain fs es' r'
    where t: "take_liquidity (marketable ty sd p) (om_flat (book_side (opposite sd) b)) qty = (fs, es', r')"
      and R: "om_flat (book_side (opposite sd) b') = es'" "total_filled (ar_fills r) = qty - r'" "0 \<le> r'"
        "ar_resting r = (if r' > 0 \<and> ty \<noteq> kMarket then Some \<lparr>be_order_id = oid, be_side = sd,
           be_price = p, be_remaining_qty = r', be_timestamp = shd clk\<rparr> else None)"
    by blast
  with AddOrder_conserves_total [OF assms(1,2)] take_conserves [OF t] show ?thesis
    by (auto simp: volume_def)
qed

lemma AddOrder_conserves_quantity_witness:
  "total_filled sample_fills = 9 \<and> sum_list (map be_remaining_qty (om_flat (ob_asks sample_after))) = 7"
  using AddOrder_conserves_quantity [OF sample_book_ok sample_trade]
  by (simp add: sample_book_eq sample_fills_def)

text \<open>
  C14: matching is complete. When some of an accepted order is left unfilled, no order that it
  may trade with is left on the opposite side: a market order has emptied it, and every order
  still there is beyond the limit of a limit order.
\<close>

theorem AddOrder_matches_completely:
  assumes "book_ok b" and "OrderBook_AddOrder b oid sd ty p qty clk = (Inr r, b', clk')"
    and "total_filled (ar_fills r) < qty"
  shows "\<forall>e \<in> set (om_flat (book_side (opposite sd) b')). \<not> marketable ty sd p e"
proof -
  from AddOrder_sides [OF assms(1,2)] obtain fs es' r'
    where t: "take_liquidity (marketable ty sd p) (om_flat (book_side (opposite sd) b)) qty = (fs, es', r')"
      and R: "om_flat (book_side (opposite sd) b') = es'" "total_filled (ar_fills r) = qty - r'"
    by blast
  have "book_ok b'" using AddOrder_ok [OF assms(1,2)] by blast
  then have "sorted_wrt (\<lambda>x y. \<not> side_cmp (opposite sd) (be_price y) (be_price x)) es'"
    unfolding R(1) [symmetric] by (rule book_side_sorted)
  moreover have "es' = [] \<or> \<not> marketable ty sd p (hd es')"
    using take_stops [OF t] assms(3) R(2) by linarith
  ultimately show ?thesis unfolding R(1) by (rule unmarketable_side)
qed

lemma AddOrder_matches_completely_witness:
  "map be_order_id (om_flat (ob_asks sample_swept)) = [2]
   \<and> list_all (\<lambda>e. \<not> marketable kLimit kBuy 100 e) (om_flat (ob_asks sample_swept))"
  using AddOrder_matches_completely [OF sample_book_ok sample_rest]
  by (simp add: sample_result_facts list_all_iff)

text \<open>
  C15: CancelOrder removes exactly the named order. It returns the entry of a resting order and
  leaves every other order where it was; for an id that does not rest it fails with
  \<open>kOrderNotFound\<close> and changes nothing.
\<close>

theorem CancelOrder_removes_exactly:
  assumes "book_ok b"
  shows "case OrderBook_CancelOrder b oid of (res, b') \<Rightarrow>
    book_ok b' \<and> abs_book b' = spec_cancel (abs_book b) oid
    \<and> (case entry_map (book_entries b) oid of
         None \<Rightarrow> res = Inl kOrderNotFound \<and> b' = b
       | Some e \<Rightarrow> res = Inr e)"
proof (cases "entry_map (book_entries b) oid")
  case None
  then have "oid \<notin> be_order_id ` set (book_entries b)" by (simp add: entry_map_None_iff)
  with None assms CancelOrder_unknown [OF assms this] show ?thesis
    by (auto simp: abs_book_def spec_cancel_def book_entries_def intro!: filter_neq_id [symmetric])
next
  case (Some e)
  with CancelOrder_found [OF assms] entry_map_SomeD [OF Some] show ?thesis by fastforce
qed

lemma CancelOrder_removes_exactly_witness:
  "\<exists>b'. OrderBook_CancelOrder sample_book 3 = (Inr \<lparr>be_order_id = 3, be_side = kSell, be_price = 100,
      be_remaining_qty = 7, be_timestamp = 9\<rparr>, b') \<and> abs_book b' = spec_cancel (abs_book sample_book) 3"
  using CancelOrder_removes_exactly [OF sample_book_ok, of 3]
  by (auto simp: sample_book_eq book_entries_def om_flat_def split: prod.splits)

text \<open>
  Round trip. Cancelling an order right after it was added returns what of it was resting
  and, when it had not traded, restores the abstract book.
\<close>

theorem add_cancel_roundtrip:
  assumes "book_ok b" and "OrderBook_AddOrder b oid sd ty p qty clk = (Inr r, b', clk')"
    and "ar_resting r = Some e"
  shows "\<exists>b''. OrderBook_CancelOrder b' oid = (Inr e, b'') \<and> book_ok b''
    \<and> be_order_id e = oid \<and> be_remaining_qty e = qty - total_filled (ar_fills r)
    \<and> (ar_fills r = [] \<longrightarrow> abs_book b'' = abs_book b)"
proof -
  from AddOrder_sides [OF assms(1,2)] obtain fs es' r'
    where t: "take_liquidity (marketable ty sd p) (om_flat (book_side (opposite sd) b)) qty = (fs, es', r')"
      and fills: "ar_fills r = mk_fills (taker_of b oid sd ty (shd clk)) (ob_next_execution_id b) fs"
      and R: "om_flat (book_side (opposite sd) b') = es'" "total_filled (ar_fills r) = qty - r'"
        "be_order_id e = oid" "be_remaining_qty e = r'"
        "om_flat (book_side sd b') = insert_by_priority sd e (om_flat (book_side sd b))"
    using assms(3) by (auto split: if_splits)
  have new: "oid \<notin> be_order_id ` set (book_entries b)"
    using AddOrder_fills [OF assms(1,2)] by (simp add: entry_map_None_iff)
  have "e \<in> set (om_flat (book_side sd b'))" by (simp add: R(5))
  then have "e \<in> set (book_entries b')" by (cases sd) (auto simp: book_entries_def)
  with CancelOrder_found AddOrder_ok [OF assms(1,2)] obtain b''
    where c: "OrderBook_CancelOrder b' oid = (Inr e, b'')" "book_ok b''"
      "abs_book b'' = spec_cancel (abs_book b') oid"
    unfolding R(3) [symmetric] by blast
  have "abs_book b'' = abs_book b" if "ar_fills r = []"
  proof -
    have "fs = []" using that fills by (cases fs) auto
    then have "es' = om_flat (book_side (opposite sd) b)"
      using t take_nil_fills by blast
    moreover have "filter (\<lambda>x. be_order_id x \<noteq> oid) (insert_by_priority sd e (om_flat (book_side sd b))) =
        om_flat (book_side sd b)"
      using new R(3) filter_insert_by_priority [of e "om_flat (book_side sd b)" sd]
      by (cases sd) (auto simp: book_entries_def image_iff)
    ultimately show ?thesis
      using new R(1,5) unfolding c(3) spec_cancel_def by (cases sd)
        (auto simp: abs_book_def book_entries_def intro!: filter_neq_id)
  qed
  with c R show ?thesis by auto
qed

lemma add_cancel_roundtrip_witness:
  "\<exists>b''. OrderBook_CancelOrder sample_quiet 4 = (Inr \<lparr>be_order_id = 4, be_side = kBuy, be_price = 99,
      be_remaining_qty = 3, be_timestamp = 9\<rparr>, b'') \<and> abs_book b'' = abs_book sample_book"
  using add_cancel_roundtrip [OF sample_book_ok sample_no_trade] by auto

subsection \<open>Depth view and counts\<close>

text \<open>What a list of price levels says about the orders \<open>es\<close> of one side.\<close>

definition depth_of :: "(price \<Rightarrow> price \<Rightarrow> bool) \<Rightarrow> book_entry list \<Rightarrow> price_level list \<Rightarrow> bool" where
  "depth_of before es levels \<longleftrightarrow> sorted_wrt before (map pl_price levels)
     \<and> pl_price ` set levels = be_price ` set es
     \<and> (\<forall>l \<in> set levels. let own = filter (\<lambda>e. be_price e = pl_price l) es
          in pl_total_qty l = sum_list (map be_remaining_qty own) \<and> pl_order_count l = length own
            \<and> own \<noteq> [])"

lemma level_total_sum:
  "0 \<le> running \<Longrightarrow> positive q \<Longrightarrow> running + sum_list (map be_remaining_qty q) \<le> i64_max \<Longrightarrow>
   level_total running q = Some (running + sum_list (map be_remaining_qty q))"
proof (induction running q rule: level_total.induct)
  case (2 running e q)
  have "0 \<le> sum_list (map be_remaining_qty q)"
    using "2.prems" by (intro sum_list_map_nonneg) auto
  with "2.prems" have "i64_add running (be_remaining_qty e) = Some (running + be_remaining_qty e)"
    by (simp add: i64_add_nonneg)
  moreover from this "2.prems" "2.IH" have
    "level_total (running + be_remaining_qty e) q = Some (running + be_remaining_qty e + sum_list (map be_remaining_qty q))"
    by simp
  ultimately show ?case by simp
qed simp

lemma depth_of_Cons:
  assumes "q \<noteq> []" and "\<forall>e \<in> set q. be_price e = p" and "\<forall>e \<in> set es. before p (be_price e)"
    and "\<not> before p p" and d: "depth_of before es levels"
  shows "depth_of before (q @ es)
    (\<lparr>pl_price = p, pl_total_qty = sum_list (map be_remaining_qty q), pl_order_count = length q\<rparr> # levels)"
proof -
  have "filter (\<lambda>e. be_price e = p) q = q" "filter (\<lambda>e. be_price e = p) es = []"
    using assms by (auto simp: filter_empty_conv)
  moreover have later: "before p (pl_price l)" if "l \<in> set levels" for l
  proof -
    have "pl_price l \<in> be_price ` set es" using d that by (auto simp: depth_of_def)
    with assms(3) show ?thesis by auto
  qed
  then have "filter (\<lambda>e. be_price e = pl_price l) q = []" if "l \<in> set levels" for l
    using assms(2,4) that by (force simp: filter_empty_conv)
  moreover have "be_price ` set q = {p}" using assms(1,2) by (cases q) auto
  ultimately show ?thesis
    using d assms(1,3) later by (simp add: depth_of_def Let_def image_Un)
qed

lemma price_levels_exact:
  assumes "om_sorted (side_cmp sd) lad" and "ladder_ok sd lad"
    and "sum_list (map be_remaining_qty (om_flat lad)) \<le> i64_max"
  shows "\<exists>levels. price_levels lad = Some levels \<and> depth_of (side_cmp sd) (om_flat lad) levels"
  using assms
proof (induction lad)
  case Nil
  then show ?case by (simp add: depth_of_def)
next
  case (Cons level lad)
  obtain p q where level: "level = (p, q)" by force
  from Cons.prems level have q: "positive q" "q \<noteq> []" "\<forall>e \<in> set q. be_price e = p" by auto
  have rest: "positive (om_flat lad)"
    using Cons.prems level ladder_ok_entries by auto
  have nonneg: "0 \<le> sum_list (map be_remaining_qty (om_flat lad))" "0 \<le> sum_list (map be_remaining_qty q)"
    using rest q by (auto intro!: sum_list_map_nonneg simp: less_imp_le)
  with Cons level obtain levels where
    IH: "price_levels lad = Some levels" "depth_of (side_cmp sd) (om_flat lad) levels"
    by auto
  have "level_total 0 q = Some (sum_list (map be_remaining_qty q))"
    using level_total_sum [of 0 q] q Cons.prems(3) level nonneg by simp
  moreover have "\<forall>e \<in> set (om_flat lad). side_cmp sd p (be_price e)"
    using Cons.prems level ladder_ok_entries by fastforce
  ultimately show ?case
    using IH level depth_of_Cons [OF q(2,3) _ side_order.before_irrefl IH(2)] by simp
qed

text \<open>
  C16: the depth view. As long as the quantities of a side add up within 64 bits, \<open>Bids()\<close> and
  \<open>Asks()\<close> list each price with resting orders once, best price first, with the exact total
  quantity and number of the orders at that price.
\<close>

theorem depth_view_exact:
  assumes "book_ok b"
    and "sum_list (map be_remaining_qty (om_flat (ob_bids b))) \<le> i64_max"
    and "sum_list (map be_remaining_qty (om_flat (ob_asks b))) \<le> i64_max"
  shows "\<exists>bids asks. Bids b = Some bids \<and> Asks b = Some asks
    \<and> depth_of (>) (om_flat (ob_bids b)) bids \<and> depth_of (<) (om_flat (ob_asks b)) asks"
  using price_levels_exact [of kBuy "ob_bids b"] price_levels_exact [of kSell "ob_asks b"] assms
  by (auto simp: book_ok_def Bids_def Asks_def)

lemma depth_view_exact_witness:
  "\<exists>asks. Asks sample_book = Some asks \<and> depth_of (<) (om_flat (ob_asks sample_book)) asks \<and> length asks = 2"
  using depth_view_exact [OF sample_book_ok]
  by (auto simp: sample_book_eq i64_max_def Asks_def i64_add_def in_i64_def i64_min_def)

text \<open>
  The sum of a level is not guarded. Two accepted sell orders with quantities in the 64-bit
  range, both at one price, build a book whose \<open>Asks()\<close> overflows the signed total.
\<close>

theorem depth_view_can_overflow:
  "\<exists>b. reachable_book s b \<and> book_entries b =
       [\<lparr>be_order_id = 1, be_side = kSell, be_price = 100, be_remaining_qty = i64_max, be_timestamp = 0\<rparr>,
        \<lparr>be_order_id = 2, be_side = kSell, be_price = 100, be_remaining_qty = 1, be_timestamp = 0\<rparr>]
     \<and> Asks b = None"
proof -
  let ?b = "fst (snd (OrderBook_AddOrder (fst (snd (OrderBook_AddOrder (OrderBook s)
    1 kSell kLimit 100 i64_max (sconst 0)))) 2 kSell kLimit 100 1 (sconst 0)))"
  have "reachable_book s ?b" by (intro add_reachable new_book)
  then show ?thesis
    by (intro exI [of _ ?b]) (simp add: book_eval book_entries_def Asks_def i64_add_def in_i64_def
        i64_min_def i64_max_def)
qed

text \<open>
  \<open>OrderCount()\<close>, which reads the size of the id index, is the number of orders resting
  on the two sides.
\<close>

theorem OrderCount_counts_resting:
  assumes "reachable_book s b"
  shows "OrderBook_OrderCount b = length (om_flat (ob_bids b)) + length (om_flat (ob_asks b))"
proof -
  have ix: "index_ok (book_entries b) (ob_id_index b)"
    using reachable_book_inv [OF assms] by (simp add: book_ok_def)
  then have "fst ` set (ob_id_index b) = be_order_id ` set (book_entries b)"
    by (auto simp: index_ok_def image_image)
  with ix have "card (set (map fst (ob_id_index b))) = card (set (map be_order_id (book_entries b)))"
    by simp
  with ix have "length (ob_id_index b) = length (book_entries b)"
    unfolding index_ok_def by (metis distinct_card length_map)
  then show ?thesis by (simp add: OrderBook_OrderCount_def book_entries_def)
qed

lemma OrderCount_counts_resting_witness: "OrderBook_OrderCount sample_book = 3"
  using OrderCount_counts_resting [OF sample_book_reachable] by (simp add: sample_book_eq)

text \<open>
  C17: range. With prices and quantities of the call and of the resting orders in the signed
  64-bit range, every fill has a quantity and price in that range and so has every order that
  rests afterwards: matching never overflows.
\<close>

theorem AddOrder_stays_in_range:
  assumes "book_ok b" and "OrderBook_AddOrder b oid sd ty p qty clk = (Inr r, b', clk')"
    and "\<forall>e \<in> set (book_entries b). in_i64 (be_price e) \<and> in_i64 (be_remaining_qty e)"
    and "in_i64 p" "in_i64 qty"
  shows "(\<forall>f \<in> set (ar_fills r). 0 < fl_quantity f \<and> in_i64 (fl_quantity f) \<and> in_i64 (fl_price f))
    \<and> (\<forall>e \<in> set (book_entries b'). 0 < be_remaining_qty e \<and> in_i64 (be_price e) \<and> in_i64 (be_remaining_qty e))"
proof -
  from AddOrder_sides [OF assms(1,2)] obtain fs es' r'
    where t: "take_liquidity (marketable ty sd p) (om_flat (book_side (opposite sd) b)) qty = (fs, es', r')"
      and fills: "ar_fills r = mk_fills (taker_of b oid sd ty (shd clk)) (ob_next_execution_id b) fs"
      and R: "om_flat (book_side (opposite sd) b') = es'" "0 \<le> r'" "total_filled (ar_fills r) = qty - r'"
        "om_flat (book_side sd b') = (case ar_resting r of None \<Rightarrow> om_flat (book_side sd b)
          | Some e \<Rightarrow> insert_by_priority sd e (om_flat (book_side sd b)))"
        "ar_resting r = (if r' > 0 \<and> ty \<noteq> kMarket then Some \<lparr>be_order_id = oid, be_side = sd,
           be_price = p, be_remaining_qty = r', be_timestamp = shd clk\<rparr> else None)"
    by blast
  let ?good = "\<lambda>e. 0 < be_remaining_qty e \<and> in_i64 (be_price e) \<and> in_i64 (be_remaining_qty e)"
  have good: "\<forall>e \<in> set (om_flat (book_side x b)). ?good e" for x
    using assms(3) book_side_entries(2,3) [OF assms(1)] by blast
  have shrink: "in_i64 y" if "in_i64 z" "0 \<le> y" "y \<le> z" for y z
    using that by (auto simp: in_i64_def i64_min_def)
  have "\<forall>e \<in> set es'. ?good e"
  proof
    fix e assume "e \<in> set es'"
    from take_rest_entry [OF t this] good [of "opposite sd"] shrink show "?good e"
      by (metis book_entry.ext_inject book_entry.surjective book_entry.update_convs(4) less_imp_le)
  qed
  moreover have "r' \<le> qty"
    using AddOrder_conserves_total [OF assms(1,2)] R(3) by simp
  then have "\<forall>e \<in> set (om_flat (book_side sd b')). ?good e"
    using good [of sd] R(2) assms(4,5) shrink by (auto simp: R(4,5) split: if_splits)
  ultimately have "\<forall>e \<in> set (book_entries b'). ?good e"
    unfolding R(1) [symmetric] by (cases sd) (auto simp: book_entries_def)
  moreover have "0 < fl_quantity f \<and> in_i64 (fl_quantity f) \<and> in_i64 (fl_price f)" if f: "f \<in> set (ar_fills r)" for f
  proof -
    obtain e where "(e, fl_quantity f) \<in> set fs" "fl_price f = be_price e"
      using mk_fills_in f unfolding fills by blast
    with take_fills [OF t] good [of "opposite sd"] shrink show ?thesis
      by (metis less_imp_le)
  qed
  ultimately show ?thesis by blast
qed

lemma AddOrder_stays_in_range_witness:
  "list_all (\<lambda>e. 0 < be_remaining_qty e \<and> in_i64 (be_price e) \<and> in_i64 (be_remaining_qty e)) (book_entries sample_after)"
proof -
  have "\<forall>e \<in> set (book_entries sample_book). in_i64 (be_price e) \<and> in_i64 (be_remaining_qty e)"
    by (simp add: sample_book_eq book_entries_def in_i64_def i64_min_def i64_max_def)
  moreover have "in_i64 100" "in_i64 9" by (simp_all add: in_i64_def i64_min_def i64_max_def)
  ultimately show ?thesis
    unfolding list_all_iff using AddOrder_stays_in_range [OF sample_book_ok sample_trade] by blast
qed

end
