(* ===== verification/Engine_Properties.thy ===== *)
theory Engine_Properties
  imports Book_Properties
begin

section \<open>Properties of the matching engine\<close>

text \<open>
  The engine over whole runs: its invariant, the isolation of symbols, exact cancels and the
  numbering of executions across symbols.
\<close>

subsection \<open>Runs\<close>

datatype engine_op =
  Engine_Add symbol order_id side order_type price quantity
| Engine_Cancel symbol order_id

text \<open>A run of calls: the fills of its accepted orders in order, and the final engine.\<close>

fun engine_run :: "engine_op list \<Rightarrow> matching_engine \<Rightarrow> clock \<Rightarrow> fill list \<times> matching_engine \<times> clock" where
  "engine_run [] me clk = ([], me, clk)"
| "engine_run (Engine_Add s oid sd ty p qty # ops) me clk =
     (case MatchingEngine_AddOrder me s oid sd ty p qty clk of (res, me1, clk1) \<Rightarrow>
      case engine_run ops me1 clk1 of (fs, me', clk') \<Rightarrow>
        ((case res of Inl _ \<Rightarrow> [] | Inr r \<Rightarrow> ar_fills r) @ fs, me', clk'))"
| "engine_run (Engine_Cancel s oid # ops) me clk =
     engine_run ops (snd (MatchingEngine_CancelOrder me s oid)) clk"

lemma engine_run_ok: "engine_run ops me clk = (fs, me', clk') \<Longrightarrow> engine_ok me \<Longrightarrow> engine_ok me'"
proof (induction ops me clk arbitrary: fs rule: engine_run.induct)
  case (2 s oid sd ty p qty ops me clk)
  obtain res me1 clk1 where a: "MatchingEngine_AddOrder me s oid sd ty p qty clk = (res, me1, clk1)"
    by (metis prod_cases3)
  obtain gs where "engine_run ops me1 clk1 = (gs, me', clk')"
    using "2.prems"(1) a by (auto split: prod.splits)
  with "2.IH" [OF a [symmetric] refl] Engine_AddOrder_ok [OF "2.prems"(2) a] show ?case by blast
next
  case (3 s oid ops me clk)
  then show ?case using Engine_CancelOrder_ok by (cases "MatchingEngine_CancelOrder me s oid") auto
qed auto

lemma renumber_ids:
  "map fl_execution_id (fst (renumber n fs)) = map (\<lambda>i. n + of_nat i) [0..<length fs]"
proof (intro nth_equalityI)
  obtain fs' n' where r: "renumber n fs = (fs', n')" by force
  note R = renumber_spec [OF r]
  show "length (map fl_execution_id (fst (renumber n fs))) = length (map (\<lambda>i. n + of_nat i) [0..<length fs])"
    using R r by simp
  fix i assume "i < length (map fl_execution_id (fst (renumber n fs)))"
  then show "map fl_execution_id (fst (renumber n fs)) ! i = map (\<lambda>i. n + of_nat i) [0..<length fs] ! i"
    using R r by simp
qed

lemma length_renumber [simp]: "length (fst (renumber n fs)) = length fs"
  by (induction n fs rule: renumber.induct) (auto split: prod.splits)

lemma Engine_AddOrder_ids:
  assumes "MatchingEngine_AddOrder me s oid sd ty p qty clk = (res, me', clk')"
  defines "fs \<equiv> (case res of Inl _ \<Rightarrow> [] | Inr r \<Rightarrow> ar_fills r)"
  shows "map fl_execution_id fs = map (\<lambda>i. me_next_execution_id me + of_nat i) [0..<length fs]
    \<and> me_next_execution_id me' = me_next_execution_id me + of_nat (length fs)"
  using assms(1)
proof (cases rule: Engine_AddOrder_book)
  case (1 bres b')
  show ?thesis
  proof (cases bres)
    case (Inr r)
    from 1(5) [OF Inr] show ?thesis by (simp add: fs_def renumber_ids)
  qed (use 1 in \<open>simp add: fs_def\<close>)
qed

lemma Engine_CancelOrder_next: "me_next_execution_id (snd (MatchingEngine_CancelOrder me s oid)) = me_next_execution_id me"
  by (simp add: MatchingEngine_CancelOrder_def put_book_def split: option.splits prod.splits)

lemma engine_run_ids:
  "engine_run ops me clk = (fs, me', clk') \<Longrightarrow>
     map fl_execution_id fs = map (\<lambda>i. me_next_execution_id me + of_nat i) [0..<length fs]
     \<and> me_next_execution_id me' = me_next_execution_id me + of_nat (length fs)"
proof (induction ops me clk arbitrary: fs rule: engine_run.induct)
  case (2 s oid sd ty p qty ops me clk)
  let ?n = "me_next_execution_id me"
  obtain res me1 clk1 where a: "MatchingEngine_AddOrder me s oid sd ty p qty clk = (res, me1, clk1)"
    by (metis prod_cases3)
  define hs where "hs = (case res of Inl _ \<Rightarrow> [] | Inr r \<Rightarrow> ar_fills r)"
  obtain gs where g: "engine_run ops me1 clk1 = (gs, me', clk')" and fs: "fs = hs @ gs"
    using "2.prems" a by (auto simp: hs_def split: prod.splits)
  note A = Engine_AddOrder_ids [OF a, folded hs_def] and B = "2.IH" [OF a [symmetric] refl g]
  have "map fl_execution_id fs = map (\<lambda>i. ?n + of_nat i) [0..<length hs]
      @ map (\<lambda>i. ?n + of_nat (length hs + i)) [0..<length gs]"
    using A B by (simp add: fs algebra_simps)
  also have "\<dots> = map (\<lambda>i. ?n + of_nat i) [0..<length fs]"
    unfolding fs length_append by (rule map_upt_append)
  finally show ?case using A B by (simp add: fs algebra_simps)
qed (auto simp: Engine_CancelOrder_next)

text \<open>A small engine: the sample book's first order under symbol 7203, and one under 6758.\<close>

definition sample_engine :: matching_engine where
  "sample_engine = fst (snd (engine_run
     [Engine_Add \<lparr>sym_value = ''7203''\<rparr> 1 kSell kLimit 100 5,
      Engine_Add \<lparr>sym_value = ''6758''\<rparr> 2 kBuy kLimit 50 8] MatchingEngine sample_clock))"

lemmas engine_eval = MatchingEngine_AddOrder_def MatchingEngine_CancelOrder_def GetOrCreateBook_def
  MatchingEngine_def put_book_def um_assign_def book_eval

lemma sample_engine_eq:
  "sample_engine = \<lparr>me_books =
     [(''7203'', \<lparr>ob_symbol = \<lparr>sym_value = ''7203''\<rparr>, ob_bids = [], ob_asks = [(100, [\<lparr>be_order_id = 1,
         be_side = kSell, be_price = 100, be_remaining_qty = 5, be_timestamp = 9\<rparr>])],
         ob_id_index = [(1, \<lparr>ix_side = kSell, ix_price = 100\<rparr>)], ob_next_execution_id = 1\<rparr>),
      (''6758'', \<lparr>ob_symbol = \<lparr>sym_value = ''6758''\<rparr>, ob_bids = [(50, [\<lparr>be_order_id = 2,
         be_side = kBuy, be_price = 50, be_remaining_qty = 8, be_timestamp = 9\<rparr>])], ob_asks = [],
         ob_id_index = [(2, \<lparr>ix_side = kBuy, ix_price = 50\<rparr>)], ob_next_execution_id = 1\<rparr>)],
     me_next_execution_id = 1\<rparr>"
  by (simp add: sample_engine_def sample_clock_def engine_eval)

lemma sample_engine_ok: "engine_ok sample_engine"
  unfolding sample_engine_def
  by (rule engine_run_ok [OF prod.collapse [symmetric, THEN trans [OF _ arg_cong [where f = "Pair _",
        OF prod.collapse [symmetric]]]] engine_ok_new])

subsection \<open>Properties\<close>

text \<open>
  All calls that change an engine, with any arguments. Restoring an order is listed apart: it inserts
  the order without matching it, so that it can leave a book crossed.
\<close>

inductive engine_call :: "matching_engine \<Rightarrow> matching_engine \<Rightarrow> bool" where
  call_add: "MatchingEngine_AddOrder me s oid sd ty p qty clk = (res, me', clk') \<Longrightarrow> engine_call me me'"
| call_cancel: "MatchingEngine_CancelOrder me s oid = (res', me') \<Longrightarrow> engine_call me me'"
| call_seed: "engine_call me (SeedNextExecutionId me n)"

inductive restore_call :: "matching_engine \<Rightarrow> matching_engine \<Rightarrow> bool" where
  call_restore: "MatchingEngine_RestoreRestingOrder me ord = (res, me') \<Longrightarrow> restore_call me me'"

inductive_cases engine_callE: "engine_call me me'"
inductive_cases restore_callE: "restore_call me me'"

text \<open>The invariant of the books without the part about crossing.\<close>

definition books_sound :: "matching_engine \<Rightarrow> bool" where
  "books_sound me \<longleftrightarrow> distinct (map fst (me_books me)) \<and>
     (\<forall>k b. um_find (me_books me) k = Some b \<longrightarrow> sym_value (ob_symbol b) = k \<and> book_ok b)"

lemma books_sound_new: "books_sound MatchingEngine"
  by (simp add: books_sound_def MatchingEngine_def)

lemma books_sound_update:
  assumes "books_sound me" and "um_find (me_books me') = (um_find (me_books me))(sym_value s \<mapsto> b')"
    and "distinct (map fst (me_books me'))" and "book_ok b'" "sym_value (ob_symbol b') = sym_value s"
  shows "books_sound me'"
  using assms by (simp add: books_sound_def)

lemma books_sound_book: "books_sound me \<Longrightarrow> book_ok (book_of me s) \<and> sym_value (ob_symbol (book_of me s)) = sym_value s"
  by (auto simp: books_sound_def book_of_def split: option.splits)

lemma Restore_book_ok:
  assumes "book_ok b" and "OrderBook_RestoreRestingOrder b oid sd p qty ts = (res, b')"
  shows "book_ok b' \<and> ob_symbol b' = ob_symbol b"
proof (cases "qty \<le> 0 \<or> p \<le> 0 \<or> um_find (ob_id_index b) oid \<noteq> None")
  case True
  with assms show ?thesis by (auto simp: OrderBook_RestoreRestingOrder_def split: if_splits)
next
  case False
  then have "oid \<notin> be_order_id ` set (book_entries b)"
    using assms(1) index_ok_None unfolding book_ok_def by blast
  with Restore_spec [OF assms(1) this, of qty p sd ts] False assms(2) show ?thesis by auto
qed

lemma books_sound_call: "engine_call me me' \<or> restore_call me me' \<Longrightarrow> books_sound me \<Longrightarrow> books_sound me'"
proof (elim disjE engine_callE restore_callE)
  fix s oid sd ty p qty clk res clk'
  assume me: "books_sound me" and add: "MatchingEngine_AddOrder me s oid sd ty p qty clk = (res, me', clk')"
  from add show "books_sound me'"
  proof (cases rule: Engine_AddOrder_book)
    case (1 bres b')
    with AddOrder_ok [OF _ 1(1)] books_sound_book [OF me, of s] me show ?thesis
      by (auto intro!: books_sound_update [OF me 1(2)] simp: books_sound_def)
  qed
next
  fix s oid res'
  assume me: "books_sound me" and c: "MatchingEngine_CancelOrder me s oid = (res', me')"
  show "books_sound me'"
  proof (cases "um_find (me_books me) (sym_value s)")
    case (Some b)
    then obtain b' where b': "OrderBook_CancelOrder b oid = (res', b')" "me' = put_book s b' me"
      using c by (auto simp: MatchingEngine_CancelOrder_def split: prod.splits)
    with CancelOrder_ok [OF _ b'(1)] me Some show ?thesis
      by (auto intro!: books_sound_update [OF me, of _ s b'] simp: put_book_find books_sound_def put_book_def umap_simps)
  qed (use c me in \<open>simp add: MatchingEngine_CancelOrder_def\<close>)
next
  fix n
  assume "me' = SeedNextExecutionId me n" and "books_sound me"
  then show "books_sound me'" by (simp add: SeedNextExecutionId_def books_sound_def)
next
  fix ord res
  assume me: "books_sound me" and r: "MatchingEngine_RestoreRestingOrder me ord = (res, me')"
  show "books_sound me'"
  proof (cases "o_type ord \<noteq> kLimit \<or> o_remaining_qty ord \<le> 0")
    case False
    obtain b me1 where g: "GetOrCreateBook me (o_symbol ord) = (b, me1)" by force
    note G = GetOrCreateBook_spec [OF g]
    obtain b' where b': "OrderBook_RestoreRestingOrder b (o_internal_id ord) (o_side ord) (o_price ord) (o_remaining_qty ord)
        (o_created_at ord) = (res, b')" "me' = put_book (o_symbol ord) b' me1"
      using r False g by (auto simp: MatchingEngine_RestoreRestingOrder_def split: prod.splits)
    have b: "book_ok b" "sym_value (ob_symbol b) = sym_value (o_symbol ord)" using books_sound_book [OF me] G by auto
    with Restore_book_ok [OF b(1) b'(1)] G me show ?thesis unfolding b'(2)
      by (intro books_sound_update [OF me, of _ "o_symbol ord" b'])
        (auto simp: put_book_find books_sound_def put_book_def umap_simps)
  qed (use r me in \<open>auto simp: MatchingEngine_RestoreRestingOrder_def\<close>)
qed

lemma engine_ok_call: "engine_call me me' \<Longrightarrow> engine_ok me \<Longrightarrow> engine_ok me'"
  by (auto elim!: engine_callE intro: Engine_AddOrder_ok Engine_CancelOrder_ok)
    (simp add: engine_ok_def SeedNextExecutionId_def)

text \<open>
  C18: After any sequence of calls of AddOrder, CancelOrder, RestoreRestingOrder and
  SeedNextExecutionId with any arguments on a new engine, every book the engine hands out is
  well-formed (each side strictly ordered by price without empty levels, every entry at its level with
  positive quantity, and an id index that holds exactly the resting orders) and belongs to the symbol
  it is looked up under; no order id rests twice in one book, and each side read front to back is
  ordered by price. If no order was restored, the book is also uncrossed: every bid is below every
  ask. Restoring inserts without matching and can cross a book.
\<close>

theorem engine_run_correct:
  assumes "(\<lambda>me me'. engine_call me me' \<or> restore_call me me')\<^sup>*\<^sup>* MatchingEngine me" and "GetBook me s = Inr b"
  shows "book_ok b \<and> sym_value (ob_symbol b) = sym_value s
    \<and> distinct (map be_order_id (book_entries b))
    \<and> sorted_wrt (\<lambda>x y. be_price y \<le> be_price x) (om_flat (ob_bids b))
    \<and> sorted_wrt (\<lambda>x y. be_price x \<le> be_price y) (om_flat (ob_asks b))
    \<and> (engine_call\<^sup>*\<^sup>* MatchingEngine me \<longrightarrow> uncrossed b)"
proof -
  have find: "um_find (me_books me) (sym_value s) = Some b"
    using assms(2) by (auto simp: GetBook_def split: option.splits)
  have "books_sound me"
    using assms(1) books_sound_new by (induction rule: rtranclp_induct) (blast intro: books_sound_call)+
  with find have b: "book_ok b" "sym_value (ob_symbol b) = sym_value s" by (auto simp: books_sound_def)
  have "engine_ok me" if "engine_call\<^sup>*\<^sup>* MatchingEngine me"
    using that by (induction rule: rtranclp_induct) (auto intro: engine_ok_call)
  with find have "engine_call\<^sup>*\<^sup>* MatchingEngine me \<longrightarrow> uncrossed b" using engine_ok_find by blast
  with b book_side_sorted [OF b(1), of kBuy] book_side_sorted [OF b(1), of kSell] show ?thesis
    by (simp add: not_less book_ok_def index_ok_def)
qed

text \<open>An ask at 100, and then a restored bid at 120: the book is well-formed and crossed.\<close>

lemma engine_run_correct_witness:
  "\<exists>me b. GetBook me \<lparr>sym_value = ''7203''\<rparr> = Inr b \<and> book_ok b \<and> \<not> uncrossed b
     \<and> sorted_wrt (\<lambda>x y. be_price y \<le> be_price x) (om_flat (ob_bids b)) \<and> length (book_entries b) = 2"
proof -
  let ?s = "\<lparr>sym_value = ''7203''\<rparr>"
  let ?ord = "\<lparr>o_internal_id = 2, o_client_order_id = ''c'', o_symbol = ?s, o_side = kBuy, o_type = kLimit, o_price = 120,
    o_order_qty = 3, o_filled_qty = 0, o_remaining_qty = 3, o_status = kAccepted, o_created_at = 9, o_updated_at = 9\<rparr>"
  let ?me1 = "fst (snd (MatchingEngine_AddOrder MatchingEngine ?s 1 kSell kLimit 100 5 sample_clock))"
  let ?me2 = "snd (MatchingEngine_RestoreRestingOrder ?me1 ?ord)"
  have "engine_call MatchingEngine ?me1" "restore_call ?me1 ?me2"
    by (rule call_add, (rule prod.collapse [symmetric, THEN trans [OF _ arg_cong [where f = "Pair _", OF prod.collapse [symmetric]]]]))
      (rule call_restore, rule prod.collapse [symmetric])
  then have run: "(\<lambda>me me'. engine_call me me' \<or> restore_call me me')\<^sup>*\<^sup>* MatchingEngine ?me2"
    by (intro rtranclp.rtrancl_into_rtrancl [OF rtranclp.rtrancl_into_rtrancl [OF rtranclp.rtrancl_refl]]) auto
  have "\<exists>b. GetBook ?me2 ?s = Inr b \<and> \<not> uncrossed b \<and> length (book_entries b) = 2"
    by (simp add: engine_eval MatchingEngine_RestoreRestingOrder_def OrderBook_RestoreRestingOrder_def GetBook_def
        book_entries_def uncrossed_def sample_clock_def)
  with engine_run_correct [OF run] show ?thesis by blast
qed

text \<open>
  C19: execution ids are global. Over any run of orders and cancels the fills of all symbols together are numbered
  consecutively in the order they were produced, so they are unique as long as there are at
  most \<open>2 ^ 64\<close> of them.
\<close>

theorem execution_ids_consecutive:
  assumes "engine_run ops me clk = (fs, me', clk')"
  shows "map fl_execution_id fs = map (\<lambda>i. me_next_execution_id me + of_nat i) [0..<length fs]
    \<and> (length fs \<le> 2 ^ 64 \<longrightarrow> distinct (map fl_execution_id fs))"
proof -
  have "inj_on (\<lambda>i. me_next_execution_id me + (of_nat i :: u64)) (set [0..<n])" if "n \<le> 2 ^ 64" for n
    using that by (intro inj_onI) (auto dest!: of_nat_inverse [rotated] simp: word_of_nat_eq_iff take_bit_nat_eq_self)
  then show ?thesis
    using engine_run_ids [OF assms] by (auto simp: distinct_map)
qed

lemma execution_ids_consecutive_witness:
  "\<exists>fs me' clk'. engine_run [Engine_Add \<lparr>sym_value = ''7203''\<rparr> 3 kBuy kMarket 0 2,
       Engine_Add \<lparr>sym_value = ''6758''\<rparr> 4 kSell kLimit 40 6] sample_engine sample_clock = (fs, me', clk')
     \<and> map fl_execution_id fs = [1, 2] \<and> map (sym_value \<circ> fl_symbol) fs = [''7203'', ''6758'']"
proof -
  obtain fs me' clk' where r: "engine_run [Engine_Add \<lparr>sym_value = ''7203''\<rparr> 3 kBuy kMarket 0 2,
       Engine_Add \<lparr>sym_value = ''6758''\<rparr> 4 kSell kLimit 40 6] sample_engine sample_clock = (fs, me', clk')"
    by (metis prod_cases3)
  then have "map (sym_value \<circ> fl_symbol) fs = [''7203'', ''6758'']" "length fs = 2"
    by (auto simp: sample_engine_eq sample_clock_def engine_eval)
  with execution_ids_consecutive [OF r] r show ?thesis
    by (simp add: sample_engine_eq upt_rec)
qed

text \<open>
  C20: symbols are isolated. An order or a cancel for one symbol leaves the book of every other
  symbol exactly as it was, and the book of its own symbol (a new one when there was none) is
  the one \<open>OrderBook::AddOrder\<close> produces.
\<close>

theorem symbols_isolated:
  assumes "MatchingEngine_AddOrder me s oid sd ty p qty clk = (res, me', clk')"
    and "MatchingEngine_CancelOrder me s oid = (res2, me2)"
  shows "(\<forall>s'. sym_value s' \<noteq> sym_value s \<longrightarrow> GetBook me' s' = GetBook me s' \<and> GetBook me2 s' = GetBook me s')
    \<and> GetBook me' s = Inr (fst (snd (OrderBook_AddOrder (book_of me s) oid sd ty p qty clk)))"
  using assms(1)
proof (cases rule: Engine_AddOrder_book)
  case (1 bres b')
  have "GetBook me2 s' = GetBook me s'" if "sym_value s' \<noteq> sym_value s" for s'
    using assms(2) that
    by (auto simp: MatchingEngine_CancelOrder_def GetBook_def umap_simps split: option.splits prod.splits)
  with 1 show ?thesis by (simp add: GetBook_def)
qed

lemma symbols_isolated_witness:
  "\<exists>res me' clk'. MatchingEngine_AddOrder sample_engine \<lparr>sym_value = ''7203''\<rparr> 3 kBuy kMarket 0 2 sample_clock
     = (res, me', clk') \<and> GetBook me' \<lparr>sym_value = ''6758''\<rparr> = GetBook sample_engine \<lparr>sym_value = ''6758''\<rparr>"
proof -
  obtain res me' clk' where a: "MatchingEngine_AddOrder sample_engine \<lparr>sym_value = ''7203''\<rparr> 3 kBuy kMarket 0 2
      sample_clock = (res, me', clk')"
    by (metis prod_cases3)
  obtain res2 me2 where "MatchingEngine_CancelOrder sample_engine \<lparr>sym_value = ''7203''\<rparr> 3 = (res2, me2)" by force
  from symbols_isolated [OF a this] a show ?thesis by auto
qed

text \<open>
  Cancelling through the engine. An order that rests in the book of the symbol is returned
  and only it disappears from the live orders of the engine; otherwise the call fails, with
  \<open>kBookNotFound\<close> for a symbol that was never traded and \<open>kOrderNotFound\<close> else, and no live
  order changes.
\<close>

theorem engine_cancel_exact:
  assumes "engine_ok me"
  shows "case MatchingEngine_CancelOrder me s oid of (res, me') \<Rightarrow> engine_ok me'
    \<and> live me' = (\<lambda>sv k. if sv = sym_value s \<and> k = oid then None else live me sv k)
    \<and> (case live me (sym_value s) oid of
         Some e \<Rightarrow> res = Inr e
       | None \<Rightarrow> res = Inl (if GetBook me s = Inl kBookNotFound then kBookNotFound else kOrderNotFound))"
proof -
  obtain res me' where c: "MatchingEngine_CancelOrder me s oid = (res, me')" by force
  have ok: "engine_ok me'" by (rule Engine_CancelOrder_ok [OF assms c])
  show ?thesis
  proof (cases "live me (sym_value s) oid")
    case (Some e)
    with Engine_CancelOrder_live(1) [OF assms Some] c ok show ?thesis by simp
  next
    case None
    with Engine_CancelOrder_live(2) [OF assms None] c obtain err where
      "res = Inl err" "live me' = live me" by auto
    moreover have "err = (if GetBook me s = Inl kBookNotFound then kBookNotFound else kOrderNotFound)"
      using c None \<open>res = Inl err\<close> CancelOrder_unknown [of "book_of me s" oid] engine_ok_book_of [OF assms, of s]
      by (auto simp: MatchingEngine_CancelOrder_def GetBook_def live_def book_of_def entry_map_None_iff
          split: option.splits prod.splits)
    ultimately show ?thesis using c ok None by (auto simp: fun_eq_iff)
  qed
qed

lemma engine_cancel_exact_witness:
  "\<exists>me'. MatchingEngine_CancelOrder sample_engine \<lparr>sym_value = ''6758''\<rparr> 2 =
     (Inr \<lparr>be_order_id = 2, be_side = kBuy, be_price = 50, be_remaining_qty = 8, be_timestamp = 9\<rparr>, me')
     \<and> live me' ''6758'' 2 = None"
proof -
  have "live sample_engine ''6758'' 2 = Some \<lparr>be_order_id = 2, be_side = kBuy, be_price = 50,
      be_remaining_qty = 8, be_timestamp = 9\<rparr>"
    by (simp add: sample_engine_eq live_def book_entries_def)
  then show ?thesis
    using engine_cancel_exact [OF sample_engine_ok, of "\<lparr>sym_value = ''6758''\<rparr>" 2]
    by (auto split: prod.splits)
qed

end
