(* ===== verification/Time_Priority.thy ===== *)
theory Time_Priority
  imports Order_Lifecycle Engine_Properties
begin

section \<open>Time priority and consecutive ids\<close>

text \<open>
  Invariants of the running system that recovery relies on: in every book the orders of a side stand
  by price and, at a price, by id; order ids are given without gaps; the executions carry the ids
  1, 2, 3, ... and the engine's counter is the next one.
\<close>

subsection \<open>Books sorted by price and id\<close>

definition by_priority :: "side \<Rightarrow> book_entry \<Rightarrow> book_entry \<Rightarrow> bool" where
  "by_priority sd x y \<longleftrightarrow> side_cmp sd (be_price x) (be_price y)
     \<or> be_price x = be_price y \<and> be_order_id x < be_order_id y"

definition fifo_book :: "order_book \<Rightarrow> bool" where
  "fifo_book b \<longleftrightarrow> (\<forall>sd. sorted_wrt (by_priority sd) (om_flat (book_side sd b)))"

lemma fifo_book_sides: "fifo_book b \<longleftrightarrow> sorted_wrt (by_priority sd) (om_flat (book_side sd b))
    \<and> sorted_wrt (by_priority (opposite sd)) (om_flat (book_side (opposite sd) b))"
  unfolding fifo_book_def by (cases sd) (metis opposite.simps side.exhaust)+

lemma by_priority_trans: "by_priority sd x y \<Longrightarrow> by_priority sd y z \<Longrightarrow> by_priority sd x z"
  by (cases sd) (auto simp: by_priority_def)

lemma by_priority_asym: "by_priority sd x y \<Longrightarrow> \<not> by_priority sd y x"
  by (cases sd) (auto simp: by_priority_def)

text \<open>A newer order goes to the place that keeps the side sorted.\<close>

lemma sorted_insert_by_priority:
  assumes "sorted_wrt (by_priority sd) es" and "\<forall>x \<in> set es. be_order_id x < be_order_id e"
  shows "sorted_wrt (by_priority sd) (insert_by_priority sd e es)"
  using assms
proof (induction es)
  case Nil
  then show ?case by (simp add: insert_by_priority_def)
next
  case (Cons a es)
  show ?case
  proof (cases "side_cmp sd (be_price e) (be_price a)")
    case True
    then have "by_priority sd e a" by (simp add: by_priority_def)
    with True Cons.prems show ?thesis
      by (auto simp: insert_by_priority_def intro: by_priority_trans)
  next
    case False
    then have ae: "by_priority sd a e"
      using Cons.prems(2) side_order.not_beforeD by (auto simp: by_priority_def)
    have "insert_by_priority sd e (a # es) = a # insert_by_priority sd e es"
      using False by (simp add: insert_by_priority_def)
    moreover have "set (insert_by_priority sd e es) = insert e (set es)"
      by (metis mset_insert_by_priority set_mset_mset set_mset_add_mset_insert)
    ultimately show ?thesis using Cons ae by simp
  qed
qed

lemma sorted_take_liquidity:
  assumes "take_liquidity ok es r = (fs, es', r')" and "sorted_wrt (by_priority sd) es"
  shows "sorted_wrt (by_priority sd) es'"
proof -
  let ?f = "\<lambda>e. (be_price e, be_order_id e)"
  let ?R = "\<lambda>x y. side_cmp sd (fst x) (fst y) \<or> fst x = fst y \<and> snd x < snd y"
  have R: "sorted_wrt (by_priority sd) xs \<longleftrightarrow> sorted_wrt ?R (map ?f xs)" for xs
    by (simp add: sorted_wrt_map by_priority_def [abs_def])
  have "map ?f es = map (?f \<circ> fst) (filter (\<lambda>(e, q). q = be_remaining_qty e) fs) @ map ?f es'"
    by (rule take_rest_map [OF assms(1)]) simp
  with assms(2) show ?thesis unfolding R by (simp add: sorted_wrt_append)
qed

lemma fifo_AddOrder:
  assumes ok: "book_ok b" and fifo: "fifo_book b" and add: "OrderBook_AddOrder b oid sd ty p qty clk = (res, b', clk')"
    and new: "\<forall>e \<in> set (book_entries b). be_order_id e < oid"
  shows "fifo_book b'"
  using add
proof (cases rule: AddOrder_cases [OF ok add, case_names error added])
  case (error e)
  with fifo show ?thesis by simp
next
  case (added fs resting)
  have ids: "\<forall>e \<in> set (om_flat (book_side sd b)). be_order_id e < oid"
    using new by (cases sd) (simp_all add: book_entries_def)
  from added(4) show ?thesis
  proof (rule spec_add_sides)
    fix es' r'
    assume t: "take_liquidity (marketable ty sd p) (om_flat (book_side (opposite sd) b)) qty = (fs, es', r')"
      and rest: "resting = (if r' > 0 \<and> ty \<noteq> kMarket then Some \<lparr>be_order_id = oid, be_side = sd, be_price = p,
        be_remaining_qty = r', be_timestamp = shd clk\<rparr> else None)"
      and opp: "om_flat (book_side (opposite sd) b') = es'"
      and same: "om_flat (book_side sd b') = (case resting of None \<Rightarrow> om_flat (book_side sd b)
        | Some e \<Rightarrow> insert_by_priority sd e (om_flat (book_side sd b)))"
    have "sorted_wrt (by_priority (opposite sd)) (om_flat (book_side (opposite sd) b'))"
      using sorted_take_liquidity [OF t] fifo opp by (simp add: fifo_book_def)
    moreover have "sorted_wrt (by_priority sd) (om_flat (book_side sd b'))"
      using fifo ids by (auto simp: same rest fifo_book_def intro: sorted_insert_by_priority)
    ultimately show ?thesis by (simp add: fifo_book_sides [of _ sd])
  qed
qed

lemma fifo_CancelOrder:
  assumes ok: "book_ok b" and fifo: "fifo_book b" and c: "OrderBook_CancelOrder b oid = (res, b')"
  shows "fifo_book b'"
proof (cases "oid \<in> be_order_id ` set (book_entries b)")
  case True
  then obtain e where "e \<in> set (book_entries b)" "oid = be_order_id e" by auto
  with CancelOrder_found [OF ok] c have abs: "abs_book b' = spec_cancel (abs_book b) oid" by fastforce
  have "om_flat (book_side sd b') = filter (\<lambda>e. be_order_id e \<noteq> oid) (om_flat (book_side sd b))" for sd
    using arg_cong [OF abs, of "pb_side sd"] by (cases sd) (simp_all add: spec_cancel_def abs_book_def)
  with fifo show ?thesis by (simp add: fifo_book_def sorted_wrt_filter)
next
  case False
  with CancelOrder_unknown [OF ok] c fifo show ?thesis by simp
qed

subsection \<open>The engine\<close>

definition fifo_engine :: "matching_engine \<Rightarrow> bool" where
  "fifo_engine me \<longleftrightarrow> (\<forall>sv b. um_find (me_books me) sv = Some b \<longrightarrow> fifo_book b)"

lemma fifo_new [simp]: "fifo_book (OrderBook s)" "fifo_engine MatchingEngine"
  by (auto simp: fifo_book_sides [of _ kBuy] OrderBook_def fifo_engine_def MatchingEngine_def)

lemma fifo_book_of: "fifo_engine me \<Longrightarrow> fifo_book (book_of me s)"
  by (simp add: fifo_engine_def book_of_def split: option.splits)

lemma fifo_engine_update:
  "fifo_engine me \<Longrightarrow> um_find (me_books me') = (um_find (me_books me))(sym_value s \<mapsto> b') \<Longrightarrow> fifo_book b' \<Longrightarrow>
   fifo_engine me'"
  by (auto simp: fifo_engine_def split: if_splits)

lemma fifo_Engine_AddOrder:
  assumes ok: "engine_ok me" and fifo: "fifo_engine me"
    and add: "MatchingEngine_AddOrder me s oid sd ty p qty clk = (res, me', clk')"
    and new: "\<And>k. live me (sym_value s) k \<noteq> None \<Longrightarrow> k < oid"
  shows "fifo_engine me'"
  using add
proof (cases rule: Engine_AddOrder_book)
  case (1 bres b')
  have "\<forall>e \<in> set (book_entries (book_of me s)). be_order_id e < oid"
  proof
    fix e assume "e \<in> set (book_entries (book_of me s))"
    then have "live me (sym_value s) (be_order_id e) \<noteq> None" by (auto simp: live_eq entry_map_None_iff)
    then show "be_order_id e < oid" by (rule new)
  qed
  with fifo_AddOrder [OF _ fifo_book_of [OF fifo] 1(1)] engine_ok_book_of [OF ok, of s] show ?thesis
    by (intro fifo_engine_update [OF fifo 1(2)]) blast
qed

lemma fifo_Engine_CancelOrder:
  assumes ok: "engine_ok me" and fifo: "fifo_engine me" and c: "MatchingEngine_CancelOrder me s oid = (res, me')"
  shows "fifo_engine me'"
proof (cases "um_find (me_books me) (sym_value s)")
  case None
  with c fifo show ?thesis by (simp add: MatchingEngine_CancelOrder_def)
next
  case (Some b)
  then obtain b' where b': "OrderBook_CancelOrder b oid = (res, b')" "me' = put_book s b' me"
    using c by (auto simp: MatchingEngine_CancelOrder_def split: prod.splits)
  have "fifo_book b'"
    using fifo_CancelOrder [OF _ _ b'(1)] engine_ok_find [OF ok Some] fifo Some by (auto simp: fifo_engine_def)
  then show ?thesis
    unfolding b'(2) by (intro fifo_engine_update [OF fifo]) (simp_all only: put_book_find)
qed

subsection \<open>The order manager\<close>

definition sequenced :: "'d order_manager \<Rightarrow> bool" where
  "sequenced om \<longleftrightarrow> fifo_engine (om_engine om)
     \<and> om_next_order_id om \<noteq> 0 \<and> dom (um_find (om_orders om)) = {k. k \<noteq> 0 \<and> k < om_next_order_id om}
     \<and> me_next_execution_id (om_engine om) = of_nat (Suc (length (om_executions om)))
     \<and> map fl_execution_id (om_executions om) = map of_nat [1..<Suc (length (om_executions om))]"

lemma sequenced_new: "sequenced (OrderManager risk MatchingEngine db clk)"
  by (auto simp: sequenced_def OrderManager_def MatchingEngine_def fifo_engine_def word_less_nat_alt word_unat_eq_iff)

lemma next_ids: "(n :: u64) \<noteq> 0 \<Longrightarrow> n \<noteq> - 1 \<Longrightarrow> n + 1 \<noteq> 0 \<and> insert n {k. k \<noteq> 0 \<and> k < n} = {k. k \<noteq> 0 \<and> k < n + 1}"
proof -
  assume n: "n \<noteq> 0" "n \<noteq> - 1"
  then have "n + 1 \<noteq> 0" by (metis add_eq_0_iff2 add.inverse_inverse)
  moreover from this have "unat (n + 1) = Suc (unat n)" using unatSuc [of n] by (simp add: add.commute)
  then have "k < n + 1 \<longleftrightarrow> k = n \<or> k < n" for k by (auto simp: word_less_nat_alt less_Suc_eq word_unat_eq_iff)
  ultimately show ?thesis using n(1) by auto
qed


lemma ids_append:
  "map (of_nat :: nat \<Rightarrow> u64) [1..<Suc n] @ map (\<lambda>i. of_nat (Suc n) + of_nat i) [0..<m] = map of_nat [1..<Suc (n + m)]"
proof -
  have "map (\<lambda>i. of_nat (Suc n) + (of_nat i :: u64)) [0..<m] = map of_nat [Suc n..<Suc (n + m)]"
    by (rule nth_equalityI) (simp_all add: algebra_simps del: upt_Suc)
  moreover have "[1..<Suc (n + m)] = [1..<Suc n] @ [Suc n..<Suc (n + m)]"
    using upt_add_eq_append [of 1 "Suc n" m] by simp
  ultimately show ?thesis by simp
qed

lemma sequenced_submit:
  assumes ok: "om_ok om" and fresh: "om_next_order_id om \<noteq> - 1" and seq: "sequenced om"
    and s: "SubmitOrder sq req om = (res, om')"
  shows "sequenced om'"
proof -
  note S = seq [unfolded sequenced_def]
  note N = next_ids [OF _ fresh]
  from ok fresh s show ?thesis
  proof (cases rule: SubmitOrder_outcome)
    case (invalid e)
    with seq show ?thesis by simp
  next
    case (risk e risk' clk')
    then have dom: "dom (um_find (om_orders om')) = insert (om_next_order_id om) (dom (um_find (om_orders om)))"
      by (auto simp: om_simps umap_simps split: if_splits)
    show ?thesis unfolding sequenced_def dom using S N by (simp add: risk(4) om_simps del: upt_Suc)
  next
    case (accepted ord r risk' clk' om4 clk'')
    note D = om_okD [OF ok]
    note I = Engine_AddOrder_ids [OF accepted(3)]
    have "k < om_next_order_id om" if "live (om_engine om) (sym_value (nr_symbol req)) k \<noteq> None" for k
    proof -
      have "map_option entry_view (live (om_engine om) sv k) = order_view sv (um_find (om_orders om) k)" for sv
        using D(3) by (simp only: tracks_def)
      from this [of "sym_value (nr_symbol req)"] that have "um_find (om_orders om) k \<noteq> None"
        by (cases "um_find (om_orders om) k") (auto simp: order_view_def)
      with D(4) show ?thesis by blast
    qed
    with fifo_Engine_AddOrder [OF D(1) _ accepted(3)] S have "fifo_engine (om_engine om')" by blast
    moreover have "dom (um_find (om_orders om')) = insert (om_next_order_id om) (dom (um_find (om_orders om)))"
    proof (rule set_eqI)
      fix k
      show "k \<in> dom (um_find (om_orders om')) \<longleftrightarrow> k \<in> insert (om_next_order_id om) (dom (um_find (om_orders om)))"
        using accepted(8) filled_by_None [OF accepted(11), of k] by (cases "k = om_next_order_id om") auto
    qed
    moreover have "map fl_execution_id (om_executions om') = map of_nat [1..<Suc (length (om_executions om'))]"
      using I S ids_append [of "length (om_executions om)" "length (ar_fills r)"] by (simp add: accepted(9) del: upt_Suc)
    ultimately show ?thesis using S N I by (simp add: sequenced_def accepted(9,12) del: upt_Suc)
  qed
qed

lemma sequenced_cancel:
  assumes ok: "om_ok om" and seq: "sequenced om" and c: "OrderManager_CancelOrder sq req om = (res, om')"
  shows "sequenced om'"
  using c
proof (cases rule: CancelOrder_cases)
  case (failed ord err engine')
  with seq fifo_Engine_CancelOrder [OF om_okD(1) [OF ok] _ failed(3)]
    Engine_CancelOrder_next [of "om_engine om" "o_symbol ord" "o_internal_id ord"]
  show ?thesis by (simp add: sequenced_def om_simps)
next
  case (cancelled ord e engine' now)
  have "dom (um_find (om_orders om')) = dom (um_find (om_orders om))"
    using cancelled(1) by (auto simp: cancelled(9) umap_simps split: if_splits)
  with seq cancelled fifo_Engine_CancelOrder [OF om_okD(1) [OF ok] _ cancelled(3)]
    Engine_CancelOrder_next [of "om_engine om" "o_symbol ord" "o_internal_id ord"]
  show ?thesis by (simp add: sequenced_def)
qed (use seq in simp_all)

end
