(* ===== verification/Database_Properties.thy ===== *)
theory Database_Properties
  imports Database
begin

section \<open>Properties of the persistence layer\<close>

text \<open>
  What a row that is written says when it is read back, and how the functions that read a single
  value report failure. \<open>sqlite_columns\<close> is the documented behaviour of the column functions of
  SQLite on values of the declared column types.
\<close>

definition sqlite_columns :: "'d sqlite \<Rightarrow> bool" where
  "sqlite_columns sq \<longleftrightarrow> (\<forall>i. in_i64 i \<longrightarrow> sq_column_int64 sq (SqlInt i) = i)
     \<and> (\<forall>i. in_i32 i \<longrightarrow> sq_column_int sq (SqlInt i) = i)
     \<and> (\<forall>s. CHR 0x00 \<notin> set s \<longrightarrow> sq_column_text sq (SqlText s) = Some s)"

text \<open>The SQLite whose columns behave like that, for witnesses.\<close>

definition plain_sqlite :: "unit sqlite" where
  "plain_sqlite = \<lparr>sq_open = (\<lambda>_. Some ()), sq_exec = (\<lambda>_ d. (True, d)), sq_prepare = (\<lambda>_ _. True),
     sq_step = (\<lambda>_ _ d. ([], SQLITE_DONE, d)),
     sq_column_int64 = (\<lambda>v. case v of SqlInt i \<Rightarrow> i | _ \<Rightarrow> 0),
     sq_column_int = (\<lambda>v. case v of SqlInt i \<Rightarrow> i | _ \<Rightarrow> 0),
     sq_column_text = (\<lambda>v. case v of SqlText s \<Rightarrow> Some s | _ \<Rightarrow> None)\<rparr>"

lemma plain_sqlite_columns: "sqlite_columns plain_sqlite"
  by (simp add: sqlite_columns_def plain_sqlite_def)

lemma c_str_no_nul: "CHR 0x00 \<notin> set (c_str s)"
  by (auto simp: c_str_def dest: set_takeWhileD)

lemma c_str_id: "CHR 0x00 \<notin> set s \<Longrightarrow> c_str s = s"
  unfolding c_str_def by (rule takeWhile_eq_all_conv [THEN iffD2]) auto

lemma column_bind [simp]:
  assumes "sqlite_columns sq"
  shows "column_u64 sq (bind_u64 w) = w" "column_string sq (bind_text s) = c_str s"
    "in_i64 i \<Longrightarrow> sq_column_int64 sq (SqlInt i) = i"
proof -
  have "in_i64 (sint w)" for w :: u64
    using sint_greater_eq [of w] sint_less [of w] by (simp add: in_i64_def i64_min_def i64_max_def)
  then show "column_u64 sq (bind_u64 w) = w"
    using assms by (simp add: sqlite_columns_def column_u64_def bind_u64_def)
  show "column_string sq (bind_text s) = c_str s"
    using assms c_str_no_nul by (simp add: sqlite_columns_def column_string_def bind_text_def)
  show "in_i64 i \<Longrightarrow> sq_column_int64 sq (SqlInt i) = i" using assms by (simp add: sqlite_columns_def)
qed

lemma enum_codes [simp]:
  assumes "sqlite_columns sq"
  shows "enum_at sides (sq_column_int sq (SqlInt (enum_code sides sd))) = Some sd"
    "enum_at order_types (sq_column_int sq (SqlInt (enum_code order_types ty))) = Some ty"
    "enum_at order_statuses (sq_column_int sq (SqlInt (enum_code order_statuses st))) = Some st"
    "enum_at event_types (sq_column_int sq (SqlInt (enum_code event_types et))) = Some et"
proof -
  have c: "in_i32 i \<Longrightarrow> sq_column_int sq (SqlInt i) = i" for i using assms by (simp add: sqlite_columns_def)
  show "enum_at sides (sq_column_int sq (SqlInt (enum_code sides sd))) = Some sd"
    by (cases sd) (simp_all add: c in_i32_def enum_at_def sides_def)
  show "enum_at order_types (sq_column_int sq (SqlInt (enum_code order_types ty))) = Some ty"
    by (cases ty) (simp_all add: c in_i32_def enum_at_def order_types_def)
  show "enum_at order_statuses (sq_column_int sq (SqlInt (enum_code order_statuses st))) = Some st"
    by (cases st) (simp_all add: c in_i32_def enum_at_def order_statuses_def)
  show "enum_at event_types (sq_column_int sq (SqlInt (enum_code event_types et))) = Some et"
    by (cases et) (simp_all add: c in_i32_def enum_at_def event_types_def)
qed

definition order_in_range :: "order \<Rightarrow> bool" where
  "order_in_range ord \<longleftrightarrow> list_all in_i64 [o_price ord, o_order_qty ord, o_filled_qty ord, o_remaining_qty ord,
     o_created_at ord, o_updated_at ord]"

text \<open>
  C29: What the database writes it reads back. For orders, events and executions whose numbers are
  64-bit values, decoding the row of bound parameters gives the same record, every enumerator and
  every unsigned id included; the only loss is in texts, which are cut at their first NUL
  character because they are bound as C strings.
\<close>

theorem rows_roundtrip:
  assumes "sqlite_columns sq" and "order_in_range ord" and "in_i64 (ev_timestamp ev)"
    and "list_all in_i64 [fl_price f, fl_quantity f, fl_timestamp f]"
  shows "RowToOrder sq (order_row ord) = Some (ord\<lparr>o_client_order_id := c_str (o_client_order_id ord),
            o_symbol := \<lparr>sym_value = c_str (sym_value (o_symbol ord))\<rparr>\<rparr>)
    \<and> RowToEvent sq (event_row ev) = Some (ev\<lparr>ev_detail := c_str (ev_detail ev)\<rparr>)
    \<and> RowToFill sq (fill_row f) = Some (f\<lparr>fl_symbol := \<lparr>sym_value = c_str (sym_value (fl_symbol f))\<rparr>\<rparr>)"
  using assms
  by (simp add: RowToOrder_def order_row_def RowToEvent_def event_row_def RowToFill_def fill_row_def
      order_in_range_def ToNanos_def FromNanos_def)

definition db_order :: order where
  "db_order = \<lparr>o_internal_id = - 1, o_client_order_id = ''c-1'', o_symbol = \<lparr>sym_value = ''7203''\<rparr>, o_side = kSell,
     o_type = kLimit, o_price = 100, o_order_qty = 5, o_filled_qty = 2, o_remaining_qty = 3,
     o_status = kPartiallyFilled, o_created_at = 9, o_updated_at = 10\<rparr>"

theorem rows_roundtrip_witness: "RowToOrder plain_sqlite (order_row db_order) = Some db_order"
  using rows_roundtrip [OF plain_sqlite_columns, of db_order "\<lparr>ev_event_id = 1, ev_order_id = 1, ev_type = kFill,
      ev_timestamp = 9, ev_detail = ''''\<rparr>" "\<lparr>fl_execution_id = 1, fl_symbol = \<lparr>sym_value = ''7203''\<rparr>,
      fl_aggressive_order_id = 2, fl_passive_order_id = 1, fl_aggressive_side = kBuy, fl_price = 100,
      fl_quantity = 2, fl_timestamp = 9\<rparr>"]
  by (simp add: db_order_def order_in_range_def in_i64_def i64_min_def i64_max_def c_str_def)

text \<open>
  Errors of single reads and of writes are reported, never swallowed: a write answers
  kDatabaseError unless its statement is prepared and its one step ends with SQLITE_DONE; LoadOrder
  answers kDatabaseError when the statement cannot be prepared and kOrderNotFound when the first
  step gives no row, whether there is none or the step failed; LoadServiceState tells these two
  apart. The list queries, by contrast, never report a failing step: whatever code ends the loop,
  they return the rows read so far as success.
\<close>

theorem database_errors:
  "fst (Database_SaveOrder sq ord d) =
     (if sq_prepare sq sql_save_order d \<and> (case sq_step sq sql_save_order (order_row ord) d of (rows, rc, _) \<Rightarrow> rows = [] \<and> rc = SQLITE_DONE)
      then Inr () else Inl kDatabaseError)
  \<and> fst (Database_LoadOrder sq oid d) =
     (if \<not> sq_prepare sq sql_load_order d then Inl kDatabaseError
      else case fst (sq_step sq sql_load_order [bind_u64 oid] d) of [] \<Rightarrow> Inl kOrderNotFound | row # _ \<Rightarrow> Inr (RowToOrder sq row))
  \<and> (fst (Database_LoadServiceState sq key d) = Inr None \<longleftrightarrow> sq_prepare sq sql_load_state d
     \<and> fst (sq_step sq sql_load_state [bind_text key] d) = []
     \<and> fst (snd (sq_step sq sql_load_state [bind_text key] d)) = SQLITE_DONE)
  \<and> fst (Database_LoadOrders sq d) =
     (if sq_prepare sq sql_load_orders d then Inr (those (map (RowToOrder sq) (fst (sq_step sq sql_load_orders [] d))))
      else Inl kDatabaseError)"
  by (auto simp: Database_SaveOrder_def run_write_def Database_LoadOrder_def Database_LoadServiceState_def
      Database_LoadOrders_def run_query_def split: prod.splits list.splits)

end
