(* ===== verification/Recovery.thy ===== *)
theory Recovery
  imports Time_Priority Database_Properties
begin

section \<open>Recovery from the database\<close>

text \<open>
  What RestoreFromDatabase makes of the rows it loads. The orders are restored one by one into empty
  books; when they come in the order of their ids, every book gets the resting orders it had, in the
  same priority, and the rebuilt order manager satisfies the invariants of a running one (\<open>om_inv\<close>).
\<close>

subsection \<open>Restoring one order\<close>

definition books_ok :: "matching_engine \<Rightarrow> bool" where
  "books_ok me \<longleftrightarrow> distinct (map fst (me_books me))
     \<and> (\<forall>sv b. um_find (me_books me) sv = Some b \<longrightarrow> sym_value (ob_symbol b) = sv \<and> book_ok b \<and> fifo_book b)"

lemma books_ok_book_of:
  "books_ok me \<Longrightarrow> book_ok (book_of me s) \<and> fifo_book (book_of me s) \<and> sym_value (ob_symbol (book_of me s)) = sym_value s"
  by (simp add: books_ok_def book_of_def split: option.splits)

lemma books_ok_sequenced: "om_ok om \<Longrightarrow> sequenced om \<Longrightarrow> books_ok (om_engine om)"
  using engine_ok_find [OF om_okD(1)] engine_ok_distinct [OF om_okD(1)]
  by (auto simp: books_ok_def sequenced_def fifo_engine_def)

lemma order_open_restorable:
  "order_ok ord \<Longrightarrow> is_open ord \<longleftrightarrow> (o_status ord = kAccepted \<or> o_status ord = kPartiallyFilled) \<and> o_type ord = kLimit
     \<and> 0 < o_remaining_qty ord"
  by (auto simp: order_ok_def status_ok_def is_open_def)

lemma Engine_Restore:
  assumes ok: "books_ok me" and ord: "order_ok ord" "is_open ord"
    and new: "\<And>k. live me (sym_value (o_symbol ord)) k \<noteq> None \<Longrightarrow> k < o_internal_id ord"
  obtains me' e where "MatchingEngine_RestoreRestingOrder me ord = (Inr (), me')" "books_ok me'"
    "me_next_execution_id me' = me_next_execution_id me" "entry_view e = (o_side ord, o_price ord, o_remaining_qty ord)"
    "live me' = (\<lambda>sv k. if sv = sym_value (o_symbol ord) \<and> k = o_internal_id ord then Some e else live me sv k)"
proof -
  let ?s = "o_symbol ord" and ?k = "o_internal_id ord"
  let ?e = "\<lparr>be_order_id = ?k, be_side = o_side ord, be_price = o_price ord, be_remaining_qty = o_remaining_qty ord,
      be_timestamp = o_created_at ord\<rparr>"
  obtain b me1 where g: "GetOrCreateBook me ?s = (b, me1)" by force
  note G = GetOrCreateBook_spec [OF g]
  have b: "book_ok b" "fifo_book b" "sym_value (ob_symbol b) = sym_value ?s" using books_ok_book_of [OF ok] G by auto
  have older: "be_order_id x < ?k" if "x \<in> set (book_entries b)" for x
    using that G by (intro new) (auto simp: live_eq entry_map_None_iff)
  have pos: "0 < o_remaining_qty ord" "0 < o_price ord" "o_type ord = kLimit"
    using ord by (auto simp: order_ok_def status_ok_def is_open_def)
  have "?k \<notin> be_order_id ` set (book_entries b)" using older by fastforce
  from Restore_spec [OF b(1) this pos(1,2), of "o_side ord" "o_created_at ord"] obtain b' where
    r: "OrderBook_RestoreRestingOrder b ?k (o_side ord) (o_price ord) (o_remaining_qty ord) (o_created_at ord) = (Inr (), b')"
    and b': "book_ok b'" "abs_book b' = set_pb_side (o_side ord) (insert_by_priority (o_side ord) ?e
        (om_flat (book_side (o_side ord) b))) (abs_book b)"
    by auto
  have flat: "om_flat (book_side (o_side ord) b') = insert_by_priority (o_side ord) ?e (om_flat (book_side (o_side ord) b))"
    "om_flat (book_side (opposite (o_side ord)) b') = om_flat (book_side (opposite (o_side ord)) b)"
    using arg_cong [OF b'(2), of "pb_side (o_side ord)"] arg_cong [OF b'(2), of "pb_side (opposite (o_side ord))"]
    by (simp_all add: book_simps)
  have "\<forall>x \<in> set (om_flat (book_side (o_side ord) b)). be_order_id x < be_order_id ?e"
    using older by (cases "o_side ord") (simp_all add: book_entries_def)
  with b(2) have fifo: "fifo_book b'"
    by (simp add: fifo_book_sides [of _ "o_side ord"] flat sorted_insert_by_priority)
  have m: "mset (book_entries b') = mset (?e # book_entries b)"
    by (simp add: mset_book_entries [of _ "o_side ord"] flat)
  have "distinct (map be_order_id (book_entries b'))" using b'(1) by (simp add: book_ok_def index_ok_def)
  from entry_map_mset [OF this m [symmetric]]
  have entries: "entry_map (book_entries b') = entry_map (?e # book_entries b)" by simp
  let ?me' = "put_book ?s b' me1"
  have find: "um_find (me_books ?me') = (um_find (me_books me))(sym_value ?s \<mapsto> b')"
    using G by (simp only: put_book_find) (auto simp: fun_eq_iff)
  show thesis
  proof (rule that)
    show "MatchingEngine_RestoreRestingOrder me ord = (Inr (), ?me')"
      using pos by (simp add: MatchingEngine_RestoreRestingOrder_def g r)
    have "ob_symbol b' = ob_symbol b"
      using r by (auto simp: OrderBook_RestoreRestingOrder_def Rest_def Let_def split: if_splits)
    moreover have "distinct (map fst (me_books ?me'))" using ok G by (simp add: books_ok_def put_book_def umap_simps)
    ultimately show "books_ok ?me'" using ok b'(1) b(3) fifo unfolding books_ok_def find by auto
    show "me_next_execution_id ?me' = me_next_execution_id me" using G by (simp add: put_book_def)
    show "entry_view ?e = (o_side ord, o_price ord, o_remaining_qty ord)" by (simp add: entry_view_def)
    show "live ?me' = (\<lambda>sv k. if sv = sym_value ?s \<and> k = ?k then Some ?e else live me sv k)"
      using G by (auto simp: live_update [OF find] entries live_eq fun_eq_iff)
  qed
qed

subsection \<open>Restoring all orders\<close>

definition restoring :: "'d order_manager \<Rightarrow> bool" where
  "restoring om \<longleftrightarrow> books_ok (om_engine om) \<and> tracks (live (om_engine om)) (um_find (om_orders om))
     \<and> distinct (map fst (om_orders om))"

lemma restore_step:
  assumes ok: "restoring om" and ord: "order_ok ord"
    and new: "\<And>k. um_find (om_orders om) k \<noteq> None \<Longrightarrow> k < o_internal_id ord"
  obtains om' where "restore_orders (ord # ords) m om = restore_orders ords (max m (o_internal_id ord)) om'" "restoring om'"
    "um_find (om_orders om') = (um_find (om_orders om))(o_internal_id ord \<mapsto> ord)"
    "om' = om\<lparr>om_orders := om_orders om', om_engine := om_engine om'\<rparr>"
    "me_next_execution_id (om_engine om') = me_next_execution_id (om_engine om)"
proof -
  let ?k = "o_internal_id ord" and ?om1 = "put_order (o_internal_id ord) ord om"
  have tbl: "um_find (um_assign ?k ord (om_orders om)) = (um_find (om_orders om))(?k \<mapsto> ord)"
    by (simp add: umap_simps fun_eq_iff)
  have before: "map_option entry_view (live (om_engine om) sv k) = order_view sv (um_find (om_orders om) k)" for sv k
    using ok by (simp add: restoring_def tracks_def)
  have older: "k < ?k" if "live (om_engine om) sv k \<noteq> None" for sv k
    using that before [of sv k] by (intro new) (cases "um_find (om_orders om) k"; auto simp: order_view_def)
  show thesis
  proof (cases "is_open ord")
    case False
    then have "restore_orders (ord # ords) m om = restore_orders ords (max m ?k) ?om1"
      using order_open_restorable [OF ord] by (auto simp: Let_def)
    moreover have "order_view sv (Some ord) = None" for sv using False by (simp add: order_view_def)
    moreover have "order_view sv (um_find (om_orders om) ?k) = None" for sv
      using older [of sv ?k] before [of sv ?k] by (cases "live (om_engine om) sv ?k") auto
    ultimately show thesis
      using ok before by (intro that [of ?om1]) (auto simp: restoring_def put_order_def tracks_def tbl distinct_um_assign)
  next
    case True
    have "books_ok (om_engine ?om1)" using ok by (simp add: restoring_def put_order_def)
    from this ord True older [of "sym_value (o_symbol ord)"] obtain me' e where
      E: "MatchingEngine_RestoreRestingOrder (om_engine ?om1) ord = (Inr (), me')" "books_ok me'"
      "me_next_execution_id me' = me_next_execution_id (om_engine ?om1)"
      "entry_view e = (o_side ord, o_price ord, o_remaining_qty ord)"
      "live me' = (\<lambda>sv k. if sv = sym_value (o_symbol ord) \<and> k = ?k then Some e else live (om_engine ?om1) sv k)"
      by (rule Engine_Restore) (auto simp: put_order_def)
    have "restore_orders (ord # ords) m om = restore_orders ords (max m ?k) (?om1\<lparr>om_engine := me'\<rparr>)"
      using order_open_restorable [OF ord] True E(1) by (simp add: Let_def)
    moreover have "live (om_engine om) sv ?k = None" for sv using older [of sv ?k] by (cases "live (om_engine om) sv ?k") auto
    then have "tracks (live me') ((um_find (om_orders om))(?k \<mapsto> ord))"
      using before True unfolding tracks_def E(5) by (auto simp: put_order_def order_view_def E(4))
    ultimately show thesis
      using E(2,3) ok
      by (intro that [of "?om1\<lparr>om_engine := me'\<rparr>"]) (simp_all add: restoring_def put_order_def tbl fun_upd_def distinct_um_assign)
  qed
qed


lemma restore_all:
  assumes "restoring om" and "\<forall>ord \<in> set ords. order_ok ord" and "sorted_wrt (<) (map o_internal_id ords)"
    and "\<forall>k ord. um_find (om_orders om) k \<noteq> None \<longrightarrow> ord \<in> set ords \<longrightarrow> k < o_internal_id ord"
  shows "\<exists>om'. restore_orders ords m om = (Inr (fold (\<lambda>ord m. max m (o_internal_id ord)) ords m), om') \<and> restoring om'
    \<and> um_find (om_orders om') = um_find (om_orders om) ++ map_of (map (\<lambda>ord. (o_internal_id ord, ord)) ords)
    \<and> om' = om\<lparr>om_orders := om_orders om', om_engine := om_engine om'\<rparr>
    \<and> me_next_execution_id (om_engine om') = me_next_execution_id (om_engine om)"
  using assms
proof (induction ords arbitrary: m om)
  case Nil
  then show ?case by auto
next
  case (Cons ord ords)
  from Cons.prems obtain om1 where step: "restore_orders (ord # ords) m om = restore_orders ords (max m (o_internal_id ord)) om1"
    "restoring om1" "um_find (om_orders om1) = (um_find (om_orders om))(o_internal_id ord \<mapsto> ord)"
    "om1 = om\<lparr>om_orders := om_orders om1, om_engine := om_engine om1\<rparr>"
    "me_next_execution_id (om_engine om1) = me_next_execution_id (om_engine om)"
    using restore_step [of om ord ords m thesis] by auto
  have "\<forall>k x. um_find (om_orders om1) k \<noteq> None \<longrightarrow> x \<in> set ords \<longrightarrow> k < o_internal_id x"
    using Cons.prems(3,4) by (auto simp: step(3) split: if_splits)
  with Cons.IH [OF step(2), of "max m (o_internal_id ord)"] Cons.prems obtain om' where
    IH: "restore_orders ords (max m (o_internal_id ord)) om1 = (Inr (fold (\<lambda>ord m. max m (o_internal_id ord)) ords (max m (o_internal_id ord))), om')"
    "restoring om'" "um_find (om_orders om') = um_find (om_orders om1) ++ map_of (map (\<lambda>ord. (o_internal_id ord, ord)) ords)"
    "om' = om1\<lparr>om_orders := om_orders om', om_engine := om_engine om'\<rparr>"
    "me_next_execution_id (om_engine om') = me_next_execution_id (om_engine om1)"
    by auto
  have "o_internal_id ord \<notin> dom (map_of (map (\<lambda>ord. (o_internal_id ord, ord)) ords))"
    using Cons.prems(3) by (auto simp: dom_map_of_conv_image_fst)
  then have "um_find (om_orders om') = um_find (om_orders om) ++ map_of (map (\<lambda>ord. (o_internal_id ord, ord)) (ord # ords))"
    unfolding IH(3) step(3) by (auto simp: map_add_def fun_eq_iff domIff split: option.splits)
  moreover have "om' = om\<lparr>om_orders := om_orders om', om_engine := om_engine om'\<rparr>"
    by (subst IH(4), subst step(4)) simp
  moreover have "restore_orders (ord # ords) m om = (Inr (fold (\<lambda>ord m. max m (o_internal_id ord)) (ord # ords) m), om')"
    by (simp only: step(1) IH(1) fold_simps)
  moreover have "me_next_execution_id (om_engine om') = me_next_execution_id (om_engine om)" using IH(5) step(5) by simp
  ultimately show ?case using IH(2) by blast
qed

subsection \<open>The resting orders are determined by the table\<close>

text \<open>The resting orders of a side, best first, without the time they were queued.\<close>

definition resting :: "matching_engine \<Rightarrow> string \<Rightarrow> side \<Rightarrow> (order_id \<times> price \<times> quantity) list" where
  "resting me sv sd = (case um_find (me_books me) sv of None \<Rightarrow> []
     | Some b \<Rightarrow> map (\<lambda>e. (be_order_id e, be_price e, be_remaining_qty e)) (om_flat (book_side sd b)))"

definition resting_before :: "side \<Rightarrow> order_id \<times> price \<times> quantity \<Rightarrow> order_id \<times> price \<times> quantity \<Rightarrow> bool" where
  "resting_before sd x y \<longleftrightarrow> side_cmp sd (fst (snd x)) (fst (snd y)) \<or> fst (snd x) = fst (snd y) \<and> fst x < fst y"

lemma sorted_wrt_unique:
  assumes "\<And>x y. R x y \<Longrightarrow> \<not> R y x" and "sorted_wrt R xs" "sorted_wrt R ys" "set xs = set ys"
  shows "xs = ys"
  using assms(2-)
proof (induction xs arbitrary: ys)
  case (Cons x xs)
  have irr: "\<not> R z z" for z using assms(1) by blast
  from Cons.prems(3) obtain y ys' where ys: "ys = y # ys'" by (cases ys) auto
  have xy: "x = y"
  proof (rule ccontr)
    assume "x \<noteq> y"
    then have "R x y" "R y x" using Cons.prems ys by auto
    with assms(1) show False by blast
  qed
  have "x \<notin> set xs" "y \<notin> set ys'" using Cons.prems ys irr by auto
  then have "set xs = set ys'" using Cons.prems(3) ys xy by (simp add: insert_ident)
  with Cons ys xy show ?case by auto
qed simp

lemma resting_sorted: "books_ok me \<Longrightarrow> sorted_wrt (resting_before sd) (resting me sv sd)"
  by (auto simp: resting_def books_ok_def fifo_book_def sorted_wrt_map resting_before_def by_priority_def [abs_def]
      split: option.splits)

lemma resting_set:
  assumes ok: "books_ok me" and tr: "tracks (live me) tbl"
  shows "set (resting me sv sd) = {(k, p, q). order_view sv (tbl k) = Some (sd, p, q)}"
proof (rule set_eqI)
  fix x :: "order_id \<times> price \<times> quantity"
  obtain k p q where x: "x = (k, p, q)" by (metis prod_cases3)
  have "order_view sv (tbl k) = map_option entry_view (live me sv k)" using tr by (simp add: tracks_def)
  moreover have "(k, p, q) \<in> set (resting me sv sd) \<longleftrightarrow> map_option entry_view (live me sv k) = Some (sd, p, q)"
  proof (cases "um_find (me_books me) sv")
    case (Some b)
    with ok have b: "book_ok b" by (simp add: books_ok_def)
    have dist: "distinct (map be_order_id (book_entries b))" using b by (simp add: book_ok_def index_ok_def)
    have side: "e \<in> set (om_flat (book_side sd b)) \<longleftrightarrow> e \<in> set (book_entries b) \<and> be_side e = sd" for e
    proof -
      have "x \<in> set (om_flat (ob_bids b)) \<Longrightarrow> be_side x = kBuy" "x \<in> set (om_flat (ob_asks b)) \<Longrightarrow> be_side x = kSell" for x
        using ladder_ok_entries [of kBuy "ob_bids b" x] ladder_ok_entries [of kSell "ob_asks b" x] b
        by (auto simp: book_ok_def)
      then show ?thesis by (cases sd) (auto simp: book_entries_def)
    qed
    have "(\<exists>e. e \<in> set (book_entries b) \<and> be_order_id e = k \<and> entry_view e = (sd, p, q)) \<longleftrightarrow>
        map_option entry_view (entry_map (book_entries b) k) = Some (sd, p, q)"
      using entry_map_in [OF dist] entry_map_SomeD by fastforce
    moreover have "(k, p, q) \<in> set (resting me sv sd) \<longleftrightarrow> (\<exists>e. e \<in> set (om_flat (book_side sd b))
        \<and> be_order_id e = k \<and> be_price e = p \<and> be_remaining_qty e = q)"
      by (auto simp: resting_def Some)
    ultimately show ?thesis unfolding live_found [OF Some] side entry_view_def by auto
  qed (simp add: resting_def live_def)
  ultimately show "x \<in> set (resting me sv sd) \<longleftrightarrow> x \<in> {(k, p, q). order_view sv (tbl k) = Some (sd, p, q)}"
    by (simp add: x)
qed

lemma resting_determined:
  assumes "books_ok me" "tracks (live me) tbl" "books_ok me'" "tracks (live me') tbl"
  shows "resting me' = resting me"
proof (intro ext sorted_wrt_unique)
  fix sv sd
  show "sorted_wrt (resting_before sd) (resting me' sv sd)" "sorted_wrt (resting_before sd) (resting me sv sd)"
    using assms resting_sorted by blast+
  show "set (resting me' sv sd) = set (resting me sv sd)" using assms by (simp add: resting_set)
  show "\<And>x y. resting_before sd x y \<Longrightarrow> \<not> resting_before sd y x" by (cases sd) (auto simp: resting_before_def)
qed


text \<open>Books with the same resting orders cross or do not cross together.\<close>

lemma uncrossed_resting:
  assumes ok: "books_ok me" and b: "um_find (me_books me) sv = Some b"
  shows "uncrossed b \<longleftrightarrow> (\<forall>x \<in> set (resting me sv kBuy). \<forall>y \<in> set (resting me sv kSell). fst (snd x) < fst (snd y))"
proof -
  have prices: "(\<lambda>e. be_price e) ` set (om_flat (book_side sd b)) = fst ` set (book_side sd b)" for sd
    using ok b book_ok_side [of b sd] ladder_ok_entries [of sd "book_side sd b"] ladder_ok_level [of sd "book_side sd b"]
    by (fastforce simp: books_ok_def)
  have "(\<lambda>x. fst (snd x)) ` set (resting me sv sd) = fst ` set (book_side sd b)" for sd
    unfolding prices [symmetric] by (simp add: resting_def b image_image)
  note P = this [of kBuy] this [of kSell]
  have "uncrossed b \<longleftrightarrow> (\<forall>p \<in> fst ` set (ob_bids b). \<forall>q \<in> fst ` set (ob_asks b). p < q)" by (simp add: uncrossed_def)
  also have "\<dots> \<longleftrightarrow> (\<forall>p \<in> (\<lambda>x. fst (snd x)) ` set (resting me sv kBuy). \<forall>q \<in> (\<lambda>x. fst (snd x)) ` set (resting me sv kSell). p < q)"
    using P by simp
  finally show ?thesis by simp
qed

lemma engine_ok_restored:
  assumes ok: "engine_ok me" "books_ok me" and me': "books_ok me'" "resting me' = resting me"
  shows "engine_ok me'"
proof (rule engine_okI)
  fix sv b' assume b': "um_find (me_books me') sv = Some b'"
  have "uncrossed b'"
    unfolding uncrossed_resting [OF me'(1) b'] me'(2)
  proof (cases "um_find (me_books me) sv")
    case (Some b)
    with uncrossed_resting [OF ok(2) Some] engine_ok_find [OF ok(1) Some]
    show "\<forall>x \<in> set (resting me sv kBuy). \<forall>y \<in> set (resting me sv kSell). fst (snd x) < fst (snd y)" by blast
  qed (simp add: resting_def)
  with me'(1) b' show "sym_value (ob_symbol b') = sv \<and> book_ok b' \<and> uncrossed b'" by (simp add: books_ok_def)
qed (use me'(1) in \<open>simp add: books_ok_def\<close>)

subsection \<open>The counters\<close>

lemma fold_max_Max: "fold (\<lambda>x m. max m (f x)) xs a = Max (insert a (f ` set xs))"
  for f :: "'a \<Rightarrow> 'b :: linorder"
proof (induction xs arbitrary: a)
  case (Cons x xs)
  have "Max (insert (max a (f x)) (f ` set xs)) = Max (insert a (insert (f x) (f ` set xs)))"
    by (cases "xs = []") (simp_all add: max.assoc)
  with Cons show ?case by simp
qed simp

lemma max_numbered:
  assumes "map f xs = map of_nat [1..<Suc n]" and "n < 2 ^ 64"
  shows "fold (\<lambda>x m. max m (f x)) xs 0 = (of_nat n :: u64)"
proof -
  have "f ` set xs = of_nat ` {1..<Suc n}"
    using arg_cong [OF assms(1), of set] by (simp only: set_map set_upt)
  then have "fold (\<lambda>x m. max m (f x)) xs 0 = Max (insert 0 (of_nat ` {1..<Suc n}))"
    by (simp add: fold_max_Max)
  also have "\<dots> = of_nat n"
  proof (rule Max_eqI)
    fix y :: u64 assume "y \<in> insert 0 (of_nat ` {1..<Suc n})"
    then show "y \<le> of_nat n"
      using assms(2) by (auto simp: word_le_nat_alt unat_of_nat)
  next
    show "of_nat n \<in> insert (0 :: u64) (of_nat ` {1..<Suc n})"
      by (cases "n = 0") (auto intro: imageI [of n])
  qed simp
  finally show ?thesis .
qed

lemma max_order_id:
  assumes "f ` set xs = {k. k \<noteq> 0 \<and> k < n}" and "n \<noteq> (0 :: u64)"
  shows "fold (\<lambda>x m. max m (f x)) xs 0 + 1 = n"
proof -
  have less: "k \<le> n - 1 \<longleftrightarrow> k < n" for k
    using assms(2) unat_minus_one [OF assms(2)] by (auto simp: word_le_nat_alt word_less_nat_alt word_unat_eq_iff)
  have "fold (\<lambda>x m. max m (f x)) xs 0 = Max (insert 0 {k. k \<noteq> 0 \<and> k < n})"
    using assms(1) by (simp add: fold_max_Max)
  also have "\<dots> = n - 1"
  proof (rule Max_eqI)
    show "n - 1 \<in> insert 0 {k. k \<noteq> 0 \<and> k < n}" using less [of "n - 1"] by auto
  qed (use assms(2) in \<open>auto simp: less word_neq_0_conv\<close>)
  finally show ?thesis by simp
qed

subsection \<open>RestoreFromDatabase\<close>

lemma RestoreFromDatabase_rebuilds:
  assumes ok: "om_ok om" "sequenced om" "numbered om"
    and small: "length (om_events om) < 2 ^ 64" "Suc (length (om_executions om)) < 2 ^ 64"
    and stored: "Database_LoadOrders sq d = (Inr (Some ords), d1)"
      "Database_LoadAllEvents sq d1 = (Inr (Some (om_events om)), d2)"
      "Database_LoadExecutions sq d2 = (Inr (Some (om_executions om)), d3)"
    and ords: "sorted_wrt (<) (map o_internal_id ords)" "set ords = ran (um_find (om_orders om))"
  shows "\<exists>om'. RestoreFromDatabase sq (OrderManager risk MatchingEngine (Some d) clk) = Some (Inr (), om')
    \<and> um_find (om_orders om') = um_find (om_orders om) \<and> om_events om' = om_events om \<and> om_executions om' = om_executions om
    \<and> om_next_order_id om' = om_next_order_id om \<and> om_next_event_id om' = om_next_event_id om
    \<and> me_next_execution_id (om_engine om') = me_next_execution_id (om_engine om)
    \<and> resting (om_engine om') = resting (om_engine om) \<and> om_db om' = Some d3 \<and> restoring om'"
proof -
  let ?n = "length (om_executions om)"
  let ?om0 = "(OrderManager risk MatchingEngine (Some d) clk)\<lparr>om_db := Some d3, om_orders := [], om_events := om_events om,
    om_executions := om_executions om, om_engine := SeedNextExecutionId MatchingEngine (of_nat ?n + 1)\<rparr>"
  have ev: "fold (\<lambda>ev m. max m (ev_event_id ev)) (om_events om) 0 = of_nat (length (om_events om))"
    using ok(3) small(1) by (intro max_numbered) (auto simp: numbered_def)
  have ex: "fold (\<lambda>f m. max m (fl_execution_id f)) (om_executions om) 0 = of_nat ?n"
    using ok(2) small(2) by (intro max_numbered) (auto simp: sequenced_def)
  have "restoring ?om0"
    by (simp add: restoring_def books_ok_def tracks_def live_def order_view_def SeedNextExecutionId_def MatchingEngine_def)
  moreover have mem: "order_ok ord \<and> um_find (om_orders om) (o_internal_id ord) = Some ord" if "ord \<in> set ords" for ord
    using that ords(2) om_okD(4) [OF ok(1)] by (auto simp: ran_def)
  ultimately obtain om' where R: "restore_orders ords 0 ?om0 = (Inr (fold (\<lambda>ord m. max m (o_internal_id ord)) ords 0), om')"
    "restoring om'" "um_find (om_orders om') = map_of (map (\<lambda>ord. (o_internal_id ord, ord)) ords)"
    "om' = ?om0\<lparr>om_orders := om_orders om', om_engine := om_engine om'\<rparr>"
    "me_next_execution_id (om_engine om') = me_next_execution_id (om_engine ?om0)"
    using restore_all [of ?om0 ords 0] ords(1) by auto
  have tbl: "um_find (om_orders om') = um_find (om_orders om)"
  proof
    fix k
    have inj: "distinct (map fst (map (\<lambda>ord. (o_internal_id ord, ord)) ords))"
      using ords(1) by (simp add: strict_sorted_iff comp_def)
    show "um_find (om_orders om') k = um_find (om_orders om) k"
    proof (cases "um_find (om_orders om) k")
      case None
      then have "k \<notin> o_internal_id ` set ords" using mem by fastforce
      then have "um_find (om_orders om') k = None" by (auto simp: R(3) map_of_eq_None_iff)
      with None show ?thesis by simp
    next
      case (Some ord)
      then have "ord \<in> set ords" "o_internal_id ord = k" using ords(2) om_okD(4) [OF ok(1) Some] by (auto simp: ran_def)
      with map_of_eq_Some_iff [OF inj, of k ord] Some show ?thesis by (auto simp: R(3))
    qed
  qed
  have "o_internal_id ` set ords = dom (um_find (om_orders om))"
    using mem ords(2) om_okD(4) [OF ok(1)] by (fastforce simp: ran_def)
  then have next_id: "fold (\<lambda>ord m. max m (o_internal_id ord)) ords 0 + 1 = om_next_order_id om"
    using ok(2) by (intro max_order_id) (auto simp: sequenced_def)
  have books: "books_ok (om_engine om')" "tracks (live (om_engine om')) (um_find (om_orders om))"
    using R(2) by (simp_all add: restoring_def tbl)
  let ?om2 = "om'\<lparr>om_next_order_id := om_next_order_id om, om_next_event_id := of_nat (length (om_events om)) + 1\<rparr>"
  have "RestoreFromDatabase sq (OrderManager risk MatchingEngine (Some d) clk) = Some (Inr (), ?om2)"
    using stored R(1) next_id by (simp add: RestoreFromDatabase_def OrderManager_def ev ex Let_def)
  moreover have "unat (of_nat (Suc ?n) :: u64) = Suc ?n" using small(2) by (simp only: unat_of_nat) simp
  then have "max 1 (of_nat ?n + 1) = (of_nat (Suc ?n) :: u64)"
    by (simp add: max_def word_le_nat_alt add.commute)
  moreover have "om_events om' = om_events om" "om_executions om' = om_executions om" "om_db om' = Some d3" by (subst R(4), simp)+
  ultimately show ?thesis
    using tbl R(5) ok resting_determined [OF books_ok_sequenced [OF ok(1,2)] om_okD(3) [OF ok(1)] books]
    using R(2) by (intro exI [of _ ?om2]) (simp add: SeedNextExecutionId_def sequenced_def numbered_def restoring_def)
qed

text \<open>Everything that holds of an order manager between two operations, in one predicate.\<close>

definition om_inv :: "'d order_manager \<Rightarrow> bool" where
  "om_inv om \<longleftrightarrow> om_ok om \<and> sequenced om \<and> numbered om \<and> (\<forall>k. replays om k)"

text \<open>The invariants of a running order manager hold for the one that was rebuilt from it.\<close>

lemma rebuilt_ok:
  assumes inv: "om_inv om"
    and same: "um_find (om_orders om') = um_find (om_orders om)" "om_events om' = om_events om"
      "om_executions om' = om_executions om" "om_next_order_id om' = om_next_order_id om"
      "om_next_event_id om' = om_next_event_id om"
      "me_next_execution_id (om_engine om') = me_next_execution_id (om_engine om)"
      "resting (om_engine om') = resting (om_engine om)" and new: "restoring om'"
  shows "om_inv om'"
proof -
  note ok = inv [unfolded om_inv_def, THEN conjunct1] inv [unfolded om_inv_def, THEN conjunct2, THEN conjunct1]
    inv [unfolded om_inv_def, THEN conjunct2, THEN conjunct2]
  have "engine_ok (om_engine om')"
    by (rule engine_ok_restored [OF om_okD(1) [OF ok(1)] books_ok_sequenced [OF ok(1,2)] _ same(7)])
      (use new in \<open>simp add: restoring_def\<close>)
  then have "om_ok om'" using new ok(1) by (simp add: om_ok_def restoring_def same)
  moreover have "sequenced om'"
    using ok(2) new by (simp add: sequenced_def restoring_def books_ok_def fifo_engine_def same)
  moreover have "numbered om' \<and> (\<forall>k. replays om' k)"
    using ok(3) by (simp add: numbered_def replays_def [abs_def] GetEvents_def same del: upt_Suc)
  ultimately show ?thesis by (simp add: om_inv_def)
qed

end
