(* ===== verification/Reachability.thy ===== *)
theory Reachability
  imports Recovery
begin

section \<open>Reachable states of the order manager\<close>

text \<open>
  The steps of a running order manager, its restarts, and the states they reach. Every reachable
  state satisfies \<open>om_inv\<close>; a step only extends the logs and moves orders along their lifecycle.
\<close>

subsection \<open>Steps\<close>

text \<open>
  Calls of SubmitOrder and CancelOrder, as long as fewer than \<open>2 ^ 64 - 1\<close> orders have been given an
  id. Between calls the risk manager may be replaced (the market data handler and the operator change
  its limits and prices) and time passes.
\<close>

inductive om_step :: "'d sqlite \<Rightarrow> 'd order_manager \<Rightarrow> 'd order_manager \<Rightarrow> bool" for sq where
  step_submit: "om_next_order_id om \<noteq> - 1 \<Longrightarrow> SubmitOrder sq req om = (res, om') \<Longrightarrow> om_step sq om om'"
| step_cancel: "OrderManager_CancelOrder sq creq om = (res', om') \<Longrightarrow> om_step sq om om'"
| step_risk: "om_step sq om (om\<lparr>om_risk := risk', om_clock := clk'\<rparr>)"

inductive_cases om_stepE: "om_step sq om om'"

text \<open>
  A restart on a database that kept every write: a new order manager, over an empty engine, any risk
  manager and a database whose rows are exactly the orders, events and executions of the old one, runs
  RestoreFromDatabase with success. Durability shows that a running server has such a database, and
  that the call succeeds, as long as no call to SQLite fails. Restarts after a failed write are no
  steps: the program drops the result of its writes, and what the tables missed is lost.
\<close>

definition holds_rows :: "'d sqlite \<Rightarrow> 'd order_manager \<Rightarrow> 'd \<Rightarrow> bool" where
  "holds_rows sq om d \<longleftrightarrow> (\<exists>ords d1 d2 d3. Database_LoadOrders sq d = (Inr (Some ords), d1)
     \<and> Database_LoadAllEvents sq d1 = (Inr (Some (om_events om)), d2)
     \<and> Database_LoadExecutions sq d2 = (Inr (Some (om_executions om)), d3)
     \<and> sorted_wrt (<) (map o_internal_id ords) \<and> set ords = ran (um_find (om_orders om)))"

inductive restart_step :: "'d sqlite \<Rightarrow> 'd order_manager \<Rightarrow> 'd order_manager \<Rightarrow> bool" for sq where
  step_restart: "holds_rows sq om d \<Longrightarrow> length (om_events om) < 2 ^ 64 \<Longrightarrow> Suc (length (om_executions om)) < 2 ^ 64 \<Longrightarrow>
    RestoreFromDatabase sq (OrderManager risk MatchingEngine (Some d) clk) = Some (Inr u, om') \<Longrightarrow> restart_step sq om om'"

inductive_cases restart_stepE: "restart_step sq om om'"

abbreviation system_step :: "'d sqlite \<Rightarrow> 'd order_manager \<Rightarrow> 'd order_manager \<Rightarrow> bool" where
  "system_step sq om om' \<equiv> om_step sq om om' \<or> restart_step sq om om'"

lemma om_inv_step: "om_step sq om om' \<Longrightarrow> om_inv om \<Longrightarrow> om_inv om'"
  unfolding om_inv_def
proof (erule om_stepE)
  fix req res
  assume s: "om_next_order_id om \<noteq> - 1" "SubmitOrder sq req om = (res, om')"
    and inv: "om_ok om \<and> sequenced om \<and> numbered om \<and> (\<forall>k. replays om k)"
  then show "om_ok om' \<and> sequenced om' \<and> numbered om' \<and> (\<forall>k. replays om' k)"
    using SubmitOrder_om_ok [OF _ s] sequenced_submit [OF _ s(1) _ s(2)] SubmitOrder_log [OF s(2)] SubmitOrder_replays [OF _ s]
    by (auto simp: log_extends_def)
next
  fix creq res'
  assume c: "OrderManager_CancelOrder sq creq om = (res', om')"
    and inv: "om_ok om \<and> sequenced om \<and> numbered om \<and> (\<forall>k. replays om k)"
  then show "om_ok om' \<and> sequenced om' \<and> numbered om' \<and> (\<forall>k. replays om' k)"
    using CancelOrder_om_ok [OF _ c] sequenced_cancel [OF _ _ c] CancelOrder_log [OF c] CancelOrder_replays [OF _ c]
    by (auto simp: log_extends_def)
next
  fix clk' risk'
  assume "om' = om\<lparr>om_risk := risk', om_clock := clk'\<rparr>" and "om_ok om \<and> sequenced om \<and> numbered om \<and> (\<forall>k. replays om k)"
  then show "om_ok om' \<and> sequenced om' \<and> numbered om' \<and> (\<forall>k. replays om' k)"
    by (auto simp: sequenced_def numbered_def replays_def om_simps intro: om_ok_cong)
qed

lemma restart_step_same:
  assumes inv: "om_inv om" and r: "restart_step sq om om'"
  shows "um_find (om_orders om') = um_find (om_orders om)" "om_events om' = om_events om"
    "om_executions om' = om_executions om" "om_next_order_id om' = om_next_order_id om"
    "om_next_event_id om' = om_next_event_id om" "resting (om_engine om') = resting (om_engine om)"
    "me_next_execution_id (om_engine om') = me_next_execution_id (om_engine om)" "om_inv om'"
proof -
  have ok: "om_ok om" "sequenced om" "numbered om" using inv by (simp_all add: om_inv_def)
  from r obtain d risk clk where d: "holds_rows sq om d" "length (om_events om) < 2 ^ 64"
    "Suc (length (om_executions om)) < 2 ^ 64"
    "RestoreFromDatabase sq (OrderManager risk MatchingEngine (Some d) clk) = Some (Inr (), om')"
    by (rule restart_stepE) (auto intro: that)
  from d(1) obtain ords d1 d2 d3 where L: "Database_LoadOrders sq d = (Inr (Some ords), d1)"
    "Database_LoadAllEvents sq d1 = (Inr (Some (om_events om)), d2)"
    "Database_LoadExecutions sq d2 = (Inr (Some (om_executions om)), d3)"
    "sorted_wrt (<) (map o_internal_id ords)" "set ords = ran (um_find (om_orders om))"
    unfolding holds_rows_def by blast
  note same = RestoreFromDatabase_rebuilds [OF ok d(2,3) L, of risk clk, unfolded d(4)]
  then show "um_find (om_orders om') = um_find (om_orders om)" "om_events om' = om_events om"
    "om_executions om' = om_executions om" "om_next_order_id om' = om_next_order_id om"
    "om_next_event_id om' = om_next_event_id om" "resting (om_engine om') = resting (om_engine om)"
    "me_next_execution_id (om_engine om') = me_next_execution_id (om_engine om)"
    by auto
  show "om_inv om'" using same by (intro rebuilt_ok [OF inv]) auto
qed

subsection \<open>Reachable states\<close>

text \<open>
  The states that steps and restarts reach from a fresh order manager over a fresh engine, for any
  SQLite, risk configuration, database and clock.
\<close>

inductive reachable_om :: "'d sqlite \<Rightarrow> 'd order_manager \<Rightarrow> bool" for sq where
  fresh_om: "reachable_om sq (OrderManager risk MatchingEngine db clk)"
| next_om: "reachable_om sq om \<Longrightarrow> system_step sq om om' \<Longrightarrow> reachable_om sq om'"

lemma submit_step: "reachable_om sq om \<Longrightarrow> om_next_order_id om \<noteq> - 1 \<Longrightarrow>
    SubmitOrder sq req om = (res, om') \<Longrightarrow> reachable_om sq om'"
  by (auto intro: next_om step_submit)

lemma cancel_om_step: "reachable_om sq om \<Longrightarrow> OrderManager_CancelOrder sq creq om = (res', om') \<Longrightarrow> reachable_om sq om'"
  by (auto intro: next_om step_cancel)

lemma risk_step: "reachable_om sq om \<Longrightarrow> reachable_om sq (om\<lparr>om_risk := risk', om_clock := clk'\<rparr>)"
  by (auto intro: next_om step_risk)

lemma om_inv_new: "om_inv (OrderManager risk MatchingEngine db clk)"
  by (simp add: om_inv_def om_ok_new sequenced_new)
    (simp add: numbered_def OrderManager_def replays_def [abs_def] GetEvents_def replay_def)

lemma om_inv_reachable: "reachable_om sq om \<Longrightarrow> om_inv om"
  by (induction rule: reachable_om.induct) (auto intro: om_inv_new om_inv_step restart_step_same)

lemma reachable_om_ok: "reachable_om sq om \<Longrightarrow> om_ok om"
  and reachable_sequenced: "reachable_om sq om \<Longrightarrow> sequenced om"
  and reachable_om_log: "reachable_om sq om \<Longrightarrow> numbered om \<and> (\<forall>k. replays om k)"
  using om_inv_reachable by (auto simp: om_inv_def)

lemma reachable_om_step: "reachable_om sq om \<Longrightarrow> om_step sq om om' \<Longrightarrow> reachable_om sq om'"
  by (auto intro: next_om)

lemma reachable_om_steps: "(system_step sq)\<^sup>*\<^sup>* om om' \<Longrightarrow> reachable_om sq om \<Longrightarrow> reachable_om sq om'"
  by (induction rule: rtranclp_induct) (auto intro: next_om)

lemma steps_system: "(om_step sq)\<^sup>*\<^sup>* om om' \<Longrightarrow> (system_step sq)\<^sup>*\<^sup>* om om'"
  by (induction rule: rtranclp_induct) (auto intro: rtranclp.rtrancl_into_rtrancl)

subsection \<open>What a step does to orders and logs\<close>

lemma step_log: "om_step sq om om' \<Longrightarrow> log_extends om om'"
  by (auto elim!: om_stepE intro: SubmitOrder_log CancelOrder_log log_extends_frame [where fs = "[]"])

lemma restart_log: "om_inv om \<Longrightarrow> restart_step sq om om' \<Longrightarrow> log_extends om om'"
  using restart_step_same [of om sq om'] by (simp add: log_extends_def om_inv_def)

lemma step_evolves:
  assumes "system_step sq om om'" and "reachable_om sq om" and "um_find (om_orders om) k = Some ord"
  shows "\<exists>ord'. um_find (om_orders om') k = Some ord' \<and> evolves ord ord'"
  using assms(1)
proof
  assume "om_step sq om om'"
  then show ?thesis
    using assms(2,3) reachable_om_ok by (auto elim!: om_stepE intro: SubmitOrder_evolves CancelOrder_evolves)
next
  assume "restart_step sq om om'"
  from restart_step_same [OF om_inv_reachable [OF assms(2)] this] assms(3) show ?thesis by simp
qed

lemma steps_evolve:
  assumes "(system_step sq)\<^sup>*\<^sup>* om om'" and "reachable_om sq om" and "um_find (om_orders om) k = Some ord"
  shows "\<exists>ord'. um_find (om_orders om') k = Some ord' \<and> evolves ord ord'"
  using assms
proof (induction rule: rtranclp_induct)
  case (step om1 om2)
  then obtain ord1 where "um_find (om_orders om1) k = Some ord1" "evolves ord ord1" by blast
  with step_evolves [OF step.hyps(2) reachable_om_steps [OF step.hyps(1) step.prems(1)]] evolves_trans
  show ?case by blast
qed auto

lemma steps_log:
  assumes "(system_step sq)\<^sup>*\<^sup>* om om'" and "reachable_om sq om"
  shows "log_extends om om'"
  using assms
proof (induction rule: rtranclp_induct)
  case (step om1 om2)
  then have "om_inv om1" using om_inv_reachable reachable_om_steps by blast
  with step show ?case by (blast intro: log_extends_trans step_log restart_log)
qed simp

end
