(* ===== verification/Order_Properties.thy ===== *)
theory Order_Properties
  imports Reachability
begin

section \<open>Properties of the order manager\<close>

text \<open>
  The order manager over every sequence of calls and restarts: its table of orders against the engine's books
  and the executions, the outcome of each call, the lifecycle of orders, the event log, and its
  independence from the database.
\<close>

lemma GetOrder_eq: "GetOrder om k = Inr ord \<longleftrightarrow> um_find (om_orders om) k = Some ord"
  by (simp add: GetOrder_def split: option.splits)

subsection \<open>A sample session\<close>

text \<open>A SQLite that refuses every statement, and a session of three orders and a cancel in symbol 7203.\<close>

definition null_sqlite :: "unit sqlite" where
  "null_sqlite = \<lparr>sq_open = (\<lambda>_. None), sq_exec = (\<lambda>_ d. (False, d)), sq_prepare = (\<lambda>_ _. False),
     sq_step = (\<lambda>_ _ d. ([], SQLITE_ERROR, d)), sq_column_int64 = (\<lambda>_. 0), sq_column_int = (\<lambda>_. 0),
     sq_column_text = (\<lambda>_. None)\<rparr>"

definition request :: "side \<Rightarrow> order_type \<Rightarrow> price \<Rightarrow> quantity \<Rightarrow> new_order_request" where
  "request sd ty p qty = \<lparr>nr_client_order_id = ''c'', nr_symbol = \<lparr>sym_value = ''7203''\<rparr>, nr_side = sd,
     nr_type = ty, nr_price = p, nr_quantity = qty\<rparr>"

definition session0 :: "unit order_manager" where
  "session0 = OrderManager (RiskManager default_limits) MatchingEngine None sample_clock"

definition submit :: "new_order_request \<Rightarrow> unit order_manager \<Rightarrow> unit order_manager" where
  "submit req om = snd (SubmitOrder null_sqlite req om)"

text \<open>After two sells; after a buy that fills the first and rests; after a market order.\<close>

definition session2 :: "unit order_manager" where
  "session2 = submit (request kSell kLimit 101 4) (submit (request kSell kLimit 100 5) session0)"

definition session3 :: "unit order_manager" where
  "session3 = submit (request kBuy kLimit 100 9) session2"

definition session4 :: "unit order_manager" where
  "session4 = submit (request kBuy kMarket 0 6) session3"

lemma submit_reachable:
  "reachable_om null_sqlite om \<Longrightarrow> om_next_order_id om \<noteq> - 1 \<Longrightarrow> reachable_om null_sqlite (submit req om)"
  unfolding submit_def by (rule submit_step) (auto intro: prod.collapse [symmetric])

lemma session0_reachable: "reachable_om null_sqlite session0"
  unfolding session0_def by (rule fresh_om)

lemmas om_eval = OrderManager_def submit_def request_def SubmitOrder_def risk_request_of_def Check_def
  CheckPriceBand_def CheckLotSize_def CheckTickSize_def CheckDailyLimit_def CheckRateLimit_def
  RiskManager_def default_limits_def one_second_def NextOrderId_def om_Now_def AppendEvent_def NextEventId_def
  with_db_def put_order_def order_of_request_def accept_order_def apply_passive_def fill_order_def
  final_status_def reject_by_risk_def sample_clock_def Now_def Let_def GetReferencePrice_def GetSymbolConfig_def

definition sample_order :: "order_id \<Rightarrow> side \<Rightarrow> order_type \<Rightarrow> price \<Rightarrow> quantity \<Rightarrow> quantity \<Rightarrow> order_status \<Rightarrow> order" where
  "sample_order k sd ty p qty filled st =
     \<lparr>o_internal_id = k, o_client_order_id = ''c'', o_symbol = \<lparr>sym_value = ''7203''\<rparr>, o_side = sd, o_type = ty,
      o_price = p, o_order_qty = qty, o_filled_qty = filled, o_remaining_qty = qty - filled, o_status = st,
      o_created_at = 9, o_updated_at = 9\<rparr>"

lemmas strings_eval = fill_detail_def u64_to_string_def int_to_string_def nat_to_string.simps

definition sample_event :: "u64 \<Rightarrow> order_id \<Rightarrow> event_type \<Rightarrow> string \<Rightarrow> order_event" where
  "sample_event eid k ty d = \<lparr>ev_event_id = eid, ev_order_id = k, ev_type = ty, ev_timestamp = 9, ev_detail = d\<rparr>"

definition sample_entry :: "order_id \<Rightarrow> side \<Rightarrow> price \<Rightarrow> quantity \<Rightarrow> book_entry" where
  "sample_entry k sd p qty = \<lparr>be_order_id = k, be_side = sd, be_price = p, be_remaining_qty = qty, be_timestamp = 9\<rparr>"

definition sample_fill :: "execution_id \<Rightarrow> order_id \<Rightarrow> order_id \<Rightarrow> price \<Rightarrow> quantity \<Rightarrow> fill" where
  "sample_fill x a b p qty = \<lparr>fl_execution_id = x, fl_symbol = \<lparr>sym_value = ''7203''\<rparr>, fl_aggressive_order_id = a,
     fl_passive_order_id = b, fl_aggressive_side = kBuy, fl_price = p, fl_quantity = qty, fl_timestamp = 9\<rparr>"

definition sample_risk :: "timestamp list \<Rightarrow> risk_manager" where
  "sample_risk ts = (RiskManager default_limits)\<lparr>rm_recent_orders := ts\<rparr>"

definition sample_events :: "order_event list" where
  "sample_events = [sample_event 1 1 kNewRequested ''c'', sample_event 2 1 kAccepted_event '''',
     sample_event 3 2 kNewRequested ''c'', sample_event 4 2 kAccepted_event '''',
     sample_event 5 3 kNewRequested ''c'', sample_event 6 3 kAccepted_event '''',
     sample_event 7 1 kFill ''exec=1 qty=5'', sample_event 8 3 kPartialFill ''exec=1 qty=5'',
     sample_event 9 4 kNewRequested ''c'', sample_event 10 4 kAccepted_event '''',
     sample_event 11 2 kFill ''exec=2 qty=4'', sample_event 12 4 kPartialFill ''exec=2 qty=4'']"

lemmas sample_defs = sample_risk_def sample_events_def sample_order_def sample_event_def sample_entry_def sample_fill_def

lemma session2_eq:
  "session2 = \<lparr>om_risk = sample_risk [9, 9],
     om_engine = \<lparr>me_books = [(''7203'', \<lparr>ob_symbol = \<lparr>sym_value = ''7203''\<rparr>, ob_bids = [],
         ob_asks = [(100, [sample_entry 1 kSell 100 5]), (101, [sample_entry 2 kSell 101 4])],
         ob_id_index = [(1, \<lparr>ix_side = kSell, ix_price = 100\<rparr>), (2, \<lparr>ix_side = kSell, ix_price = 101\<rparr>)],
         ob_next_execution_id = 1\<rparr>)], me_next_execution_id = 1\<rparr>,
     om_db = None, om_next_order_id = 3, om_next_event_id = 5,
     om_orders = [(1, sample_order 1 kSell kLimit 100 5 0 kAccepted), (2, sample_order 2 kSell kLimit 101 4 0 kAccepted)],
     om_events = take 4 sample_events,
     om_executions = [], om_clock = sconst 9\<rparr>"
  unfolding session2_def session0_def by (simp add: om_eval engine_eval sample_defs)

lemma session3_eq:
  "session3 = \<lparr>om_risk = sample_risk [9, 9, 9],
     om_engine = \<lparr>me_books = [(''7203'', \<lparr>ob_symbol = \<lparr>sym_value = ''7203''\<rparr>, ob_bids = [(100, [sample_entry 3 kBuy 100 4])],
         ob_asks = [(101, [sample_entry 2 kSell 101 4])],
         ob_id_index = [(2, \<lparr>ix_side = kSell, ix_price = 101\<rparr>), (3, \<lparr>ix_side = kBuy, ix_price = 100\<rparr>)],
         ob_next_execution_id = 2\<rparr>)], me_next_execution_id = 2\<rparr>,
     om_db = None, om_next_order_id = 4, om_next_event_id = 9,
     om_orders = [(1, sample_order 1 kSell kLimit 100 5 5 kFilled), (2, sample_order 2 kSell kLimit 101 4 0 kAccepted),
       (3, sample_order 3 kBuy kLimit 100 9 5 kPartiallyFilled)],
     om_events = take 8 sample_events,
     om_executions = [sample_fill 1 3 1 100 5], om_clock = sconst 9\<rparr>"
  unfolding session3_def
  by (subst session2_eq, simp add: om_eval engine_eval sample_defs strings_eval)

lemma session4_eq:
  "session4 = \<lparr>om_risk = sample_risk [9, 9, 9, 9],
     om_engine = \<lparr>me_books = [(''7203'', \<lparr>ob_symbol = \<lparr>sym_value = ''7203''\<rparr>, ob_bids = [(100, [sample_entry 3 kBuy 100 4])],
         ob_asks = [], ob_id_index = [(3, \<lparr>ix_side = kBuy, ix_price = 100\<rparr>)],
         ob_next_execution_id = 3\<rparr>)], me_next_execution_id = 3\<rparr>,
     om_db = None, om_next_order_id = 5, om_next_event_id = 13,
     om_orders = [(1, sample_order 1 kSell kLimit 100 5 5 kFilled), (2, sample_order 2 kSell kLimit 101 4 4 kFilled),
       (3, sample_order 3 kBuy kLimit 100 9 5 kPartiallyFilled), (4, sample_order 4 kBuy kMarket 0 6 4 kPartiallyFilled)],
     om_events = take 12 sample_events,
     om_executions = [sample_fill 1 3 1 100 5, sample_fill 2 4 2 101 4], om_clock = sconst 9\<rparr>"
  unfolding session4_def
  by (subst session3_eq, simp add: om_eval engine_eval sample_defs strings_eval)

lemma session_ids:
  "om_next_order_id session0 = 1" "om_next_order_id (submit (request kSell kLimit 100 5) session0) = 2"
  "om_next_order_id session2 = 3" "om_next_order_id session3 = 4" "om_next_order_id session4 = 5"
  by (simp add: session0_def OrderManager_def, simp add: session0_def om_eval engine_eval,
      simp add: session2_eq, simp add: session3_eq, simp add: session4_eq)

lemma sessions_reachable:
  "reachable_om null_sqlite session2" "reachable_om null_sqlite session3" "reachable_om null_sqlite session4"
proof -
  show 2: "reachable_om null_sqlite session2"
    unfolding session2_def by (intro submit_reachable session0_reachable) (simp_all add: session_ids)
  show 3: "reachable_om null_sqlite session3"
    unfolding session3_def by (intro submit_reachable 2) (simp add: session_ids)
  show "reachable_om null_sqlite session4"
    unfolding session4_def by (intro submit_reachable 3) (simp add: session_ids)
qed

lemma submit_step_of: "om_next_order_id om \<noteq> - 1 \<Longrightarrow> om_step null_sqlite om (submit req om)"
  unfolding submit_def by (rule step_submit) (auto intro: prod.collapse [symmetric])

lemma session_steps: "om_step null_sqlite session2 session3" "om_step null_sqlite session3 session4"
  unfolding session3_def session4_def
  by (rule submit_step_of, simp add: session_ids [unfolded session3_def])+

lemma session_history: "(system_step null_sqlite)\<^sup>*\<^sup>* session3 session4"
  by (rule r_into_rtranclp) (simp add: session_steps(2))

subsection \<open>Orders, books and executions agree\<close>

text \<open>
  C4: In every reachable state of the order manager each order is well-formed: it is filed under
  its own id, its quantity is positive and splits exactly into a filled and a remaining part that
  are never negative, the filled part is the sum of the recorded executions in which the order is
  a party, and its status fits these quantities (filled exactly when nothing remains, partially
  filled only when both parts are positive, no filled part when rejected; an accepted order is a
  limit order without fills). The statuses kPendingNew and kPendingCancel never show.
\<close>

theorem orders_well_formed:
  assumes "reachable_om sq om" and "GetOrder om k = Inr ord"
  shows "o_internal_id ord = k \<and> 0 < o_order_qty ord \<and> 0 \<le> o_filled_qty ord \<and> 0 \<le> o_remaining_qty ord
    \<and> o_filled_qty ord + o_remaining_qty ord = o_order_qty ord
    \<and> o_filled_qty ord = executed k (GetAllExecutions om)
    \<and> (case o_status ord of
         kPendingNew \<Rightarrow> False
       | kAccepted \<Rightarrow> o_type ord = kLimit \<and> o_filled_qty ord = 0
       | kPartiallyFilled \<Rightarrow> 0 < o_filled_qty ord \<and> 0 < o_remaining_qty ord
       | kFilled \<Rightarrow> o_remaining_qty ord = 0
       | kPendingCancel \<Rightarrow> False
       | kCancelled \<Rightarrow> o_type ord = kLimit \<and> 0 < o_remaining_qty ord
       | kRejected \<Rightarrow> o_filled_qty ord = 0)"
  using om_okD(4) [OF reachable_om_ok [OF assms(1)]] assms(2)
  by (auto simp: GetOrder_eq order_ok_def status_ok_def GetAllExecutions_def)

theorem orders_well_formed_witness:
  "executed 3 (GetAllExecutions session3) = 5 \<and> GetOrder session3 3 = Inr (sample_order 3 kBuy kLimit 100 9 5 kPartiallyFilled)"
proof -
  have g: "GetOrder session3 3 = Inr (sample_order 3 kBuy kLimit 100 9 5 kPartiallyFilled)"
    by (subst session3_eq) (simp add: GetOrder_eq)
  from orders_well_formed [OF sessions_reachable(2) g] g show ?thesis
    by (simp add: sample_order_def)
qed

text \<open>
  C6: In every reachable state the order manager's table and the matching engine's books agree:
  an order id rests in the book of a symbol exactly when the table holds an open order (a limit
  order, accepted or partially filled) of that symbol under the id, and the book entry then has
  the order's side, price and remaining quantity. No order is lost or left behind in a book.
\<close>

theorem table_matches_books:
  assumes "reachable_om sq om"
  shows "map_option (\<lambda>e. (be_side e, be_price e, be_remaining_qty e)) (live (om_engine om) sv k) =
    (case GetOrder om k of
       Inl _ \<Rightarrow> None
     | Inr ord \<Rightarrow> if sym_value (o_symbol ord) = sv \<and> o_type ord = kLimit
                      \<and> (o_status ord = kAccepted \<or> o_status ord = kPartiallyFilled)
                   then Some (o_side ord, o_price ord, o_remaining_qty ord) else None)"
proof -
  have "map_option entry_view (live (om_engine om) sv k) = order_view sv (um_find (om_orders om) k)"
    using om_okD(3) [OF reachable_om_ok [OF assms]] by (simp only: tracks_def)
  then show ?thesis
    by (simp add: entry_view_def [abs_def] order_view_def GetOrder_def is_open_def split: option.splits)
qed

theorem table_matches_books_witness:
  "map_option (\<lambda>e. (be_side e, be_price e, be_remaining_qty e)) (live (om_engine session3) ''7203'' 3) = Some (kBuy, 100, 4)
   \<and> live (om_engine session3) ''7203'' 1 = None"
  using table_matches_books [OF sessions_reachable(2), of "''7203''" 3]
    table_matches_books [OF sessions_reachable(2), of "''7203''" 1]
  unfolding session3_eq by (simp add: GetOrder_def sample_order_def)

subsection \<open>The outcome of every call\<close>

text \<open>
  C25: SubmitOrder has exactly three outcomes. An invalid request (no quantity, a limit order
  without a price, no symbol) returns the code of the first failed validation and changes nothing.
  A request the risk manager refuses returns the risk error, leaves the engine and the executions
  alone and files a rejected order with the request's terms under the next id. Any other request
  is accepted: matching never refuses it, the returned order is the one filed under the next id,
  with the request's terms, the executions grow by the fills of this order, its filled and
  remaining quantities are what these fills leave, and its status is filled, partially filled,
  accepted, or rejected for a market order that found no liquidity.
\<close>

theorem submit_outcome:
  assumes reach: "reachable_om sq om" and ids: "om_next_order_id om \<noteq> - 1"
    and s: "SubmitOrder sq req om = (res, om')"
  shows "if nr_quantity req \<le> 0 then res = Inl kInvalidQuantity \<and> om' = om
    else if nr_type req = kLimit \<and> nr_price req \<le> 0 then res = Inl kInvalidPrice \<and> om' = om
    else if sym_value (nr_symbol req) = [] then res = Inl kInvalidSymbol \<and> om' = om
    else case fst (Check (om_risk om) (risk_request_of req) (om_clock om)) of
      Inl e \<Rightarrow> res = Inl e \<and> om_engine om' = om_engine om \<and> GetAllExecutions om' = GetAllExecutions om
        \<and> (\<exists>c u. GetOrder om' (om_next_order_id om) = Inr (order_of_request (om_next_order_id om) req kRejected c u))
        \<and> (\<forall>j. j \<noteq> om_next_order_id om \<longrightarrow> GetOrder om' j = GetOrder om j)
    | Inr _ \<Rightarrow> (\<exists>ord fills c. res = Inr ord \<and> GetOrder om' (om_next_order_id om) = Inr ord
        \<and> GetAllExecutions om' = GetAllExecutions om @ fills
        \<and> terms ord = terms (order_of_request (om_next_order_id om) req kPendingNew c c)
        \<and> 0 \<le> total_filled fills \<and> total_filled fills \<le> nr_quantity req
        \<and> o_filled_qty ord = total_filled fills \<and> o_remaining_qty ord = nr_quantity req - total_filled fills
        \<and> o_status ord = (if total_filled fills = nr_quantity req then kFilled
            else if 0 < total_filled fills then kPartiallyFilled
            else if nr_type req = kLimit then kAccepted else kRejected))"
proof -
  note ok = reachable_om_ok [OF reach]
  from ok ids s show ?thesis
  proof (cases rule: SubmitOrder_outcome)
    case (risk e risk' clk')
    then show ?thesis
      by (auto simp: valid_request_def GetOrder_def GetAllExecutions_def om_simps umap_simps)
  next
    case (accepted ord r risk' clk' om4 clk'')
    have total: "0 \<le> total_filled (ar_fills r)" "total_filled (ar_fills r) \<le> nr_quantity req"
      using accepted(7,10) engine_venue.add_total [OF om_okD(1) [OF ok] accepted(3)] by (auto simp: order_ok_def)
    note R = accept_order_result [OF accepted(6) total(2,1)]
    have "\<exists>ord fills c. res = Inr ord \<and> GetOrder om' (om_next_order_id om) = Inr ord
        \<and> GetAllExecutions om' = GetAllExecutions om @ fills
        \<and> terms ord = terms (order_of_request (om_next_order_id om) req kPendingNew c c)
        \<and> 0 \<le> total_filled fills \<and> total_filled fills \<le> nr_quantity req
        \<and> o_filled_qty ord = total_filled fills \<and> o_remaining_qty ord = nr_quantity req - total_filled fills
        \<and> o_status ord = (if total_filled fills = nr_quantity req then kFilled
            else if 0 < total_filled fills then kPartiallyFilled
            else if nr_type req = kLimit then kAccepted else kRejected)"
      using accepted(1,4,8,9,10) total R
      by (intro exI [of _ ord] exI [of _ "ar_fills r"] exI [of _ "shd clk'"])
        (simp add: GetOrder_eq GetAllExecutions_def valid_request_def)
    moreover have "\<not> nr_quantity req \<le> 0" "\<not> (nr_type req = kLimit \<and> nr_price req \<le> 0)" "sym_value (nr_symbol req) \<noteq> []"
      using accepted(1) by (auto simp: valid_request_def)
    ultimately show ?thesis by (simp only: accepted(2) fst_conv sum.case if_False)
  qed (auto simp: valid_request_def)
qed

theorem submit_outcome_witness:
  "fst (SubmitOrder null_sqlite (request kBuy kLimit 100 0) session2) = Inl kInvalidQuantity"
  using submit_outcome [OF sessions_reachable(1) _ prod.collapse [symmetric], of "request kBuy kLimit 100 0"]
  by (simp add: session_ids request_def)

text \<open>
  C26: CancelOrder answers kOrderNotFound for an id that was never given and
  kInvalidStateTransition for a filled, cancelled or rejected order, and changes nothing. A limit
  order in any other state is cancelled: the returned order is the stored one with only its status
  and update time changed, every other order is untouched, and of all resting orders exactly this
  one leaves its book. The remaining case, a market order that was partially filled, cannot be
  cancelled: the call fails although the order's status is not a final one, after a CancelRequested
  event has been appended to its history.
\<close>

theorem cancel_outcome:
  assumes reach: "reachable_om sq om" and c: "OrderManager_CancelOrder sq req om = (res, om')"
  shows "case GetOrder om (cr_order_id req) of
      Inl _ \<Rightarrow> res = Inl kOrderNotFound \<and> om' = om
    | Inr ord \<Rightarrow>
        if o_status ord = kFilled \<or> o_status ord = kCancelled \<or> o_status ord = kRejected
        then res = Inl kInvalidStateTransition \<and> om' = om
        else if o_type ord = kLimit
        then (\<exists>now. res = Inr (ord\<lparr>o_status := kCancelled, o_updated_at := now\<rparr>))
          \<and> GetOrder om' (cr_order_id req) = res
          \<and> (\<forall>j. j \<noteq> cr_order_id req \<longrightarrow> GetOrder om' j = GetOrder om j)
          \<and> live (om_engine om') = (\<lambda>sv j. if sv = sym_value (o_symbol ord) \<and> j = cr_order_id req
                                           then None else live (om_engine om) sv j)
        else o_status ord = kPartiallyFilled \<and> (\<exists>e. res = Inl e)
          \<and> (\<forall>j. GetOrder om' j = GetOrder om j) \<and> live (om_engine om') = live (om_engine om)
          \<and> map ev_type (GetEvents om' (cr_order_id req)) =
              map ev_type (GetEvents om (cr_order_id req)) @ [kCancelRequested]"
proof (cases "um_find (om_orders om) (cr_order_id req)")
  case None
  from c show ?thesis by (cases rule: CancelOrder_cases) (use None in \<open>auto simp: GetOrder_def\<close>)
next
  case (Some ord)
  note ok = reachable_om_ok [OF reach]
  note D = om_okD [OF ok]
  consider (closed) "o_status ord \<in> {kFilled, kCancelled, kRejected}"
    | (opn) "is_open ord" "o_status ord \<notin> {kFilled, kCancelled, kRejected}" "o_type ord = kLimit"
    | (market) "\<not> is_open ord" "o_status ord = kPartiallyFilled" "o_type ord = kMarket"
    using D(4) [OF Some] unfolding order_ok_def status_ok_def is_open_def
    by (cases "o_status ord"; cases "o_type ord") auto
  then show ?thesis
  proof cases
    case closed
    from c show ?thesis
      by (cases rule: CancelOrder_cases) (use Some closed in \<open>auto simp: GetOrder_def\<close>)
  next
    case opn
    obtain now where C: "res = Inr (ord\<lparr>o_status := kCancelled, o_updated_at := now\<rparr>)"
      "um_find (om_orders om') = (um_find (om_orders om))(cr_order_id req \<mapsto> ord\<lparr>o_status := kCancelled, o_updated_at := now\<rparr>)"
      using CancelOrder_open [OF ok c Some opn(1)] by metis
    show ?thesis
      using CancelOrder_live [OF ok c [unfolded C(1)] Some opn(1)] Some opn C
      by (auto simp: GetOrder_def)
  next
    case market
    have k: "\<And>x. um_find (om_orders om) (cr_order_id req) = Some x \<Longrightarrow> \<not> is_open x" using Some market by simp
    from c have "map ev_type (GetEvents om' (cr_order_id req)) =
        map ev_type (GetEvents om (cr_order_id req)) @ [kCancelRequested]"
      by (cases rule: CancelOrder_cases)
        (use Some market CancelOrder_not_open [OF ok c k] D(4) [OF Some] in \<open>auto simp: GetEvents_def om_simps\<close>)
    with CancelOrder_not_open [OF ok c k] Some market show ?thesis by (simp add: GetOrder_def)
  qed
qed

theorem cancel_outcome_witness:
  "(case OrderManager_CancelOrder null_sqlite \<lparr>cr_order_id = 3\<rparr> session4 of (res, om') \<Rightarrow>
      (case res of Inl _ \<Rightarrow> False | Inr ord \<Rightarrow> o_status ord = kCancelled) \<and> live (om_engine om') ''7203'' 3 = None)
   \<and> (case OrderManager_CancelOrder null_sqlite \<lparr>cr_order_id = 4\<rparr> session4 of (res, om') \<Rightarrow>
      (case res of Inl _ \<Rightarrow> True | Inr _ \<Rightarrow> False) \<and> GetOrder om' 4 = GetOrder session4 4)"
proof -
  have g: "GetOrder session4 3 = Inr (sample_order 3 kBuy kLimit 100 9 5 kPartiallyFilled)"
    "GetOrder session4 4 = Inr (sample_order 4 kBuy kMarket 0 6 4 kPartiallyFilled)"
    by (subst session4_eq, simp add: GetOrder_def)+
  show ?thesis
    using cancel_outcome [OF sessions_reachable(3) prod.collapse [symmetric], of "\<lparr>cr_order_id = 3\<rparr>"]
      cancel_outcome [OF sessions_reachable(3) prod.collapse [symmetric], of "\<lparr>cr_order_id = 4\<rparr>"]
    by (auto simp: g sample_order_def case_prod_beta)
qed

subsection \<open>Lifecycle and event log\<close>

text \<open>
  C27: From any reachable state, whatever submits, cancels and changes of the risk state follow, an
  order stays on file under its id; its terms (ids, symbol, side, type, price, quantity, creation time)
  never change, its filled quantity never shrinks, and its status moves only along the lifecycle: an
  accepted order may become partially filled, filled or cancelled, a partially filled one filled or
  cancelled, and an order that is filled, cancelled or rejected never changes again. The calls may be
  interrupted by restarts, but only by successful ones on a database that kept every write, so that
  its tables hold exactly the orders, events and executions of the old process; such a restart changes
  no order. A restart after a failed write, whose result the code drops, may lose an order and is not
  covered.
\<close>

theorem orders_evolve:
  assumes reach: "reachable_om sq om" and steps: "(system_step sq)\<^sup>*\<^sup>* om om'" and k: "GetOrder om k = Inr ord"
  shows "\<exists>ord'. GetOrder om' k = Inr ord' \<and> terms ord' = terms ord \<and> o_filled_qty ord \<le> o_filled_qty ord'
    \<and> (case o_status ord of
         kAccepted \<Rightarrow> o_status ord' \<in> {kAccepted, kPartiallyFilled, kFilled, kCancelled}
       | kPartiallyFilled \<Rightarrow> o_status ord' \<in> {kPartiallyFilled, kFilled, kCancelled}
       | _ \<Rightarrow> ord' = ord)"
proof -
  obtain ord' where "um_find (om_orders om') k = Some ord'" "evolves ord ord'"
    using steps_evolve [OF steps reach] k by (auto simp: GetOrder_eq)
  moreover have "order_ok ord" using om_okD(4) [OF reachable_om_ok [OF reach]] k by (simp add: GetOrder_eq)
  ultimately show ?thesis
    by (intro exI [of _ ord'], cases "o_status ord")
      (auto simp: GetOrder_eq evolves_def terminal_def order_ok_def status_ok_def)
qed

theorem orders_evolve_witness:
  "case GetOrder session4 2 of Inl _ \<Rightarrow> False
   | Inr ord' \<Rightarrow> o_status ord' \<in> {kAccepted, kPartiallyFilled, kFilled, kCancelled}"
proof -
  have g: "GetOrder session3 2 = Inr (sample_order 2 kSell kLimit 101 4 0 kAccepted)"
    by (subst session3_eq) (simp add: GetOrder_def)
  from orders_evolve [OF sessions_reachable(2) session_history g]
  show ?thesis by (auto simp: sample_order_def)
qed

text \<open>
  The event log is an audit trail: in every reachable state the events carry the ids 1, 2, 3,
  ... in order, and whatever calls and restarts follow, both the event log and the list of executions are only
  appended to, never reordered or rewritten.
\<close>

theorem event_log_append_only:
  assumes reach: "reachable_om sq om" and steps: "(system_step sq)\<^sup>*\<^sup>* om om'"
  shows "map ev_event_id (om_events om') = map of_nat [1..<Suc (length (om_events om'))]
    \<and> (\<exists>es. om_events om' = om_events om @ es) \<and> (\<exists>fs. GetAllExecutions om' = GetAllExecutions om @ fs)
    \<and> (\<forall>k. \<exists>es. GetEvents om' k = GetEvents om k @ es)"
  using steps_log [OF steps reach] reachable_om_log [OF reachable_om_steps [OF steps reach]]
  by (auto simp: log_extends_def numbered_def GetAllExecutions_def GetEvents_def)

theorem event_log_append_only_witness:
  "map ev_event_id (om_events session4) = map of_nat [1..<Suc (length (om_events session4))]
   \<and> (\<exists>es. om_events session4 = om_events session3 @ es)"
  using event_log_append_only [OF sessions_reachable(2) session_history] by blast

text \<open>
  C5: The event history of an order determines its status. In every reachable state, running the
  events that GetEvents returns for an id through the automaton life_step never meets an illegal event
  and ends in the status of the order; an id without an order has no events. The automaton: the first
  event is NewRequested (pending new). From pending new, Accepted leads to accepted and Rejected to
  rejected. From accepted, Rejected leads to rejected (the code emits it for a market order that found
  no liquidity), PartialFill to partially filled, Fill to filled, Cancelled to cancelled, and
  CancelRequested changes nothing. From partially filled, PartialFill and CancelRequested change
  nothing, Fill leads to filled and Cancelled to cancelled. Every other event is illegal, so nothing
  follows a filled, cancelled or rejected order. Reachable states are those of calls and of successful
  restarts on a database that kept every write.
\<close>

theorem event_log_replays:
  assumes "reachable_om sq om"
  shows "replay (GetEvents om k) =
    (case GetOrder om k of Inl _ \<Rightarrow> NoEvents | Inr ord \<Rightarrow> Status (o_status ord))"
proof -
  have "replays om k" using reachable_om_log [OF assms] by blast
  then show ?thesis by (simp add: replays_def life_of_def GetOrder_def split: option.splits)
qed

theorem event_log_replays_witness: "replay (GetEvents session4 2) = Status kFilled"
proof -
  have g: "GetOrder session4 2 = Inr (sample_order 2 kSell kLimit 101 4 4 kFilled)"
    by (subst session4_eq) (simp add: GetOrder_def)
  from event_log_replays [OF sessions_reachable(3), of 2] show ?thesis
    by (simp add: g sample_order_def)
qed

subsection \<open>Independence from the database\<close>

definition without_db :: "'d order_manager \<Rightarrow> 'd order_manager" where
  "without_db om = om\<lparr>om_db := None\<rparr>"

lemma without_db_with_db: "without_db (with_db g om) = without_db om" "om_db om = None \<Longrightarrow> with_db g om = om"
  by (simp_all add: without_db_def with_db_def)

lemma om_db_None:
  "om_db (without_db om) = None" "om_db om = None \<Longrightarrow> om_db (AppendEvent sq k ty d om) = None"
  "om_db (put_order k ord om) = om_db om" "om_db om = None \<Longrightarrow> om_db (apply_passive sq f om) = None"
  by (simp_all add: without_db_def with_db_def AppendEvent_def NextEventId_def om_Now_eq Let_def put_order_def
      apply_passive_def split: option.splits)

lemma without_db_sel [simp]:
  "om_risk (without_db om) = om_risk om" "om_engine (without_db om) = om_engine om"
  "om_next_order_id (without_db om) = om_next_order_id om" "om_orders (without_db om) = om_orders om"
  "om_clock (without_db om) = om_clock om" "om_executions (without_db om) = om_executions om"
  by (simp_all add: without_db_def)

lemma without_db_upd:
  "without_db (put_order k ord om) = put_order k ord (without_db om)"
  "without_db (om\<lparr>om_clock := c\<rparr>) = (without_db om)\<lparr>om_clock := c\<rparr>"
  "without_db (om\<lparr>om_engine := e\<rparr>) = (without_db om)\<lparr>om_engine := e\<rparr>"
  "without_db (om\<lparr>om_executions := x\<rparr>) = (without_db om)\<lparr>om_executions := x\<rparr>"
  "without_db (om\<lparr>om_risk := r\<rparr>) = (without_db om)\<lparr>om_risk := r\<rparr>"
  "without_db (om\<lparr>om_next_order_id := n\<rparr>) = (without_db om)\<lparr>om_next_order_id := n\<rparr>"
  by (simp_all add: without_db_def put_order_def)

lemma without_db_AppendEvent: "without_db (AppendEvent sq k ty d om) = AppendEvent sq' k ty d (without_db om)"
  by (simp add: AppendEvent_def NextEventId_def om_Now_eq Let_def without_db_def with_db_def)

lemma without_db_apply_passive: "without_db (apply_passive sq f om) = apply_passive sq' f (without_db om)"
  by (simp add: apply_passive_def om_Now_eq Let_def without_db_with_db without_db_upd om_db_None
      without_db_AppendEvent [of sq _ _ _ _ sq'] split: option.splits)

lemmas without_db_steps = without_db_with_db without_db_upd om_db_None

lemma without_db_ApplyFills:
  "map_prod (\<lambda>x. x) without_db (ApplyFills sq ord fs om) = ApplyFills sq' ord fs (without_db om)"
proof (induction sq ord fs om rule: ApplyFills.induct)
  case (2 sq ord f fs om)
  show ?case
    using "2.IH" [OF refl refl refl refl refl]
    by (simp add: Let_def without_db_steps without_db_AppendEvent [of sq _ _ _ _ sq']
        without_db_apply_passive [of sq _ _ sq'])
qed simp

lemma without_db_accept_order:
  "map_prod (\<lambda>x. x) without_db (accept_order sq ord fs om) = accept_order sq' ord fs (without_db om)"
proof -
  let ?ord0 = "ord\<lparr>o_status := kAccepted, o_updated_at := shd (om_clock om)\<rparr>"
  let ?om2 = "AppendEvent sq (o_internal_id ord) kAccepted_event '''' (om\<lparr>om_clock := stl (om_clock om)\<rparr>)"
  obtain ord1 om3 where a: "ApplyFills sq ?ord0 fs ?om2 = (ord1, om3)" by force
  have a': "ApplyFills sq' ?ord0 fs (AppendEvent sq' (o_internal_id ord) kAccepted_event ''''
      ((without_db om)\<lparr>om_clock := stl (om_clock om)\<rparr>)) = (ord1, without_db om3)"
    using without_db_ApplyFills [of sq ?ord0 fs ?om2 sq'] a
    by (simp add: without_db_AppendEvent [of sq _ _ _ _ sq'] without_db_upd)
  let ?fin = "\<lambda>sq om3. if o_remaining_qty ord1 \<noteq> 0 \<and> o_type ord1 = kMarket \<and> final_status ord1 = kRejected
      then AppendEvent sq (o_internal_id ord) kRejected_event ''no liquidity for market order'' om3 else om3"
  have e: "without_db (?fin sq om3) = ?fin sq' (without_db om3)" "om_db (?fin sq' (without_db om3)) = None"
    "om_clock (?fin sq' (without_db om3)) = om_clock (?fin sq om3)"
    by (simp_all add: without_db_AppendEvent [of sq _ _ _ _ sq'] om_db_None om_simps)
  show ?thesis
    unfolding accept_order_def om_Now_eq Let_def split without_db_sel a a' e(3) map_prod_simp
      without_db_with_db(1) without_db_upd e(1)
    by (simp add: without_db_with_db(2) om_db_None e(2) del: if_splits)
qed

text \<open>
  C28: The database never influences trading. For any two SQLite implementations, whatever they
  answer (failed writes included), SubmitOrder and CancelOrder return the same result and leave
  the same orders, events, executions, ids, engine and risk state as an order manager without a
  database.
\<close>

theorem persistence_is_transparent:
  "map_prod (\<lambda>x. x) without_db (SubmitOrder sq req om) = SubmitOrder sq' req (without_db om) \<and>
   map_prod (\<lambda>x. x) without_db (OrderManager_CancelOrder sq creq om) = OrderManager_CancelOrder sq' creq (without_db om)"
proof
  have R: "without_db (reject_by_risk sq req e om) = reject_by_risk sq' req e (without_db om)" for e om
    by (simp add: reject_by_risk_def NextOrderId_def om_Now_eq Let_def without_db_steps
        without_db_AppendEvent [of sq _ _ _ _ sq'])
  have M: "without_db (reject_by_matching sq ord e om) = reject_by_matching sq' ord e (without_db om)" for ord e om
    by (simp add: reject_by_matching_def om_Now_eq Let_def without_db_steps without_db_AppendEvent [of sq _ _ _ _ sq'])
  note A = without_db_accept_order [of sq _ _ _ sq', unfolded map_prod_def]
  note E = without_db_AppendEvent [of sq _ _ _ _ sq']
  show "map_prod (\<lambda>x. x) without_db (SubmitOrder sq req om) = SubmitOrder sq' req (without_db om)"
    by (simp add: SubmitOrder_def NextOrderId_def om_Now_eq Let_def without_db_steps E R M om_simps
        split: prod.splits sum.splits)
      (use A in \<open>fastforce simp: without_db_steps E om_simps split: prod.splits\<close>)
  show "map_prod (\<lambda>x. x) without_db (OrderManager_CancelOrder sq creq om) =
      OrderManager_CancelOrder sq' creq (without_db om)"
    by (simp add: OrderManager_CancelOrder_def om_Now_eq Let_def without_db_steps E om_simps
        split: option.splits prod.splits sum.splits)
qed

end
