(* ===== verification/Doubles.thy ===== *)
theory Doubles
  imports Prelude Complex_Main
begin

section \<open>Double precision arithmetic\<close>

text \<open>
  The C++ \<open>double\<close> of the VWAP weights: IEEE 754 binary64 with rounding to nearest, ties to
  even. A finite value is the rational it stands for; the sign of zero is not kept, since the
  program never divides by zero. \<open>round_f64\<close> rounds a rational to 53 significant bits (fewer below
  the normal range) and to an infinity beyond the largest finite value.
\<close>

datatype f64 = Fin rat | PInf | NInf | NaN

subsection \<open>Rounding\<close>

definition rat_round_even :: "rat \<Rightarrow> int" where
  "rat_round_even q =
     (let k = \<lfloor>q\<rfloor>; r = q - of_int k
      in if r < 1 / 2 then k else if r > 1 / 2 then k + 1 else if even k then k else k + 1)"

definition pow2 :: "int \<Rightarrow> rat" where
  "pow2 e = (if 0 \<le> e then 2 ^ nat e else 1 / 2 ^ nat (- e))"

function bit_length :: "int \<Rightarrow> int" where
  "bit_length n = (if n \<le> 0 then 0 else 1 + bit_length (n div 2))"
  by pat_completeness auto
termination by (relation "measure nat") auto

declare bit_length.simps [simp del]

definition binary_exponent :: "rat \<Rightarrow> int" where
  \<comment> \<open>the exponent of the leading binary digit of a positive rational\<close>
  "binary_exponent q =
     (if 1 \<le> q then bit_length \<lfloor>q\<rfloor> - 1 else - bit_length (\<lceil>1 / q\<rceil> - 1))"

definition f64_max :: rat where
  "f64_max = (2 - pow2 (- 52)) * pow2 1023"

definition round_f64 :: "rat \<Rightarrow> f64" where
  "round_f64 q =
     (if q = 0 then Fin 0
      else (let u = pow2 (max (binary_exponent \<bar>q\<bar> - 52) (- 1074));
                r = of_int (rat_round_even (q / u)) * u
            in if r > f64_max then PInf else if r < - f64_max then NInf else Fin r))"

subsection \<open>Operations\<close>

definition f64_of_int :: "int \<Rightarrow> f64" where
  \<comment> \<open>\<open>static_cast<double>\<close> of an integer\<close>
  "f64_of_int i = round_f64 (of_int i)"

fun f64_neg :: "f64 \<Rightarrow> f64" where
  "f64_neg (Fin a) = Fin (- a)"
| "f64_neg PInf = NInf"
| "f64_neg NInf = PInf"
| "f64_neg NaN = NaN"

fun f64_add :: "f64 \<Rightarrow> f64 \<Rightarrow> f64" where
  "f64_add (Fin a) (Fin b) = round_f64 (a + b)"
| "f64_add NaN _ = NaN"
| "f64_add _ NaN = NaN"
| "f64_add PInf NInf = NaN"
| "f64_add NInf PInf = NaN"
| "f64_add PInf _ = PInf"
| "f64_add NInf _ = NInf"
| "f64_add (Fin a) x = x"

definition f64_sub :: "f64 \<Rightarrow> f64 \<Rightarrow> f64" where
  "f64_sub a b = f64_add a (f64_neg b)"

definition f64_inf :: "bool \<Rightarrow> f64" where
  "f64_inf negative = (if negative then NInf else PInf)"

fun f64_mul :: "f64 \<Rightarrow> f64 \<Rightarrow> f64" where
  "f64_mul (Fin a) (Fin b) = round_f64 (a * b)"
| "f64_mul NaN _ = NaN"
| "f64_mul _ NaN = NaN"
| "f64_mul (Fin a) x = (if a = 0 then NaN else if a < 0 then f64_neg x else x)"
| "f64_mul x (Fin b) = (if b = 0 then NaN else if b < 0 then f64_neg x else x)"
| "f64_mul x y = f64_inf (x \<noteq> y)"

fun f64_div :: "f64 \<Rightarrow> f64 \<Rightarrow> f64" where
  \<comment> \<open>a zero divisor counts as positive\<close>
  "f64_div (Fin a) (Fin b) =
     (if b = 0 then if a = 0 then NaN else f64_inf (a < 0) else round_f64 (a / b))"
| "f64_div NaN _ = NaN"
| "f64_div _ NaN = NaN"
| "f64_div (Fin a) _ = Fin 0"
| "f64_div x (Fin b) = (if b < 0 then f64_neg x else x)"
| "f64_div _ _ = NaN"

fun f64_le_zero :: "f64 \<Rightarrow> bool" where
  \<comment> \<open>\<open>x <= 0\<close>, false for NaN\<close>
  "f64_le_zero (Fin a) \<longleftrightarrow> a \<le> 0"
| "f64_le_zero PInf \<longleftrightarrow> False"
| "f64_le_zero NInf \<longleftrightarrow> True"
| "f64_le_zero NaN \<longleftrightarrow> False"

fun llround :: "f64 \<Rightarrow> int option" where
  \<comment> \<open>\<open>std::llround\<close>: half away from zero; \<open>None\<close> where the result is unspecified\<close>
  "llround (Fin a) =
     (let k = (if 0 \<le> a then \<lfloor>a + 1 / 2\<rfloor> else - \<lfloor>- a + 1 / 2\<rfloor>)
      in if in_i64 k then Some k else None)"
| "llround _ = None"

subsection \<open>Evaluation\<close>

text \<open>Rules by which the simplifier computes with concrete doubles.\<close>

lemma rat_floor_simps [simp]:
  "\<lfloor>numeral a / numeral b :: rat\<rfloor> = numeral a div numeral b"
  "\<lfloor>1 / numeral b :: rat\<rfloor> = 1 div numeral b"
  "\<lceil>numeral a / numeral b :: rat\<rceil> = - (- numeral a div numeral b)"
  "\<lceil>1 / numeral b :: rat\<rceil> = - (- 1 div numeral b)"
  using floor_divide_of_int_eq [of "numeral a" "numeral b", where 'a = rat]
    floor_divide_of_int_eq [of "1" "numeral b", where 'a = rat]
    floor_divide_of_int_eq [of "- numeral a" "numeral b", where 'a = rat]
    floor_divide_of_int_eq [of "- 1" "numeral b", where 'a = rat]
  by (simp_all add: ceiling_def)

lemma bit_length_simps [simp]:
  "bit_length 0 = 0" "bit_length 1 = 1"
  "bit_length (numeral (num.Bit0 n)) = 1 + bit_length (numeral n)"
  "bit_length (numeral (num.Bit1 n)) = 1 + bit_length (numeral n)"
  by (subst bit_length.simps, simp add: bit_length.simps)+

lemmas f64_eval = round_f64_def binary_exponent_def pow2_def f64_max_def rat_round_even_def f64_of_int_def
  f64_sub_def in_i64_def i64_min_def i64_max_def

end
