(* ===== verification/Algo.thy ===== *)
theory Algo
  imports Order_Manager Doubles
begin

section \<open>Execution algorithms (src/src/core/algo/)\<close>

text \<open>
  The slicing of a parent order by TWAP and VWAP, and class \<open>AlgoEngine\<close>, which submits the
  slices to the order manager. Durations are seconds; a schedule that leaves the 64-bit range of
  nanoseconds, and a VWAP quantity that \<open>std::llround\<close> cannot represent, are \<open>None\<close>
  (undefined or unspecified behaviour).
\<close>

subsection \<open>twap.h, twap.cc\<close>

record child_slice =
  cs_request :: new_order_request
  cs_scheduled_at :: timestamp

record algo_params =
  ap_parent :: new_order_request
  ap_duration :: int
  ap_num_slices :: int

definition schedule :: "timestamp \<Rightarrow> int \<Rightarrow> nat \<Rightarrow> timestamp option" where
  \<comment> \<open>\<open>start + step * i\<close>, \<open>step\<close> in seconds\<close>
  "schedule start step i =
     (let s = step * int i
      in if in_i64 s \<and> in_i64 (s * 1000000000) then i64_add start (s * 1000000000) else None)"

definition child_at ::
  "algo_params \<Rightarrow> timestamp \<Rightarrow> nat \<Rightarrow> quantity \<Rightarrow> child_slice option" where
  "child_at params start i qty =
     map_option (\<lambda>t. \<lparr>cs_request = (ap_parent params)\<lparr>nr_quantity := qty\<rparr>, cs_scheduled_at = t\<rparr>)
       (schedule start (ap_duration params sdiv ap_num_slices params) i)"

definition twap_quantity :: "algo_params \<Rightarrow> nat \<Rightarrow> quantity" where
  "twap_quantity params i =
     (let qty = nr_quantity (ap_parent params); n = ap_num_slices params
      in qty sdiv n + (if int i = n - 1 then qty smod n else 0))"

definition GenerateTwapSlices :: "algo_params \<Rightarrow> timestamp \<Rightarrow> child_slice list option" where
  "GenerateTwapSlices params start =
     (if ap_num_slices params \<le> 0 \<or> nr_quantity (ap_parent params) \<le> 0 then Some []
      else those (map (\<lambda>i. child_at params start i (twap_quantity params i))
                    [0..<nat (ap_num_slices params)]))"

subsection \<open>vwap.h, vwap.cc\<close>

definition profile_weight :: "int \<Rightarrow> nat \<Rightarrow> f64" where
  "profile_weight buckets i =
     (let mid = f64_div (f64_of_int (buckets - 1)) (Fin 2);
          x = f64_sub (f64_of_int (int i)) mid
      in f64_add (Fin 1) (f64_div (f64_mul x x) (f64_add (f64_mul mid mid) (Fin 1))))"

definition accumulate :: "f64 list \<Rightarrow> f64" where
  "accumulate ws = foldl f64_add (Fin 0) ws"

definition normalise :: "f64 list \<Rightarrow> f64 list" where
  "normalise ws = map (\<lambda>w. f64_div w (accumulate ws)) ws"

definition DefaultVolumeProfile :: "int \<Rightarrow> f64 list option" where
  \<comment> \<open>\<open>None\<close>: \<open>weights.reserve\<close> of a negative size throws \<open>std::length_error\<close>\<close>
  "DefaultVolumeProfile buckets =
     (if buckets < 0 then None
      else Some (normalise (map (profile_weight buckets) [0..<nat buckets])))"

fun vwap_loop ::
  "algo_params \<Rightarrow> timestamp \<Rightarrow> f64 list \<Rightarrow> nat list \<Rightarrow> quantity \<Rightarrow> child_slice list option" where
  "vwap_loop params start profile [] allocated = Some []"
| "vwap_loop params start profile (i # is) allocated =
     (let parent_qty = nr_quantity (ap_parent params)
      in case (if int i < ap_num_slices params - 1
               then Option.bind (llround (f64_mul (f64_of_int parent_qty) (profile ! i)))
                      (\<lambda>qty. map_option (Pair qty) (i64_add allocated qty))
               else map_option (\<lambda>qty. (qty, allocated)) (i64_add parent_qty (- allocated))) of
           None \<Rightarrow> None
         | Some (qty, allocated') \<Rightarrow>
             (case (child_at params start i qty, vwap_loop params start profile is allocated') of
                (Some c, Some cs) \<Rightarrow> Some (c # cs)
              | _ \<Rightarrow> None))"

definition GenerateVwapSlices ::
  "algo_params \<Rightarrow> timestamp \<Rightarrow> f64 list \<Rightarrow> child_slice list option" where
  "GenerateVwapSlices params start profile0 =
     (let n = ap_num_slices params
      in if n \<le> 0 \<or> nr_quantity (ap_parent params) \<le> 0 then Some []
         else case (if profile0 = [] then DefaultVolumeProfile n else Some profile0) of
           None \<Rightarrow> None
         | Some profile \<Rightarrow>
             if length profile \<noteq> nat n then Some []
             else if f64_le_zero (accumulate profile) then Some []
             else vwap_loop params start (normalise profile) [0..<nat n] 0)"

subsection \<open>algo_engine.h, algo_engine.cc\<close>

datatype algo_type = kTwap | kVwap

record algo_request =
  ar_type :: algo_type
  ar_params :: algo_params
  ar_vwap_profile :: "f64 list"

record algo_run =
  run_type :: algo_type
  run_params :: algo_params
  run_child_order_ids :: "order_id list"
  run_submitted :: nat
  run_rejected :: nat

record algo_engine =
  ae_next_run_id :: u64
  ae_runs :: "(u64, algo_run) umap"

definition AlgoEngine :: algo_engine where
  "AlgoEngine = \<lparr>ae_next_run_id = 1, ae_runs = []\<rparr>"

fun submit_slices ::
  "'d sqlite \<Rightarrow> child_slice list \<Rightarrow> algo_run \<Rightarrow> 'd order_manager \<Rightarrow> algo_run \<times> 'd order_manager" where
  "submit_slices sq [] run om = (run, om)"
| "submit_slices sq (child # slices) run om =
     (case SubmitOrder sq (cs_request child) om of (res, om') \<Rightarrow>
        submit_slices sq slices
          (case res of
             Inr ord \<Rightarrow> run\<lparr>run_child_order_ids := run_child_order_ids run @ [o_internal_id ord],
                            run_submitted := run_submitted run + 1\<rparr>
           | Inl _ \<Rightarrow> run\<lparr>run_rejected := run_rejected run + 1\<rparr>)
          om')"

definition algo_slices :: "algo_request \<Rightarrow> timestamp \<Rightarrow> child_slice list option" where
  "algo_slices req start =
     (case ar_type req of
        kTwap \<Rightarrow> GenerateTwapSlices (ar_params req) start
      | kVwap \<Rightarrow> GenerateVwapSlices (ar_params req) start (ar_vwap_profile req))"

definition StartAlgo ::
  "'d sqlite \<Rightarrow> algo_request \<Rightarrow> algo_engine \<Rightarrow> 'd order_manager \<Rightarrow>
   (u64 result \<times> algo_engine \<times> 'd order_manager) option" where
  "StartAlgo sq req ae om =
     (if ap_num_slices (ar_params req) \<le> 0 \<or> nr_quantity (ap_parent (ar_params req)) \<le> 0
      then Some (Inl kInvalidQuantity, ae, om)
      else case om_Now om of (start, om1) \<Rightarrow>
        (case algo_slices req start of
           None \<Rightarrow> None
         | Some slices \<Rightarrow>
             if slices = [] then Some (Inl kInvalidQuantity, ae, om1)
             else case submit_slices sq slices
                         \<lparr>run_type = ar_type req, run_params = ar_params req,
                          run_child_order_ids = [], run_submitted = 0, run_rejected = 0\<rparr> om1 of
               (run, om2) \<Rightarrow>
                 (let rid = ae_next_run_id ae
                  in Some (Inr rid, ae\<lparr>ae_next_run_id := rid + 1,
                                       ae_runs := um_emplace rid run (ae_runs ae)\<rparr>, om2))))"

definition GetRun :: "algo_engine \<Rightarrow> u64 \<Rightarrow> algo_run result" where
  "GetRun ae rid = (case um_find (ae_runs ae) rid of None \<Rightarrow> Inl kOrderNotFound | Some run \<Rightarrow> Inr run)"

definition RunCount :: "algo_engine \<Rightarrow> nat" where
  "RunCount ae = length (ae_runs ae)"

end
