(* ===== verification/Algo_Properties.thy ===== *)
theory Algo_Properties
  imports Algo Order_Properties
begin

section \<open>Properties of the execution algorithms\<close>

subsection \<open>Slicing\<close>

lemma those_map: "(\<And>x. x \<in> set xs \<Longrightarrow> f x = Some (g x)) \<Longrightarrow> those (map f xs) = Some (map g xs)"
  by (induction xs) auto

lemma those_length: "those xs = Some ys \<Longrightarrow> length ys = length xs"
  by (induction xs arbitrary: ys) (auto split: option.splits)

lemma sdiv_pos: "0 \<le> a \<Longrightarrow> 0 < b \<Longrightarrow> a sdiv b = a div b \<and> a smod b = a mod b"
  for a b :: int
  by (simp add: signed_divide_int_def signed_modulo_int_def sgn_if)

text \<open>A schedule stays in range when its last time does, whatever the sign of its step.\<close>

definition schedule_fits :: "timestamp \<Rightarrow> int \<Rightarrow> int \<Rightarrow> bool" where
  "schedule_fits start step n \<longleftrightarrow>
     in_i64 (step * (n - 1) * 1000000000) \<and> in_i64 (start + step * (n - 1) * 1000000000)"

lemma schedule_in_range:
  assumes "in_i64 start" "schedule_fits start step n" "int i < n"
  shows "schedule start step i = Some (start + step * int i * 1000000000)"
proof -
  have "0 \<le> step * int i \<and> step * int i \<le> step * (n - 1) \<or> step * (n - 1) \<le> step * int i \<and> step * int i \<le> 0"
    using assms(3) by (cases "0 \<le> step") (auto intro: mult_left_mono mult_left_mono_neg simp: mult_nonpos_nonneg)
  then show ?thesis
    using assms(1,2) by (auto simp: schedule_fits_def schedule_def in_i64_def i64_min_def i64_max_def i64_add_def)
qed

lemma schedule_fits_iff:
  assumes "0 < n"
  shows "schedule start step (nat (n - 1)) \<noteq> None \<longleftrightarrow> schedule_fits start step n"
  using assms by (auto simp: schedule_def schedule_fits_def i64_add_def Let_def in_i64_def i64_min_def i64_max_def)

lemma child_at_request: "child_at params start i qty = Some c \<Longrightarrow> cs_request c = (ap_parent params)\<lparr>nr_quantity := qty\<rparr>"
  by (auto simp: child_at_def)

lemma sum_const_last:
  fixes a b :: int
  assumes "0 < n"
  shows "sum_list (map (\<lambda>i. a + (if int i = int n - 1 then b else 0)) [0..<n]) = int n * a + b"
proof -
  from assms obtain m where n: "n = Suc m" by (cases n) auto
  have "map (\<lambda>i. a + (if int i = int n - 1 then b else 0)) [0..<m] = replicate m a"
    by (auto simp: n intro: nth_equalityI)
  then show ?thesis by (simp add: n sum_list_replicate algebra_simps)
qed

lemma those_None: "x \<in> set xs \<Longrightarrow> x = None \<Longrightarrow> those xs = None"
  by (induction xs) (auto split: option.splits)

lemma GenerateTwapSlices_spec:
  assumes "in_i64 start"
  shows "if ap_num_slices params \<le> 0 \<or> nr_quantity (ap_parent params) \<le> 0
    then GenerateTwapSlices params start = Some []
    else if \<not> schedule_fits start (ap_duration params sdiv ap_num_slices params) (ap_num_slices params)
    then GenerateTwapSlices params start = None
    else \<exists>slices. GenerateTwapSlices params start = Some slices
      \<and> length slices = nat (ap_num_slices params)
      \<and> sum_list (map (\<lambda>c. nr_quantity (cs_request c)) slices) = nr_quantity (ap_parent params)
      \<and> (\<forall>i < length slices. cs_request (slices ! i) = (ap_parent params)\<lparr>nr_quantity :=
             nr_quantity (ap_parent params) div ap_num_slices params
             + (if i = length slices - 1 then nr_quantity (ap_parent params) mod ap_num_slices params else 0)\<rparr>
           \<and> cs_scheduled_at (slices ! i) =
               start + (ap_duration params sdiv ap_num_slices params) * int i * 1000000000)"
proof (cases "ap_num_slices params \<le> 0 \<or> nr_quantity (ap_parent params) \<le> 0")
  case False
  let ?n = "ap_num_slices params" and ?q = "nr_quantity (ap_parent params)"
  let ?step = "ap_duration params sdiv ?n" and ?child = "\<lambda>i. child_at params start i (twap_quantity params i)"
  have pos: "0 < ?n" "0 < ?q" using False by auto
  have G: "GenerateTwapSlices params start = those (map ?child [0..<nat ?n])"
    using False by (simp only: GenerateTwapSlices_def if_False)
  show ?thesis
  proof (cases "schedule_fits start ?step ?n")
    case fits: False
    then have "?child (nat (?n - 1)) = None" using schedule_fits_iff [OF pos(1), of start ?step] by (simp add: child_at_def)
    moreover have "?child (nat (?n - 1)) \<in> set (map ?child [0..<nat ?n])" using pos unfolding set_map by (intro imageI) auto
    ultimately have "those (map ?child [0..<nat ?n]) = None" by (rule those_None [rotated])
    with G False fits show ?thesis by simp
  next
    case fits: True
    let ?slice = "\<lambda>i. \<lparr>cs_request = (ap_parent params)\<lparr>nr_quantity := ?q div ?n + (if int i = ?n - 1 then ?q mod ?n else 0)\<rparr>,
        cs_scheduled_at = start + ?step * int i * 1000000000\<rparr>"
    have "?child i = Some (?slice i)" if "i \<in> set [0..<nat ?n]" for i
      using that pos schedule_in_range [OF assms fits, of i] sdiv_pos [of ?q ?n]
      by (simp add: child_at_def twap_quantity_def Let_def)
    then have "GenerateTwapSlices params start = Some (map ?slice [0..<nat ?n])"
      unfolding G by (rule those_map)
    moreover have "sum_list (map (\<lambda>c. nr_quantity (cs_request c)) (map ?slice [0..<nat ?n])) = ?q"
      using sum_const_last [of "nat ?n" "?q div ?n" "?q mod ?n"] pos by (simp add: comp_def)
    ultimately show ?thesis using False pos fits
      by (intro exI [of _ "map ?slice [0..<nat ?n]"] if_not_P [OF False, THEN iffD2]
          if_not_P [of "\<not> schedule_fits start ?step ?n", THEN iffD2]) (auto simp: nat_less_iff of_nat_diff)
  qed
qed (simp add: GenerateTwapSlices_def)

text \<open>
  C30: TWAP slicing is exact, for every 64-bit start time and all parameters. With a quantity or
  number of slices that is not positive, GenerateTwapSlices returns no slices. Otherwise the step is
  the duration divided by the number of slices, cut to whole seconds toward zero. The duration is not
  checked: a negative one gives a negative step and slices before the start. If the last scheduled
  time leaves the 64-bit nanoseconds, the code overflows (no result in the model). If not, it returns
  exactly that many slices; their quantities are the quotient of the parent quantity, with the
  remainder added to the last one, and add up to the parent quantity; slice number i is scheduled i
  steps after the start; and every child keeps all other terms of the parent.
\<close>

theorem twap_slices_exact:
  assumes "in_i64 start"
  shows "if ap_num_slices params \<le> 0 \<or> nr_quantity (ap_parent params) \<le> 0
    then GenerateTwapSlices params start = Some []
    else if \<not> schedule_fits start (ap_duration params sdiv ap_num_slices params) (ap_num_slices params)
    then GenerateTwapSlices params start = None
    else \<exists>slices. GenerateTwapSlices params start = Some slices
      \<and> length slices = nat (ap_num_slices params)
      \<and> sum_list (map (\<lambda>c. nr_quantity (cs_request c)) slices) = nr_quantity (ap_parent params)
      \<and> (\<forall>i < length slices. cs_request (slices ! i) = (ap_parent params)\<lparr>nr_quantity :=
             nr_quantity (ap_parent params) div ap_num_slices params
             + (if i = length slices - 1 then nr_quantity (ap_parent params) mod ap_num_slices params else 0)\<rparr>
           \<and> cs_scheduled_at (slices ! i) =
               start + (ap_duration params sdiv ap_num_slices params) * int i * 1000000000)"
  by (rule GenerateTwapSlices_spec [OF assms])

lemma vwap_loop_sound:
  "vwap_loop params start profile [i..<n] allocated = Some slices \<Longrightarrow> int n = ap_num_slices params \<Longrightarrow> i < n \<Longrightarrow>
     length slices = n - i
     \<and> allocated + sum_list (map (\<lambda>c. nr_quantity (cs_request c)) slices) = nr_quantity (ap_parent params)
     \<and> (\<forall>c \<in> set slices. \<exists>q. cs_request c = (ap_parent params)\<lparr>nr_quantity := q\<rparr>)"
proof (induction "n - i" arbitrary: i allocated slices)
  case (Suc m)
  have upt: "[i..<n] = i # [Suc i..<n]" using Suc.prems(3) by (rule upt_conv_Cons)
  obtain qty allocated' c cs where step: "(if int i < ap_num_slices params - 1
               then Option.bind (llround (f64_mul (f64_of_int (nr_quantity (ap_parent params))) (profile ! i)))
                      (\<lambda>qty. map_option (Pair qty) (i64_add allocated qty))
               else map_option (\<lambda>qty. (qty, allocated)) (i64_add (nr_quantity (ap_parent params)) (- allocated)))
        = Some (qty, allocated')"
    and c: "child_at params start i qty = Some c"
    and cs: "vwap_loop params start profile [Suc i..<n] allocated' = Some cs" and slices: "slices = c # cs"
    using Suc.prems(1) unfolding upt by (auto simp: Let_def split: option.splits)
  note req = child_at_request [OF c]
  show ?case
  proof (cases "Suc i < n")
    case True
    then have "allocated' = allocated + qty"
      using step Suc.prems(2) by (auto simp: bind_eq_Some_conv dest: i64_add_SomeD)
    moreover have "m = n - Suc i" using Suc.hyps(2) by simp
    ultimately show ?thesis
      using Suc.hyps(1) [OF _ cs Suc.prems(2) True] Suc.hyps(2) req True
      by (auto simp: slices)
  next
    case False
    then have "n = Suc i" using Suc.prems(3) by simp
    moreover from this have "qty = nr_quantity (ap_parent params) - allocated"
      using step Suc.prems(2) by (auto dest: i64_add_SomeD)
    ultimately show ?thesis using cs req by (auto simp: slices)
  qed
qed simp

lemma GenerateVwapSlices_spec:
  assumes g: "GenerateVwapSlices params start profile = Some slices" and ne: "slices \<noteq> []"
  shows "0 < ap_num_slices params \<and> 0 < nr_quantity (ap_parent params)
    \<and> length slices = nat (ap_num_slices params)
    \<and> (profile = [] \<or> length profile = length slices)
    \<and> sum_list (map (\<lambda>c. nr_quantity (cs_request c)) slices) = nr_quantity (ap_parent params)
    \<and> (\<forall>c \<in> set slices. \<exists>q. cs_request c = (ap_parent params)\<lparr>nr_quantity := q\<rparr>)"
proof -
  obtain ws where ws: "(if profile = [] then DefaultVolumeProfile (ap_num_slices params) else Some profile) = Some ws"
    "length ws = nat (ap_num_slices params)" "0 < ap_num_slices params" "0 < nr_quantity (ap_parent params)"
    "vwap_loop params start (normalise ws) [0..<nat (ap_num_slices params)] 0 = Some slices"
    using g ne by (auto simp: GenerateVwapSlices_def Let_def split: if_splits option.splits)
  from vwap_loop_sound [OF ws(5)] ws show ?thesis by (auto split: if_splits)
qed

text \<open>The loop in closed form, when no rounding and no sum leaves the range: \<open>Q i\<close> is the rounded quantity of slice i.\<close>

definition vwap_slice :: "algo_params \<Rightarrow> timestamp \<Rightarrow> (nat \<Rightarrow> quantity) \<Rightarrow> nat \<Rightarrow> child_slice" where
  "vwap_slice params start Q i =
     (let n = nat (ap_num_slices params); q = nr_quantity (ap_parent params)
      in \<lparr>cs_request = (ap_parent params)\<lparr>nr_quantity := if i = n - 1 then q - (\<Sum>l<n - 1. Q l) else Q i\<rparr>,
          cs_scheduled_at = start + (ap_duration params sdiv ap_num_slices params) * int i * 1000000000\<rparr>)"

lemma vwap_loop_exact:
  assumes n: "int n = ap_num_slices params"
    and Q: "\<And>j. j < n - 1 \<Longrightarrow> llround (f64_mul (f64_of_int (nr_quantity (ap_parent params))) (profile ! j)) = Some (Q j)"
    and sums: "\<And>j. j < n \<Longrightarrow> in_i64 (\<Sum>l<j. Q l)" and rest: "in_i64 (nr_quantity (ap_parent params) - (\<Sum>l<n - 1. Q l))"
    and start: "in_i64 start" and fits: "schedule_fits start (ap_duration params sdiv ap_num_slices params) (ap_num_slices params)"
  shows "i \<le> n \<Longrightarrow> vwap_loop params start profile [i..<n] (\<Sum>l<i. Q l) = Some (map (vwap_slice params start Q) [i..<n])"
proof (induction "n - i" arbitrary: i)
  case (Suc m)
  then have i: "i < n" "m = n - Suc i" by auto
  have upt: "[i..<n] = i # [Suc i..<n]" using i(1) by (rule upt_conv_Cons)
  have nn: "n = nat (ap_num_slices params)" using n by simp
  have child: "child_at params start i q = Some \<lparr>cs_request = (ap_parent params)\<lparr>nr_quantity := q\<rparr>,
      cs_scheduled_at = start + (ap_duration params sdiv ap_num_slices params) * int i * 1000000000\<rparr>" for q
    using schedule_in_range [OF start fits, of i] i n by (simp add: child_at_def)
  show ?case
  proof (cases "i < n - 1")
    case True
    then have "i64_add (\<Sum>l<i. Q l) (Q i) = Some (\<Sum>l<Suc i. Q l)" "int i < ap_num_slices params - 1"
      using sums [of "Suc i"] n by (auto simp: i64_add_def)
    moreover have "vwap_loop params start profile [Suc i..<n] (\<Sum>l<Suc i. Q l) = Some (map (vwap_slice params start Q) [Suc i..<n])"
      using Suc.hyps(1) [OF i(2)] i(1) by simp
    ultimately show ?thesis
      unfolding upt using Q [OF True] True child by (simp add: vwap_slice_def nn [symmetric])
  next
    case False
    then have "i = n - 1" "[Suc i..<n] = []" "\<not> int i < ap_num_slices params - 1" using i(1) n by auto
    moreover have "i64_add (nr_quantity (ap_parent params)) (- (\<Sum>l<n - 1. Q l)) = Some (nr_quantity (ap_parent params) - (\<Sum>l<n - 1. Q l))"
      using rest by (simp add: i64_add_def)
    ultimately show ?thesis unfolding upt using child by (simp add: vwap_slice_def nn [symmetric])
  qed
qed simp

lemma vwap_slice_sum:
  assumes "0 < ap_num_slices params"
  shows "sum_list (map (\<lambda>c. nr_quantity (cs_request c)) (map (vwap_slice params start Q) [0..<nat (ap_num_slices params)])) =
    nr_quantity (ap_parent params)"
proof -
  obtain m where m: "nat (ap_num_slices params) = Suc m" using assms by (cases "nat (ap_num_slices params)") auto
  have "map (\<lambda>i. nr_quantity (cs_request (vwap_slice params start Q i))) [0..<m] = map Q [0..<m]"
    by (simp add: vwap_slice_def m)
  then have "sum_list (map (\<lambda>i. nr_quantity (cs_request (vwap_slice params start Q i))) [0..<m]) = (\<Sum>l<m. Q l)"
    by (simp add: interv_sum_list_conv_sum_set_nat atLeast0LessThan)
  moreover have "nr_quantity (cs_request (vwap_slice params start Q m)) = nr_quantity (ap_parent params) - (\<Sum>l<m. Q l)"
    by (simp add: vwap_slice_def m)
  ultimately show ?thesis unfolding m by (simp add: comp_def)
qed

lemma GenerateVwapSlices_eq:
  assumes n: "n = ap_num_slices params" and q: "q = nr_quantity (ap_parent params)"
    and ws: "ws = (if profile = [] then normalise (map (profile_weight n) [0..<nat n]) else profile)"
  shows "GenerateVwapSlices params start profile =
    (if n \<le> 0 \<or> q \<le> 0 \<or> length ws \<noteq> nat n \<or> f64_le_zero (accumulate ws) then Some []
     else vwap_loop params start (normalise ws) [0..<nat n] 0)"
proof (cases "n \<le> 0 \<or> q \<le> 0")
  case False
  then have "(if profile = [] then DefaultVolumeProfile n else Some profile) = Some ws"
    by (simp add: DefaultVolumeProfile_def ws)
  with False show ?thesis by (simp add: GenerateVwapSlices_def n [symmetric] q [symmetric] Let_def)
qed (auto simp: GenerateVwapSlices_def n q Let_def)

text \<open>
  C31: VWAP slicing, for every 64-bit start time. The profile is the one that was passed, or for an
  empty one the U-shaped default. With a quantity or number of slices that is not positive, a profile
  of another length than the number of slices, or a profile whose weights add up to zero or less,
  GenerateVwapSlices returns no slices. Otherwise the quantity of a slice but the last is the parent
  quantity times its weight, divided by the sum of the weights, in double arithmetic, rounded to the
  nearest integer. When these roundings have a result (llround of a NaN or of a value outside 64 bits
  has none), their running sums and the remaining quantity stay within 64 bits, and so does the
  schedule, then the function returns one slice per requested slice: each but the last has its rounded quantity, the
  last the parent quantity minus the sum of the others, so that together they add up to the parent
  quantity; slice number i is scheduled i steps of whole seconds after the start; and every child keeps
  the other terms of the parent. The last quantity may be negative (see vwap_can_overtrade).
\<close>

theorem vwap_slices_total:
  assumes start: "in_i64 start" and n: "n = ap_num_slices params" and q: "q = nr_quantity (ap_parent params)"
    and step: "step = ap_duration params sdiv n"
    and ws: "ws = (if profile = [] then normalise (map (profile_weight n) [0..<nat n]) else profile)"
  shows "if n \<le> 0 \<or> q \<le> 0 \<or> length ws \<noteq> nat n \<or> f64_le_zero (accumulate ws)
    then GenerateVwapSlices params start profile = Some []
    else \<forall>Q. (\<forall>i < nat n - 1. llround (f64_mul (f64_of_int q) (f64_div (ws ! i) (accumulate ws))) = Some (Q i))
        \<and> (\<forall>i < nat n. in_i64 (\<Sum>l<i. Q l)) \<and> in_i64 (q - (\<Sum>l<nat n - 1. Q l)) \<and> schedule_fits start step n \<longrightarrow>
      (\<exists>slices. GenerateVwapSlices params start profile = Some slices \<and> length slices = nat n
        \<and> sum_list (map (\<lambda>c. nr_quantity (cs_request c)) slices) = q
        \<and> (\<forall>i < length slices. cs_request (slices ! i) = (ap_parent params)\<lparr>nr_quantity :=
               if i = length slices - 1 then q - (\<Sum>l<nat n - 1. Q l) else Q i\<rparr>
             \<and> cs_scheduled_at (slices ! i) = start + step * int i * 1000000000))"
proof (cases "n \<le> 0 \<or> q \<le> 0 \<or> length ws \<noteq> nat n \<or> f64_le_zero (accumulate ws)")
  case True
  then show ?thesis using GenerateVwapSlices_eq [OF n q ws, of start] by simp
next
  case False
  have G: "GenerateVwapSlices params start profile = vwap_loop params start (normalise ws) [0..<nat n] 0"
    using False GenerateVwapSlices_eq [OF n q ws, of start] by simp
  show ?thesis
    unfolding if_not_P [OF False]
  proof (intro allI impI)
    fix Q
    assume Q: "(\<forall>i < nat n - 1. llround (f64_mul (f64_of_int q) (f64_div (ws ! i) (accumulate ws))) = Some (Q i))
        \<and> (\<forall>i < nat n. in_i64 (\<Sum>l<i. Q l)) \<and> in_i64 (q - (\<Sum>l<nat n - 1. Q l)) \<and> schedule_fits start step n"
    have "GenerateVwapSlices params start profile = Some (map (vwap_slice params start Q) [0..<nat n])"
      unfolding G using vwap_loop_exact [of "nat n" params "normalise ws" Q start 0] Q False start
      by (auto simp: n q step normalise_def)
    then show "\<exists>slices. GenerateVwapSlices params start profile = Some slices \<and> length slices = nat n
        \<and> sum_list (map (\<lambda>c. nr_quantity (cs_request c)) slices) = q
        \<and> (\<forall>i < length slices. cs_request (slices ! i) = (ap_parent params)\<lparr>nr_quantity :=
               if i = length slices - 1 then q - (\<Sum>l<nat n - 1. Q l) else Q i\<rparr>
             \<and> cs_scheduled_at (slices ! i) = start + step * int i * 1000000000)"
      using vwap_slice_sum [of params start Q] False
      by (intro exI [of _ "map (vwap_slice params start Q) [0..<nat n]"]) (auto simp: n q step vwap_slice_def)
  qed
qed

definition sample_params :: "quantity \<Rightarrow> int \<Rightarrow> algo_params" where
  "sample_params qty n = \<lparr>ap_parent = request kBuy kLimit 100 qty, ap_duration = 60, ap_num_slices = n\<rparr>"

theorem twap_slices_exact_witness:
  "case GenerateTwapSlices ((sample_params 10 3)\<lparr>ap_duration := - 60\<rparr>) 7 of None \<Rightarrow> False
   | Some slices \<Rightarrow> sum_list (map (\<lambda>c. nr_quantity (cs_request c)) slices) = 10 \<and> length slices = 3
       \<and> cs_scheduled_at (slices ! 2) = 7 - 40 * 1000000000 \<and> nr_quantity (cs_request (slices ! 2)) = 4"
proof -
  have "ap_num_slices (sample_params 10 3) = 3" "nr_quantity (ap_parent (sample_params 10 3)) = 10"
    by (simp_all add: sample_params_def request_def)
  moreover have "schedule_fits 7 (- 20) 3" by (simp add: schedule_fits_def in_i64_def i64_min_def i64_max_def)
  ultimately show ?thesis
    using twap_slices_exact [of 7 "(sample_params 10 3)\<lparr>ap_duration := - 60\<rparr>"]
    by (auto simp: in_i64_def i64_min_def i64_max_def)
qed

text \<open>The default profile of seven buckets, before and after its weights are divided by their sum.\<close>

definition raw_profile7 :: "f64 list" where
  "raw_profile7 = [Fin (4278419646001971 / 2251799813685248),
     Fin (3152519739159347 / 2251799813685248),
     Fin (2476979795053773 / 2251799813685248),
     Fin 1,
     Fin (2476979795053773 / 2251799813685248),
     Fin (3152519739159347 / 2251799813685248),
     Fin (4278419646001971 / 2251799813685248)]"

definition profile7 :: "f64 list" where
  "profile7 = [Fin (6985174932248115 / 36028797018963968),
     Fin (2573485501354569 / 18014398509481984),
     Fin (8088097289971503 / 72057594037927936),
     Fin (7352815718155911 / 72057594037927936),
     Fin (8088097289971503 / 72057594037927936),
     Fin (2573485501354569 / 18014398509481984),
     Fin (6985174932248115 / 36028797018963968)]"

lemma profile7_raw: "map (profile_weight 7) [0..<7] = raw_profile7"
  by (simp add: raw_profile7_def profile_weight_def f64_eval upt_rec Let_def)

lemma profile7_sum: "accumulate raw_profile7 = Fin (2758454771764429 / 281474976710656)"
  by (simp add: raw_profile7_def accumulate_def f64_eval)

lemma profile7_eq: "DefaultVolumeProfile 7 = Some profile7"
  by (simp add: DefaultVolumeProfile_def profile7_raw normalise_def profile7_sum)
    (simp add: raw_profile7_def profile7_def f64_eval)

lemma profile7_normal: "accumulate profile7 = Fin (9007199254740991 / 9007199254740992)" "normalise profile7 = [Fin (1746293733062029 / 9007199254740992),
     Fin (5146971002709139 / 36028797018963968),
     Fin (505506080623219 / 4503599627370496),
     Fin (919101964769489 / 9007199254740992),
     Fin (505506080623219 / 4503599627370496),
     Fin (5146971002709139 / 36028797018963968),
     Fin (1746293733062029 / 9007199254740992)]"
  by (simp_all add: normalise_def accumulate_def profile7_def f64_eval)

text \<open>
  VWAP can trade more than its parent. For a parent of 5 shares, 7 slices and the default
  profile, rounding gives the first six slices one share each and the last slice minus one: the
  slices sum to 5, but the last one is no valid order, and the six valid children add up to 6.
\<close>

theorem vwap_can_overtrade:
  "case GenerateVwapSlices (sample_params 5 7) 7 [] of None \<Rightarrow> False
   | Some slices \<Rightarrow> map (\<lambda>c. nr_quantity (cs_request c)) slices = [1, 1, 1, 1, 1, 1, - 1]
       \<and> nr_quantity (ap_parent (sample_params 5 7)) = 5
       \<and> length (filter (\<lambda>c. valid_request (cs_request c)) slices) = 6"
proof -
  have "GenerateVwapSlices (sample_params 5 7) 7 [] = vwap_loop (sample_params 5 7) 7 (normalise profile7) [0..<7] 0"
    using profile7_normal(1) by (simp add: GenerateVwapSlices_def sample_params_def request_def profile7_eq Let_def)
      (simp add: profile7_def)
  also have "\<dots> = Some (map (\<lambda>(q, t). \<lparr>cs_request = request kBuy kLimit 100 q, cs_scheduled_at = t\<rparr>)
      [(1, 7), (1, 8000000007), (1, 16000000007), (1, 24000000007), (1, 32000000007), (1, 40000000007), (- 1, 48000000007)])"
    unfolding profile7_normal
    by (simp add: upt_rec sample_params_def request_def child_at_def schedule_def i64_add_def f64_eval)
  finally show ?thesis by (simp add: sample_params_def request_def valid_request_def)
qed

text \<open>The rounded quantities of this run, and the theorem at them.\<close>

theorem vwap_slices_total_witness:
  "case GenerateVwapSlices (sample_params 5 7) 7 [] of None \<Rightarrow> False
   | Some slices \<Rightarrow> sum_list (map (\<lambda>c. nr_quantity (cs_request c)) slices) = 5 \<and> length slices = 7
       \<and> nr_quantity (cs_request (slices ! 2)) = 1 \<and> nr_quantity (cs_request (slices ! 6)) = - 1
       \<and> cs_scheduled_at (slices ! 6) = 48000000007"
proof -
  have p: "ap_num_slices (sample_params 5 7) = 7" "nr_quantity (ap_parent (sample_params 5 7)) = 5"
    "ap_duration (sample_params 5 7) = 60" by (simp_all add: sample_params_def request_def)
  have ws: "normalise (map (profile_weight 7) [0..<nat 7]) = profile7" "length profile7 = 7" "\<not> f64_le_zero (accumulate profile7)"
    using profile7_eq profile7_normal(1) by (simp_all add: DefaultVolumeProfile_def profile7_def f64_eval)
  have "f64_div (profile7 ! i) (accumulate profile7) = normalise profile7 ! i" if "i < 6" for i
    using that ws(2) by (simp add: normalise_def)
  moreover have round: "map (\<lambda>w. llround (f64_mul (f64_of_int 5) w)) (take 6 (normalise profile7)) = replicate 6 (Some 1)"
    unfolding profile7_normal(2) by (simp add: f64_eval) (simp add: eval_nat_numeral)
  have "llround (f64_mul (f64_of_int 5) (normalise profile7 ! i)) = Some 1" if "i < 6" for i
    using arg_cong [OF round, of "\<lambda>xs. xs ! i"] that ws(2) by (simp add: normalise_def)
  ultimately have Q: "\<forall>i < 6. llround (f64_mul (f64_of_int 5) (f64_div (profile7 ! i) (accumulate profile7))) = Some 1" by simp
  have "schedule_fits 7 8 7" "in_i64 7" "in_i64 (- 1)" "\<forall>i < 7. in_i64 (int i)"
    by (auto simp: schedule_fits_def in_i64_def i64_min_def i64_max_def)
  with vwap_slices_total [of 7 7 "sample_params 5 7" 5 8 profile7 "[]"] Q ws show ?thesis
    by (auto simp: p dest!: spec [of _ "\<lambda>_. 1"])
qed

subsection \<open>Algorithm runs\<close>

text \<open>
  What one run does to the order manager: submissions of children, which differ from the parent in
  their quantity only.
\<close>

definition submits_child :: "'d sqlite \<Rightarrow> new_order_request \<Rightarrow> 'd order_manager \<Rightarrow> 'd order_manager \<Rightarrow> bool" where
  "submits_child sq parent om om' \<longleftrightarrow> (\<exists>q. om' = snd (SubmitOrder sq (parent\<lparr>nr_quantity := q\<rparr>) om))"

lemma submit_slices_submits:
  "submit_slices sq slices run om = (run', om') \<Longrightarrow> \<forall>c \<in> set slices. \<exists>q. cs_request c = parent\<lparr>nr_quantity := q\<rparr> \<Longrightarrow>
     (submits_child sq parent ^^ length slices) om om'"
proof (induction sq slices run om rule: submit_slices.induct)
  case (2 sq child slices run om)
  obtain res om1 where s: "SubmitOrder sq (cs_request child) om = (res, om1)" by force
  with "2.prems"(2) have "submits_child sq parent om om1" by (metis submits_child_def list.set_intros(1) snd_conv)
  moreover have "(submits_child sq parent ^^ length slices) om1 om'"
    using "2.IH" [OF s [symmetric]] "2.prems" s by simp
  ultimately show ?case unfolding list.size(4) add_Suc_right add_0_right by (rule relpowp_Suc_I2)
qed simp

text \<open>
  The engines that calls of StartAlgo reach, with any requests and order managers. Their runs carry
  the ids 1, 2, 3, ... and the next id is the one that follows.
\<close>

inductive reachable_algo :: "'d sqlite \<Rightarrow> algo_engine \<Rightarrow> bool" for sq where
  new_algo: "reachable_algo sq AlgoEngine"
| next_algo: "reachable_algo sq ae \<Longrightarrow> StartAlgo sq req ae om = Some (res, ae', om') \<Longrightarrow> reachable_algo sq ae'"

definition runs_numbered :: "algo_engine \<Rightarrow> bool" where
  "runs_numbered ae \<longleftrightarrow> ae_next_run_id ae = of_nat (Suc (RunCount ae))
     \<and> dom (um_find (ae_runs ae)) = of_nat ` {1..RunCount ae}"

lemma runs_numbered_free:
  assumes "runs_numbered ae" and "RunCount ae + 1 < 2 ^ 64"
  shows "um_find (ae_runs ae) (ae_next_run_id ae) = None"
proof -
  have "(of_nat (Suc (RunCount ae)) :: u64) \<notin> of_nat ` {1..RunCount ae}"
    using assms(2) by (auto simp: word_of_nat_eq_iff take_bit_nat_eq_self simp del: of_nat_Suc)
  then show ?thesis using assms(1) by (auto simp: runs_numbered_def simp del: of_nat_Suc)
qed

lemma StartAlgo_engine:
  assumes "StartAlgo sq req ae om = Some (res, ae', om')"
  shows "case res of Inl e \<Rightarrow> ae' = ae
    | Inr rid \<Rightarrow> rid = ae_next_run_id ae \<and> ae_next_run_id ae' = rid + 1
        \<and> (\<exists>run. ae_runs ae' = um_emplace rid run (ae_runs ae))"
  using assms by (auto simp: StartAlgo_def Let_def split: if_splits option.splits prod.splits)

lemma runs_numbered_next:
  assumes num: "runs_numbered ae" and start: "StartAlgo sq req ae om = Some (res, ae', om')" and few: "RunCount ae + 1 < 2 ^ 64"
  shows "runs_numbered ae'"
proof (cases res)
  case (Inr rid)
  then obtain run where R: "rid = ae_next_run_id ae" "ae_next_run_id ae' = rid + 1" "ae_runs ae' = um_emplace rid run (ae_runs ae)"
    using StartAlgo_engine [OF start] by auto
  with runs_numbered_free [OF num few] have runs: "ae_runs ae' = ae_runs ae @ [(rid, run)]" by (simp add: um_emplace_def)
  have "dom (um_find (ae_runs ae')) = insert rid (dom (um_find (ae_runs ae)))" by (auto simp: runs map_add_def split: option.splits)
  also have "\<dots> = of_nat ` {1..Suc (RunCount ae)}"
    using num R(1) by (simp add: runs_numbered_def atLeastAtMostSuc_conv del: of_nat_Suc)
  finally show ?thesis
    using num R(1,2) runs by (simp add: runs_numbered_def RunCount_def)
qed (use StartAlgo_engine [OF start] num in simp)

lemma RunCount_mono: "StartAlgo sq req ae om = Some (res, ae', om') \<Longrightarrow> RunCount ae \<le> RunCount ae'"
  using StartAlgo_engine [of sq req ae om res ae' om']
  by (auto simp: RunCount_def um_emplace_def split: sum.splits option.splits)

lemma reachable_algo_numbered: "reachable_algo sq ae \<Longrightarrow> RunCount ae + 1 < 2 ^ 64 \<Longrightarrow> runs_numbered ae"
proof (induction rule: reachable_algo.induct)
  case new_algo
  then show ?case by (simp add: runs_numbered_def AlgoEngine_def RunCount_def)
next
  case (next_algo ae req om res ae' om')
  then show ?case using runs_numbered_next RunCount_mono [OF next_algo.hyps(2)] by (meson add_le_mono1 le_less_trans)
qed

definition children :: "'d order_manager \<Rightarrow> order_id list \<Rightarrow> order list \<Rightarrow> bool" where
  "children om ids ords \<longleftrightarrow> list_all2 (\<lambda>k ord. GetOrder om k = Inr ord) ids ords"

lemma child_submitted:
  assumes reach: "reachable_om sq om" and ids: "om_next_order_id om \<noteq> - 1"
    and s: "SubmitOrder sq req om = (res, om')"
  shows "om_step sq om om' \<and> reachable_om sq om' \<and> unat (om_next_order_id om') \<le> Suc (unat (om_next_order_id om))
    \<and> (case res of Inl _ \<Rightarrow> True
       | Inr ord \<Rightarrow> GetOrder om' (o_internal_id ord) = Inr ord \<and> o_order_qty ord = nr_quantity req)"
proof -
  note ok = reachable_om_ok [OF reach]
  have step: "om_step sq om om'" by (rule step_submit [OF ids s])
  have inc: "unat (k + 1) \<le> Suc (unat k)" for k :: u64
    by (simp add: unat_word_ariths mod_less_eq_dividend)
  have "unat (om_next_order_id om') \<le> Suc (unat (om_next_order_id om)) \<and> (case res of Inl _ \<Rightarrow> True
       | Inr ord \<Rightarrow> GetOrder om' (o_internal_id ord) = Inr ord \<and> o_order_qty ord = nr_quantity req)"
    using ok ids s
  proof (cases rule: SubmitOrder_outcome)
    case (accepted ord r risk' clk' om4 clk'')
    have total: "0 \<le> total_filled (ar_fills r)" "total_filled (ar_fills r) \<le> nr_quantity req"
      using accepted(7,10) engine_venue.add_total [OF om_okD(1) [OF ok] accepted(3)] by (auto simp: order_ok_def)
    from accept_order_result(1) [OF accepted(6) total(2,1)] accepted inc show ?thesis
      by (simp add: terms_def order_of_request_def valid_request_def GetOrder_eq)
  qed (simp_all add: om_simps inc)
  with step show ?thesis using reachable_om_step [OF reach] by blast
qed

lemma submit_slices_run:
  assumes "submit_slices sq slices run om = (run', om')" and "reachable_om sq om"
    and "unat (om_next_order_id om) + length slices < 2 ^ 64"
    and "\<forall>c \<in> set slices. 0 \<le> nr_quantity (cs_request c) \<or> \<not> bounded"
  shows "(om_step sq)\<^sup>*\<^sup>* om om' \<and> (\<exists>ids ords. run' = run\<lparr>run_child_order_ids := run_child_order_ids run @ ids,
      run_submitted := run_submitted run + length ids,
      run_rejected := run_rejected run + (length slices - length ids)\<rparr>
    \<and> length ids \<le> length slices \<and> children om' ids ords
    \<and> (bounded \<longrightarrow> sum_list (map o_order_qty ords) \<le> sum_list (map (\<lambda>c. nr_quantity (cs_request c)) slices)))"
  using assms
proof (induction sq slices run om rule: submit_slices.induct)
  case (1 sq run om)
  then show ?case by (auto simp: children_def intro!: exI [of _ "[]"])
next
  case (2 sq child slices run om)
  obtain res om1 where s: "SubmitOrder sq (cs_request child) om = (res, om1)" by force
  let ?run = "case res of
      Inr ord \<Rightarrow> run\<lparr>run_child_order_ids := run_child_order_ids run @ [o_internal_id ord],
                     run_submitted := run_submitted run + 1\<rparr>
    | Inl _ \<Rightarrow> run\<lparr>run_rejected := run_rejected run + 1\<rparr>"
  have rest: "submit_slices sq slices ?run om1 = (run', om')" using "2.prems"(1) s by simp
  have "om_next_order_id om \<noteq> - 1"
  proof
    assume "om_next_order_id om = - 1"
    with "2.prems"(3) show False by (simp add: unsigned_minus_1_eq_mask mask_eq_exp_minus_1)
  qed
  note S = child_submitted [OF "2.prems"(2) this s]
  from "2.IH" [OF s [symmetric] rest] S "2.prems"(3,4) obtain ids ords where
    steps: "(om_step sq)\<^sup>*\<^sup>* om1 om'" and R: "run' = ?run\<lparr>run_child_order_ids := run_child_order_ids ?run @ ids,
      run_submitted := run_submitted ?run + length ids,
      run_rejected := run_rejected ?run + (length slices - length ids)\<rparr>" "length ids \<le> length slices"
      "children om' ids ords"
      "bounded \<longrightarrow> sum_list (map o_order_qty ords) \<le> sum_list (map (\<lambda>c. nr_quantity (cs_request c)) slices)"
    by auto
  have hist: "(om_step sq)\<^sup>*\<^sup>* om om'" using S steps by (meson converse_rtranclp_into_rtranclp)
  show ?case
  proof (cases res)
    case (Inl e)
    with R hist "2.prems"(4) show ?thesis
      by (intro conjI exI [of _ ids] exI [of _ ords]) (auto simp: Suc_diff_le)
  next
    case (Inr ord)
    then have ord: "um_find (om_orders om1) (o_internal_id ord) = Some ord" "o_order_qty ord = nr_quantity (cs_request child)"
      "reachable_om sq om1" using S by (simp_all add: GetOrder_eq)
    from steps_evolve [OF steps_system [OF steps] ord(3,1)] obtain ord' where
      "GetOrder om' (o_internal_id ord) = Inr ord'" "o_order_qty ord' = nr_quantity (cs_request child)"
      using ord(2) by (auto simp: evolves_def terms_def GetOrder_eq)
    with R hist Inr show ?thesis
      by (intro conjI exI [of _ "o_internal_id ord # ids"] exI [of _ "ord' # ords"]) (auto simp: children_def)
  qed
qed

lemma algo_slices_spec:
  assumes clock: "in_i64 start" and g: "algo_slices req start = Some slices" and ne: "slices \<noteq> []"
  shows "length slices = nat (ap_num_slices (ar_params req))
    \<and> (ar_type req = kTwap \<longrightarrow> sum_list (map (\<lambda>c. nr_quantity (cs_request c)) slices) = nr_quantity (ap_parent (ar_params req))
        \<and> (\<forall>c \<in> set slices. 0 \<le> nr_quantity (cs_request c)))
    \<and> (\<forall>c \<in> set slices. \<exists>q. cs_request c = (ap_parent (ar_params req))\<lparr>nr_quantity := q\<rparr>)"
proof (cases "ar_type req")
  case kTwap
  with g have t: "GenerateTwapSlices (ar_params req) start = Some slices" by (simp add: algo_slices_def)
  with ne have pos: "\<not> (ap_num_slices (ar_params req) \<le> 0 \<or> nr_quantity (ap_parent (ar_params req)) \<le> 0)"
    by (auto simp: GenerateTwapSlices_def)
  let ?p = "ap_parent (ar_params req)" and ?n = "ap_num_slices (ar_params req)"
  have T: "length slices = nat ?n" "sum_list (map (\<lambda>c. nr_quantity (cs_request c)) slices) = nr_quantity ?p"
    "\<And>i. i < length slices \<Longrightarrow> cs_request (slices ! i) =
       ?p\<lparr>nr_quantity := nr_quantity ?p div ?n + (if i = length slices - 1 then nr_quantity ?p mod ?n else 0)\<rparr>"
    using GenerateTwapSlices_spec [OF clock, of "ar_params req"] t unfolding if_not_P [OF pos] by (auto split: if_splits)
  have "0 \<le> nr_quantity (cs_request c) \<and> (\<exists>q. cs_request c = ?p\<lparr>nr_quantity := q\<rparr>)" if c: "c \<in> set slices" for c
  proof -
    obtain i where "i < length slices" "c = slices ! i" using c by (auto simp: in_set_conv_nth)
    with T(3) [of i] pos show ?thesis by (auto simp: pos_imp_zdiv_nonneg_iff)
  qed
  with T(1,2) show ?thesis by blast
next
  case kVwap
  with g have "GenerateVwapSlices (ar_params req) start (ar_vwap_profile req) = Some slices" by (simp add: algo_slices_def)
  from GenerateVwapSlices_spec [OF this ne] kVwap show ?thesis by simp
qed

text \<open>
  C32: A started algorithm accounts for every slice. Take an algorithm engine as calls of StartAlgo
  leave it, with fewer than 2^64 - 2 runs, and an order manager in any reachable state with enough
  order ids left. If StartAlgo returns a run id, this id was not on file before; the run is on file
  under it afterwards, with one more run than before, and the other runs are as they were. After one
  reading of the clock the order manager has gone through exactly one submission per requested slice
  and nothing else, each of the parent order with another quantity. Each slice was either
  accepted, and then its order is on file in the order manager under the recorded child id, or counted
  as rejected. For TWAP the quantities of the child orders never add up to more than the parent
  quantity.
\<close>

theorem algo_run_accounts:
  assumes reach: "reachable_om sq om" and algo: "reachable_algo sq ae" and few: "RunCount ae + 2 < 2 ^ 64"
    and start: "StartAlgo sq req ae om = Some (Inr rid, ae', om')" and clock: "in_i64 (shd (om_clock om))"
    and ids: "unat (om_next_order_id om) + nat (ap_num_slices (ar_params req)) < 2 ^ 64"
  shows "\<exists>run ords. GetRun ae rid = Inl kOrderNotFound \<and> GetRun ae' rid = Inr run \<and> RunCount ae' = RunCount ae + 1
    \<and> (\<forall>k. k \<noteq> rid \<longrightarrow> GetRun ae' k = GetRun ae k)
    \<and> (submits_child sq (ap_parent (ar_params req)) ^^ nat (ap_num_slices (ar_params req))) (om\<lparr>om_clock := stl (om_clock om)\<rparr>) om'
    \<and> run_submitted run = length (run_child_order_ids run)
    \<and> run_submitted run + run_rejected run = nat (ap_num_slices (ar_params req))
    \<and> children om' (run_child_order_ids run) ords
    \<and> (ar_type req = kTwap \<longrightarrow> sum_list (map o_order_qty ords) \<le> nr_quantity (ap_parent (ar_params req)))"
proof -
  let ?om1 = "om\<lparr>om_clock := stl (om_clock om)\<rparr>" and ?run0 = "\<lparr>run_type = ar_type req, run_params = ar_params req,
      run_child_order_ids = [], run_submitted = 0, run_rejected = 0\<rparr>"
  obtain slices run where S: "algo_slices req (shd (om_clock om)) = Some slices" "slices \<noteq> []"
    "submit_slices sq slices ?run0 ?om1 = (run, om')" "rid = ae_next_run_id ae"
    "ae' = ae\<lparr>ae_next_run_id := rid + 1, ae_runs := um_emplace rid run (ae_runs ae)\<rparr>"
    and pos: "\<not> (ap_num_slices (ar_params req) \<le> 0 \<or> nr_quantity (ap_parent (ar_params req)) \<le> 0)"
    using start by (auto simp: StartAlgo_def om_Now_eq Let_def split: if_splits option.splits prod.splits)
  have len: "length slices = nat (ap_num_slices (ar_params req))"
    and twap: "ar_type req = kTwap \<Longrightarrow> sum_list (map (\<lambda>c. nr_quantity (cs_request c)) slices) = nr_quantity (ap_parent (ar_params req))
      \<and> (\<forall>c \<in> set slices. 0 \<le> nr_quantity (cs_request c))"
    and child: "\<forall>c \<in> set slices. \<exists>q. cs_request c = (ap_parent (ar_params req))\<lparr>nr_quantity := q\<rparr>"
    using algo_slices_spec [OF clock S(1,2)] by auto
  have step1: "om_step sq om ?om1" using step_risk [of sq om "stl (om_clock om)" "om_risk om"] by simp
  have "reachable_om sq ?om1" by (rule reachable_om_step [OF reach step1])
  from submit_slices_run [OF S(3) this, of "ar_type req = kTwap"] ids len twap
  obtain ids ords where R: "run = ?run0\<lparr>run_child_order_ids := ids, run_submitted := length ids,
      run_rejected := length slices - length ids\<rparr>" "length ids \<le> length slices" "children om' ids ords"
    "ar_type req = kTwap \<longrightarrow> sum_list (map o_order_qty ords) \<le> sum_list (map (\<lambda>c. nr_quantity (cs_request c)) slices)"
    by auto
  have "runs_numbered ae" by (rule reachable_algo_numbered [OF algo]) (use few in simp)
  from runs_numbered_free [OF this] few S(4) have free: "um_find (ae_runs ae) rid = None" by simp
  have "GetRun ae' k = (if k = rid then Inr run else GetRun ae k)" for k
    using free by (simp add: S(5) GetRun_def umap_simps)
  moreover have "GetRun ae rid = Inl kOrderNotFound" "RunCount ae' = RunCount ae + 1"
    using free by (simp_all add: S(5) GetRun_def RunCount_def um_emplace_def)
  ultimately show ?thesis
    using R len twap submit_slices_submits [OF S(3) child]
    by (intro exI [of _ run] exI [of _ ords]) auto
qed

theorem algo_run_accounts_witness:
  "case StartAlgo null_sqlite \<lparr>ar_type = kTwap, ar_params = sample_params 3 2, ar_vwap_profile = []\<rparr> AlgoEngine session0 of
     None \<Rightarrow> False
   | Some (res, ae', om') \<Rightarrow> res = Inr 1 \<and> RunCount ae' = 1"
proof -
  let ?req = "\<lparr>ar_type = kTwap, ar_params = sample_params 3 2, ar_vwap_profile = []\<rparr>"
  have c: "shd (om_clock session0) = 9" "om_next_order_id session0 = 1" by (simp_all add: session0_def OrderManager_def sample_clock_def)
  have p: "ap_num_slices (sample_params 3 2) = 2" "nr_quantity (ap_parent (sample_params 3 2)) = 3"
    "ap_duration (sample_params 3 2) = 60" by (simp_all add: sample_params_def request_def)
  obtain slices where "GenerateTwapSlices (sample_params 3 2) 9 = Some slices" "length slices = 2"
    using GenerateTwapSlices_spec [of 9 "sample_params 3 2"] p
    by (auto simp: schedule_fits_def in_i64_def i64_min_def i64_max_def split: if_splits)
  moreover from this(2) have "slices \<noteq> []" by auto
  moreover obtain run om2 where "submit_slices null_sqlite slices \<lparr>run_type = kTwap, run_params = sample_params 3 2,
      run_child_order_ids = [], run_submitted = 0, run_rejected = 0\<rparr> (session0\<lparr>om_clock := stl (om_clock session0)\<rparr>) = (run, om2)"
    by force
  ultimately obtain ae' om' where e: "StartAlgo null_sqlite ?req AlgoEngine session0 = Some (Inr 1, ae', om')"
    by (auto simp: StartAlgo_def om_Now_eq c p algo_slices_def AlgoEngine_def Let_def split: prod.splits)
  from algo_run_accounts [OF session0_reachable new_algo _ e] show ?thesis
    unfolding e by (auto simp: AlgoEngine_def c p in_i64_def i64_min_def i64_max_def RunCount_def)
qed

end
