(* ===== verification/Text.thy ===== *)
theory Text
  imports Decimal
begin

section \<open>Searching and converting text\<close>

text \<open>
  The string functions of the C++ library that the FIX codec, the HTTP layer and the command line
  client use: \<open>std::string::find\<close> and \<open>rfind\<close> (an index, or \<open>None\<close> for \<open>npos\<close>) and
  \<open>std::from_chars\<close> on a whole character range. \<open>from_chars\<close> reads the longest digit prefix and
  ignores what follows; \<open>None\<close> is an error code other than zero, and the output is then left as it
  was.
\<close>

subsection \<open>find and rfind\<close>

fun starts_with :: "string \<Rightarrow> string \<Rightarrow> bool" where
  "starts_with [] s = True"
| "starts_with (c # cs) [] = False"
| "starts_with (c # cs) (d # ds) = (c = d \<and> starts_with cs ds)"

fun find_text :: "string \<Rightarrow> string \<Rightarrow> nat option" where
  \<comment> \<open>\<open>s.find(needle)\<close>\<close>
  "find_text needle [] = (if needle = [] then Some 0 else None)"
| "find_text needle (c # cs) =
     (if starts_with needle (c # cs) then Some 0 else map_option Suc (find_text needle cs))"

definition find_from :: "string \<Rightarrow> string \<Rightarrow> nat \<Rightarrow> nat option" where
  \<comment> \<open>\<open>s.find(needle, pos)\<close>\<close>
  "find_from needle s pos =
     (if pos \<le> length s then map_option (\<lambda>i. pos + i) (find_text needle (drop pos s)) else None)"

fun rfind_text :: "string \<Rightarrow> string \<Rightarrow> nat option" where
  \<comment> \<open>\<open>s.rfind(needle)\<close>\<close>
  "rfind_text needle [] = (if needle = [] then Some 0 else None)"
| "rfind_text needle (c # cs) =
     (case rfind_text needle cs of
        Some i \<Rightarrow> Some (Suc i)
      | None \<Rightarrow> if starts_with needle (c # cs) then Some 0 else None)"

subsection \<open>from_chars\<close>

definition is_digit :: "char \<Rightarrow> bool" where
  "is_digit c \<longleftrightarrow> 48 \<le> (of_char c :: nat) \<and> (of_char c :: nat) \<le> 57"

definition digit_value :: "char \<Rightarrow> nat" where
  "digit_value c = of_char c - 48"

definition digits_value :: "string \<Rightarrow> nat" where
  "digits_value ds = foldl (\<lambda>n c. 10 * n + digit_value c) 0 ds"

definition from_digits :: "string \<Rightarrow> nat option" where
  \<comment> \<open>the longest prefix of digits, which must not be empty\<close>
  "from_digits s = (let ds = takeWhile is_digit s in if ds = [] then None else Some (digits_value ds))"

definition from_chars_signed :: "int \<Rightarrow> int \<Rightarrow> string \<Rightarrow> int option" where
  "from_chars_signed lo hi s =
     (let v = (case s of
                 c # cs \<Rightarrow> if c = CHR ''-'' then map_option (\<lambda>n. - int n) (from_digits cs)
                           else map_option int (from_digits s)
               | [] \<Rightarrow> None)
      in case v of None \<Rightarrow> None | Some i \<Rightarrow> if lo \<le> i \<and> i \<le> hi then Some i else None)"

definition from_chars_i32 :: "string \<Rightarrow> int option" where
  "from_chars_i32 s = from_chars_signed (- 2147483648) 2147483647 s"

definition from_chars_i64 :: "string \<Rightarrow> int option" where
  "from_chars_i64 s = from_chars_signed i64_min i64_max s"

definition from_chars_u64 :: "string \<Rightarrow> u64 option" where
  \<comment> \<open>no minus sign for an unsigned type\<close>
  "from_chars_u64 s =
     (case from_digits s of
        None \<Rightarrow> None
      | Some n \<Rightarrow> if n < 2 ^ 64 then Some (of_nat n) else None)"

subsection \<open>Printing and reading numbers\<close>

lemma digit_char_digit: "d < 10 \<Longrightarrow> is_digit (digit_char d) \<and> digit_value (digit_char d) = d"
  by (simp add: is_digit_def digit_value_def digit_char_def)

lemma nat_to_string_digits: "c \<in> set (nat_to_string n) \<Longrightarrow> is_digit c"
proof (induction n rule: nat_to_string.induct)
  case (1 n)
  then show ?case by (subst (asm) (2) nat_to_string.simps) (auto split: if_splits simp: digit_char_digit)
qed

lemma digits_value_snoc: "digits_value (ds @ [c]) = 10 * digits_value ds + digit_value c"
  by (simp add: digits_value_def)

lemma digits_value_nat_to_string [simp]: "digits_value (nat_to_string n) = n"
proof (induction n rule: nat_to_string.induct)
  case (1 n)
  then show ?case
    by (subst nat_to_string.simps) (auto simp: digits_value_snoc digit_char_digit digits_value_def)
qed

lemma from_digits_nat_to_string:
  "s = [] \<or> \<not> is_digit (hd s) \<Longrightarrow> from_digits (nat_to_string n @ s) = Some n"
proof -
  assume s: "s = [] \<or> \<not> is_digit (hd s)"
  have "takeWhile is_digit (nat_to_string n @ s) = nat_to_string n"
  proof (cases s)
    case Nil
    then show ?thesis by (auto simp: takeWhile_eq_all_conv intro: nat_to_string_digits)
  next
    case (Cons c cs)
    with s have "takeWhile is_digit s = []" by simp
    then show ?thesis by (subst takeWhile_append2) (auto intro: nat_to_string_digits)
  qed
  then show ?thesis by (simp add: from_digits_def Let_def nat_to_string_nonempty)
qed

lemma minus_not_digit [simp]: "\<not> is_digit CHR ''-''"
  by (simp add: is_digit_def)

lemma nat_to_string_Cons: "\<exists>c cs. nat_to_string n = c # cs \<and> is_digit c"
  using nat_to_string_nonempty [of n] nat_to_string_digits [of _ n] by (cases "nat_to_string n") auto

lemma from_chars_signed_int_to_string:
  assumes "s = [] \<or> \<not> is_digit (hd s)" and "lo \<le> i" "i \<le> hi"
  shows "from_chars_signed lo hi (int_to_string i @ s) = Some i"
proof (cases "i < 0")
  case True
  with assms from_digits_nat_to_string [OF assms(1)] show ?thesis
    by (simp add: from_chars_signed_def int_to_string_def)
next
  case False
  obtain c cs where n: "nat_to_string (nat i) = c # cs" "is_digit c" using nat_to_string_Cons by blast
  then have "c \<noteq> CHR ''-''" by auto
  with False assms n from_digits_nat_to_string [OF assms(1), of "nat i"] show ?thesis
    by (simp add: from_chars_signed_def int_to_string_def)
qed

lemma from_chars_u64_to_string [simp]: "from_chars_u64 (u64_to_string w) = Some w"
  using from_digits_nat_to_string [of "[]" "unat w"] unsigned_less [of w, where ?'a = nat]
  by (simp add: from_chars_u64_def u64_to_string_def)

end
