(* ===== verification/Fix_Message.thy ===== *)
theory Fix_Message
  imports Types Text
begin

section \<open>FIX messages (src/src/core/fix/fix_message.h, fix_message.cc)\<close>

text \<open>
  Class \<open>FixMessage\<close>: the tag=value codec. Positions in the raw buffer are indices, as in the code.
\<close>

definition kSoh :: char where
  "kSoh = CHR 0x01"

subsection \<open>Tags and message types\<close>

definition tag_BeginString :: int where "tag_BeginString = 8"
definition tag_BodyLength :: int where "tag_BodyLength = 9"
definition tag_MsgType :: int where "tag_MsgType = 35"
definition tag_SenderCompId :: int where "tag_SenderCompId = 49"
definition tag_TargetCompId :: int where "tag_TargetCompId = 56"
definition tag_MsgSeqNum :: int where "tag_MsgSeqNum = 34"
definition tag_SendingTime :: int where "tag_SendingTime = 52"
definition tag_CheckSum :: int where "tag_CheckSum = 10"
definition tag_ClOrdID :: int where "tag_ClOrdID = 11"
definition tag_OrderID :: int where "tag_OrderID = 37"
definition tag_ExecID :: int where "tag_ExecID = 17"
definition tag_Symbol :: int where "tag_Symbol = 55"
definition tag_Side :: int where "tag_Side = 54"
definition tag_OrderQty :: int where "tag_OrderQty = 38"
definition tag_OrdType :: int where "tag_OrdType = 40"
definition tag_Price :: int where "tag_Price = 44"
definition tag_OrdStatus :: int where "tag_OrdStatus = 39"
definition tag_ExecType :: int where "tag_ExecType = 150"
definition tag_LeavesQty :: int where "tag_LeavesQty = 151"
definition tag_CumQty :: int where "tag_CumQty = 14"
definition tag_TestReqID :: int where "tag_TestReqID = 112"
definition tag_HeartBtInt :: int where "tag_HeartBtInt = 108"
definition tag_EncryptMethod :: int where "tag_EncryptMethod = 98"
definition tag_Text :: int where "tag_Text = 58"

lemmas tag_defs = tag_BeginString_def tag_BodyLength_def tag_MsgType_def tag_SenderCompId_def
  tag_TargetCompId_def tag_MsgSeqNum_def tag_SendingTime_def tag_CheckSum_def tag_ClOrdID_def
  tag_OrderID_def tag_ExecID_def tag_Symbol_def tag_Side_def tag_OrderQty_def tag_OrdType_def
  tag_Price_def tag_OrdStatus_def tag_ExecType_def tag_LeavesQty_def tag_CumQty_def tag_TestReqID_def
  tag_HeartBtInt_def tag_EncryptMethod_def tag_Text_def

definition msg_Heartbeat :: string where "msg_Heartbeat = ''0''"
definition msg_TestRequest :: string where "msg_TestRequest = ''1''"
definition msg_Logout :: string where "msg_Logout = ''5''"
definition msg_ExecutionReport :: string where "msg_ExecutionReport = ''8''"
definition msg_Logon :: string where "msg_Logon = ''A''"
definition msg_NewOrderSingle :: string where "msg_NewOrderSingle = ''D''"
definition msg_OrderCancelRequest :: string where "msg_OrderCancelRequest = ''F''"

lemmas msg_defs = msg_Heartbeat_def msg_TestRequest_def msg_Logout_def msg_ExecutionReport_def
  msg_Logon_def msg_NewOrderSingle_def msg_OrderCancelRequest_def

subsection \<open>Fields\<close>

type_synonym fix_field = "int \<times> string"

record fix_message =
  fm_fields :: "fix_field list"

definition FixMessage :: fix_message where
  "FixMessage = \<lparr>fm_fields = []\<rparr>"

definition FindField :: "fix_field list \<Rightarrow> int \<Rightarrow> string option" where
  "FindField flds t = map_of flds t"

definition Get :: "fix_message \<Rightarrow> int \<Rightarrow> string option" where
  "Get msg t = map_of (fm_fields msg) t"

definition value_or :: "'a option \<Rightarrow> 'a \<Rightarrow> 'a" where
  "value_or x d = (case x of Some v \<Rightarrow> v | None \<Rightarrow> d)"

definition MsgType :: "fix_message \<Rightarrow> string" where
  "MsgType msg = value_or (Get msg tag_MsgType) ''''"

definition GetInt :: "fix_message \<Rightarrow> int \<Rightarrow> int" where
  \<comment> \<open>0 when the tag is absent or the value is not a number; the error code is not looked at\<close>
  "GetInt msg t = (case Get msg t of None \<Rightarrow> 0 | Some v \<Rightarrow> value_or (from_chars_i64 v) 0)"

definition FieldCount :: "fix_message \<Rightarrow> nat" where
  "FieldCount msg = length (fm_fields msg)"

fun set_field :: "int \<Rightarrow> string \<Rightarrow> fix_field list \<Rightarrow> fix_field list" where
  "set_field t v [] = [(t, v)]"
| "set_field t v ((t', v') # fs) = (if t' = t then (t', v) # fs else (t', v') # set_field t v fs)"

definition Set :: "int \<Rightarrow> string \<Rightarrow> fix_message \<Rightarrow> fix_message" where
  "Set t v msg = msg\<lparr>fm_fields := set_field t v (fm_fields msg)\<rparr>"

definition SetInt :: "int \<Rightarrow> int \<Rightarrow> fix_message \<Rightarrow> fix_message" where
  "SetInt t v msg = Set t (int_to_string v) msg"

subsection \<open>Serialising\<close>

definition ComputeCheckSum :: "string \<Rightarrow> nat" where
  \<comment> \<open>\<open>unsigned\<close> is 32 bits wide\<close>
  "ComputeCheckSum buf = unat (foldl (\<lambda>s c. s + of_nat (of_char c)) (0 :: 32 word) buf) mod 256"

definition field_text :: "fix_field \<Rightarrow> string" where
  "field_text f = int_to_string (fst f) @ ''='' @ snd f @ [kSoh]"

definition is_body_tag :: "int \<Rightarrow> bool" where
  "is_body_tag t \<longleftrightarrow> \<not> (t = tag_BeginString \<or> t = tag_BodyLength \<or> t = tag_MsgType \<or> t = tag_CheckSum)"

definition message_body :: "fix_message \<Rightarrow> string" where
  "message_body msg =
     ''35='' @ value_or (FindField (fm_fields msg) tag_MsgType) ''0'' @ [kSoh] @
     concat (map field_text (filter (\<lambda>f. is_body_tag (fst f)) (fm_fields msg)))"

definition message_prefix :: "fix_message \<Rightarrow> string" where
  "message_prefix msg =
     ''8='' @ value_or (FindField (fm_fields msg) tag_BeginString) ''FIX.4.4'' @ [kSoh] @
     ''9='' @ nat_to_string (length (message_body msg)) @ [kSoh]"

definition zero_padded :: "nat \<Rightarrow> nat \<Rightarrow> string" where
  \<comment> \<open>\<open>{:03d}\<close> and the like\<close>
  "zero_padded w n = (let s = nat_to_string n in replicate (w - length s) CHR ''0'' @ s)"

definition Serialize :: "fix_message \<Rightarrow> string" where
  "Serialize msg =
     (let without_checksum = message_prefix msg @ message_body msg
      in without_checksum @ ''10='' @ zero_padded 3 (ComputeCheckSum without_checksum) @ [kSoh])"

subsection \<open>Parsing\<close>

function parse_fields :: "string \<Rightarrow> fix_field list option" where
  \<comment> \<open>the loop of Parse on the rest of the buffer; \<open>None\<close> is kFixParseError\<close>
  "parse_fields raw =
     (if raw = [] then Some []
      else let tag_view = takeWhile (\<lambda>c. c \<noteq> CHR ''='') raw;
               rest = dropWhile (\<lambda>c. c \<noteq> CHR ''='') raw
           in if rest = [] then None
           else let val = takeWhile (\<lambda>c. c \<noteq> kSoh) (tl rest);
                    rest' = dropWhile (\<lambda>c. c \<noteq> kSoh) (tl rest)
                in if rest' = [] then None
                else case from_chars_i32 tag_view of
                       None \<Rightarrow> None
                     | Some tag_num \<Rightarrow>
                         if tag_num \<le> 0 then None
                         else map_option (Cons (tag_num, val)) (parse_fields (tl rest')))"
  by pat_completeness auto
termination
proof (relation "measure length")
  fix raw tag_view rest val rest' :: string and tag_num :: int
  assume "rest = dropWhile (\<lambda>c. c \<noteq> CHR ''='') raw" "rest' = dropWhile (\<lambda>c. c \<noteq> kSoh) (tl rest)" "rest' \<noteq> []"
  then have "length rest' \<le> length raw" "rest' \<noteq> []"
    by (auto intro: order_trans [OF length_dropWhile_le] simp: le_diff_conv le_SucI length_dropWhile_le)
  then show "(tl rest', raw) \<in> measure length" by (cases rest') auto
qed simp

declare parse_fields.simps [simp del]

definition Parse :: "string \<Rightarrow> fix_message result" where
  "Parse raw = (case parse_fields raw of None \<Rightarrow> Inl kFixParseError | Some fs \<Rightarrow> Inr \<lparr>fm_fields = fs\<rparr>)"

definition FindTagStart :: "string \<Rightarrow> string \<Rightarrow> nat option" where
  \<comment> \<open>only the first occurrence of the needle is looked at\<close>
  "FindTagStart raw needle =
     (case find_text needle raw of
        None \<Rightarrow> None
      | Some pos \<Rightarrow> if pos = 0 \<or> raw ! (pos - 1) = kSoh then Some pos else None)"

definition ParseStrict :: "string \<Rightarrow> fix_message result" where
  "ParseStrict raw =
     (case Parse raw of
        Inl e \<Rightarrow> Inl e
      | Inr parsed \<Rightarrow>
     (case Get parsed tag_BodyLength of
        None \<Rightarrow> Inl kFixParseError
      | Some body_length \<Rightarrow>
     (case FindTagStart raw ''9='' of
        None \<Rightarrow> Inl kFixParseError
      | Some body_length_pos \<Rightarrow>
     (case find_from [kSoh] raw body_length_pos of
        None \<Rightarrow> Inl kFixParseError
      | Some soh_pos \<Rightarrow>
          let body_start = soh_pos + 1
          in if fm_fields parsed = [] then Inl kFixParseError
             else if fst (last (fm_fields parsed)) \<noteq> tag_CheckSum then Inl kFixParseError
             else (case rfind_text (kSoh # ''10='') raw of
                     None \<Rightarrow> Inl kFixParseError
                   | Some checksum_pos \<Rightarrow>
                       if checksum_pos < body_start then Inl kFixParseError
                       else (case from_chars_i32 body_length of
                               None \<Rightarrow> Inl kFixParseError
                             | Some claimed_body_length \<Rightarrow>
                                 if claimed_body_length < 0
                                    \<or> claimed_body_length \<noteq> int (checksum_pos - body_start + 1)
                                 then Inl kFixParseError
                                 else (case from_chars_i32 (snd (last (fm_fields parsed))) of
                                         None \<Rightarrow> Inl kFixParseError
                                       | Some claimed \<Rightarrow>
                                           if claimed \<noteq> int (ComputeCheckSum (take (checksum_pos + 1) raw))
                                           then Inl kFixParseError
                                           else Inr parsed)))))))"

end
