(* ===== verification/Fix_Codec.thy ===== *)
theory Fix_Codec
  imports Fix_Message
begin

section \<open>Properties of the FIX codec\<close>

text \<open>
  Serialize and ParseStrict are inverse on well-formed messages, and ParseStrict detects every
  change of a single byte before the checksum field.
\<close>

subsection \<open>Searching\<close>

lemma find_soh: "kSoh \<notin> set xs \<Longrightarrow> find_text [kSoh] (xs @ kSoh # ys) = Some (length xs)"
  by (induction xs) auto

lemma find_length_tag:
  "find_text ''9='' xs = None \<Longrightarrow> find_text ''9='' (xs @ kSoh # CHR ''9'' # CHR ''='' # ys) = Some (Suc (length xs))"
proof (induction xs)
  case Nil
  then show ?case by (simp add: kSoh_def)
next
  case (Cons c cs)
  then show ?case by (cases cs) (auto simp: kSoh_def split: if_splits)
qed

lemma rfind_after_soh: "kSoh \<notin> set xs \<Longrightarrow> rfind_text (kSoh # c # cs) (xs @ [kSoh]) = None"
  by (induction xs) auto

lemma rfind_checksum:
  assumes "kSoh \<notin> set ds"
  shows "rfind_text (kSoh # ''10='') (xs @ kSoh # ''10='' @ ds @ [kSoh]) = Some (length xs)"
proof (induction xs)
  case Nil
  have "kSoh \<notin> set (''10='' @ ds)" using assms by (simp add: kSoh_def)
  from rfind_after_soh [OF this, of "CHR ''1''" "''0=''"]
  have "rfind_text (kSoh # ''10='') (''10='' @ ds @ [kSoh]) = None" by simp
  then show ?case by simp
qed simp

lemma starts_with_iff: "starts_with n s \<longleftrightarrow> take (length n) s = n"
  by (induction n s rule: starts_with.induct) auto

lemma rfind_SomeD:
  "n \<noteq> [] \<Longrightarrow> rfind_text n s = Some p \<Longrightarrow>
     p < length s \<and> starts_with n (drop p s) \<and> (\<forall>q. p < q \<longrightarrow> \<not> starts_with n (drop q s))"
proof (induction s arbitrary: p)
  case (Cons c cs)
  have none: "\<forall>q. \<not> starts_with n (drop q cs)" if "rfind_text n cs = None" "n \<noteq> []"
    using that
  proof (induction cs)
    case (Cons d ds)
    then have "rfind_text n ds = None" "\<not> starts_with n (d # ds)" by (auto split: option.splits if_splits)
    with Cons show ?case by (metis drop_Cons' )
  qed (auto simp: starts_with_iff)
  show ?case
  proof (cases "rfind_text n cs")
    case None
    with Cons.prems none [OF None Cons.prems(1)] show ?thesis
      by (auto simp: drop_Cons' split: if_splits)
  next
    case (Some i)
    with Cons show ?thesis by (auto simp: drop_Cons')
  qed
qed auto

lemma rfind_SomeI:
  "p < length s \<Longrightarrow> starts_with n (drop p s) \<Longrightarrow> \<forall>q. p < q \<longrightarrow> \<not> starts_with n (drop q s) \<Longrightarrow> n \<noteq> [] \<Longrightarrow>
   rfind_text n s = Some p"
proof (induction s arbitrary: p)
  case (Cons c cs)
  show ?case
  proof (cases p)
    case 0
    have "rfind_text n cs = None"
    proof (cases "rfind_text n cs")
      case (Some q)
      from rfind_SomeD [OF Cons.prems(4) Some] Cons.prems(3) 0 show ?thesis by (auto dest: spec [of _ "Suc q"])
    qed
    with Cons.prems 0 show ?thesis by simp
  next
    case (Suc q)
    with Cons.prems have "rfind_text n cs = Some q"
      by (intro Cons.IH) (auto dest: spec [of _ "Suc _"])
    with Suc show ?thesis by simp
  qed
qed simp

text \<open>A change before the last occurrence does not move it.\<close>

lemma rfind_update:
  assumes "n \<noteq> []" and "rfind_text n s = Some p" and "i < p"
  shows "rfind_text n (s[i := c]) = Some p"
proof -
  note R = rfind_SomeD [OF assms(1,2)]
  have "drop q (s[i := c]) = drop q s" if "p \<le> q" for q using that assms(3) by (simp add: drop_update_cancel)
  with R assms(1) show ?thesis by (intro rfind_SomeI) auto
qed

subsection \<open>Parsing what Serialize writes\<close>

definition field_ok :: "fix_field \<Rightarrow> bool" where
  "field_ok f \<longleftrightarrow> 0 < fst f \<and> fst f \<le> 2147483647 \<and> kSoh \<notin> set (snd f)"

lemma not_digit [simp]: "\<not> is_digit CHR ''=''" "\<not> is_digit kSoh"
  by (simp_all add: is_digit_def kSoh_def)

lemma int_to_string_chars: "0 \<le> t \<Longrightarrow> c \<in> set (int_to_string t) \<Longrightarrow> is_digit c"
  by (auto simp: int_to_string_def dest: nat_to_string_digits)

lemma parse_field_text:
  assumes "field_ok f"
  shows "parse_fields (field_text f @ s) = map_option (Cons f) (parse_fields s)"
proof -
  obtain t v where f: "f = (t, v)" by force
  have t: "0 < t" "t \<le> 2147483647" and v: "kSoh \<notin> set v" using assms by (simp_all add: f field_ok_def)
  have tag: "\<forall>c \<in> set (int_to_string t). c \<noteq> CHR ''=''"
    using int_to_string_chars [of t] t by fastforce
  let ?raw = "int_to_string t @ CHR ''='' # v @ kSoh # s"
  have 1: "takeWhile (\<lambda>c. c \<noteq> CHR ''='') ?raw = int_to_string t" "dropWhile (\<lambda>c. c \<noteq> CHR ''='') ?raw = CHR ''='' # v @ kSoh # s"
    using tag by (auto simp: takeWhile_append2 dropWhile_append2)
  have 2: "takeWhile (\<lambda>c. c \<noteq> kSoh) (v @ kSoh # s) = v" "dropWhile (\<lambda>c. c \<noteq> kSoh) (v @ kSoh # s) = kSoh # s"
  proof -
    have "\<And>c. c \<in> set v \<Longrightarrow> c \<noteq> kSoh" using v by auto
    then show "takeWhile (\<lambda>c. c \<noteq> kSoh) (v @ kSoh # s) = v" "dropWhile (\<lambda>c. c \<noteq> kSoh) (v @ kSoh # s) = kSoh # s"
      by (simp_all add: takeWhile_append2 dropWhile_append2)
  qed
  have 3: "from_chars_i32 (int_to_string t) = Some t"
    using from_chars_signed_int_to_string [of "[]" "- 2147483648" t 2147483647] t by (simp add: from_chars_i32_def)
  have "?raw \<noteq> []" by simp
  with 1 2 3 t have "parse_fields ?raw = map_option (Cons (t, v)) (parse_fields s)"
    by (subst parse_fields.simps) (simp add: Let_def)
  then show ?thesis by (simp add: field_text_def f)
qed

lemma parse_field_texts:
  "list_all field_ok fs \<Longrightarrow> parse_fields (concat (map field_text fs)) = Some fs"
proof (induction fs)
  case Nil
  then show ?case by (simp add: parse_fields.simps)
qed (simp add: parse_field_text)

subsection \<open>Checksums\<close>

lemma ComputeCheckSum_sum: "ComputeCheckSum buf = sum_list (map of_char buf) mod 256"
proof -
  have "foldl (\<lambda>s c. s + of_nat (of_char c)) a buf = a + of_nat (sum_list (map of_char buf))" for a :: "32 word"
    by (induction buf arbitrary: a) (simp_all add: algebra_simps)
  then have "ComputeCheckSum buf = sum_list (map of_char buf) mod 2 ^ 32 mod 256"
    by (simp add: ComputeCheckSum_def unat_of_nat)
  also have "\<dots> = sum_list (map of_char buf) mod 256"
    by (rule mod_mod_cancel) simp
  finally show ?thesis .
qed

lemma mod_shift_inj:
  fixes a b k s :: nat
  assumes "a < k" "b < k" "(s + a) mod k = (s + b) mod k"
  shows "a = b"
proof -
  have "(int s + int a) mod int k = (int s + int b) mod int k"
    using arg_cong [OF assms(3), of int] by (simp add: of_nat_mod)
  then have "int k dvd int a - int b" by (simp add: mod_eq_dvd_iff)
  then have "int a - int b = 0"
    using assms(1,2) dvd_imp_le_int [of "int a - int b" "int k"] by fastforce
  then show ?thesis by simp
qed

lemma checksum_update:
  assumes "i < length buf" and "c \<noteq> buf ! i"
  shows "ComputeCheckSum (buf[i := c]) \<noteq> ComputeCheckSum buf"
proof
  let ?n = "of_char :: char \<Rightarrow> nat"
  assume eq: "ComputeCheckSum (buf[i := c]) = ComputeCheckSum buf"
  define S where "S = sum_list (map ?n (take i buf)) + sum_list (map ?n (drop (Suc i) buf))"
  have new: "sum_list (map ?n (buf[i := c])) = S + ?n c"
    unfolding upd_conv_take_nth_drop [OF assms(1)] S_def by simp
  have old: "sum_list (map ?n buf) = S + ?n (buf ! i)"
    using arg_cong [OF id_take_nth_drop [OF assms(1)], of "\<lambda>xs. sum_list (map ?n xs)"] unfolding S_def by simp
  have "(S + ?n c) mod 256 = (S + ?n (buf ! i)) mod 256"
    using eq unfolding ComputeCheckSum_sum new old .
  from mod_shift_inj [OF nat_of_char_less_256 nat_of_char_less_256 this] have "c = buf ! i"
    by (simp only: of_char_eq_iff)
  with assms(2) show False by contradiction
qed

subsection \<open>The round trip\<close>

definition begin_string :: "fix_message \<Rightarrow> string" where
  "begin_string msg = value_or (FindField (fm_fields msg) tag_BeginString) ''FIX.4.4''"

definition msg_type_text :: "fix_message \<Rightarrow> string" where
  "msg_type_text msg = value_or (FindField (fm_fields msg) tag_MsgType) ''0''"

definition message_ok :: "fix_message \<Rightarrow> bool" where
  "message_ok msg \<longleftrightarrow> list_all field_ok (fm_fields msg) \<and> find_text ''9='' (begin_string msg) = None
     \<and> length (message_body msg) \<le> 2147483647"

text \<open>The fields that Serialize writes, in order.\<close>

definition body_fields :: "fix_message \<Rightarrow> fix_field list" where
  "body_fields msg = (tag_MsgType, msg_type_text msg) # filter (\<lambda>f. is_body_tag (fst f)) (fm_fields msg)"

definition prefix_fields :: "fix_message \<Rightarrow> fix_field list" where
  "prefix_fields msg = [(tag_BeginString, begin_string msg), (tag_BodyLength, nat_to_string (length (message_body msg)))]"

definition checksum_text :: "fix_message \<Rightarrow> string" where
  "checksum_text msg = zero_padded 3 (ComputeCheckSum (message_prefix msg @ message_body msg))"

definition wire_fields :: "fix_message \<Rightarrow> fix_field list" where
  "wire_fields msg = prefix_fields msg @ body_fields msg @ [(tag_CheckSum, checksum_text msg)]"

lemma tag_texts: "int_to_string 8 = ''8''" "int_to_string 9 = ''9''" "int_to_string 35 = ''35''" "int_to_string 10 = ''10''"
  by (simp_all add: int_to_string_def nat_to_string.simps)

lemma message_texts:
  "message_body msg = concat (map field_text (body_fields msg))"
  "message_prefix msg = concat (map field_text (prefix_fields msg))"
  "Serialize msg = concat (map field_text (wire_fields msg))"
proof -
  show body: "message_body msg = concat (map field_text (body_fields msg))"
    by (simp add: message_body_def body_fields_def msg_type_text_def field_text_def tag_texts tag_MsgType_def)
  show prefix: "message_prefix msg = concat (map field_text (prefix_fields msg))"
    by (simp add: message_prefix_def prefix_fields_def begin_string_def field_text_def tag_texts
        tag_BeginString_def tag_BodyLength_def)
  show "Serialize msg = concat (map field_text (wire_fields msg))"
    by (simp add: Serialize_def wire_fields_def body prefix field_text_def checksum_text_def tag_texts
        tag_CheckSum_def Let_def)
qed

lemma soh_free_number: "kSoh \<notin> set (nat_to_string n)" "kSoh \<notin> set (zero_padded w n)"
proof -
  show 1: "kSoh \<notin> set (nat_to_string n)" for n using nat_to_string_digits [of kSoh n] by auto
  show "kSoh \<notin> set (zero_padded w n)" using 1 by (auto simp: zero_padded_def Let_def kSoh_def)
qed

lemma FindField_ok: "list_all field_ok fs \<Longrightarrow> kSoh \<notin> set d \<Longrightarrow> kSoh \<notin> set (value_or (FindField fs t) d)"
  by (fastforce simp: FindField_def value_or_def list_all_iff field_ok_def dest: map_of_SomeD split: option.splits)

lemma wire_fields_ok:
  assumes "message_ok msg"
  shows "list_all field_ok (wire_fields msg)"
proof -
  have "list_all field_ok (fm_fields msg)" using assms by (simp add: message_ok_def)
  with FindField_ok [OF this] show ?thesis
    by (auto simp: wire_fields_def prefix_fields_def body_fields_def field_ok_def soh_free_number checksum_text_def
        begin_string_def msg_type_text_def tag_defs list_all_iff kSoh_def soh_free_number [unfolded kSoh_def])
qed

lemma zero_padded_value: "from_chars_i32 (zero_padded w n) = (if n \<le> 2147483647 then Some (int n) else None)"
proof -
  have digits: "\<forall>c \<in> set (zero_padded w n). is_digit c"
    by (auto simp: zero_padded_def Let_def is_digit_def dest: nat_to_string_digits)
  have "foldl (\<lambda>n c. 10 * n + digit_value c) 0 (replicate k CHR ''0'') = 0" for k
    by (induction k) (simp_all add: digit_value_def)
  then have "digits_value (zero_padded w n) = n"
    using digits_value_nat_to_string [of n] by (simp add: zero_padded_def Let_def digits_value_def del: digits_value_nat_to_string)
  moreover have "zero_padded w n \<noteq> []" by (simp add: zero_padded_def Let_def nat_to_string_nonempty)
  moreover have tw: "takeWhile is_digit (zero_padded w n) = zero_padded w n"
    using digits by (simp add: takeWhile_eq_all_conv)
  ultimately have "from_digits (zero_padded w n) = Some n" unfolding from_digits_def Let_def tw by simp
  moreover have "hd (zero_padded w n) \<noteq> CHR ''-''"
    using digits \<open>zero_padded w n \<noteq> []\<close> minus_not_digit by (metis list.set_sel(1))
  ultimately show ?thesis
    using \<open>zero_padded w n \<noteq> []\<close>
    by (cases "zero_padded w n") (auto simp: from_chars_i32_def from_chars_signed_def)
qed

lemma zero_padded_0: "zero_padded 0 n = nat_to_string n"
  by (simp add: zero_padded_def Let_def)

lemma checksum_small: "ComputeCheckSum buf \<le> 2147483647"
proof -
  have "ComputeCheckSum buf < 256" by (simp add: ComputeCheckSum_def)
  then show ?thesis by simp
qed

text \<open>The positions that ParseStrict looks for, in what Serialize writes.\<close>

lemma Serialize_positions:
  assumes "message_ok msg"
  shows "FindTagStart (Serialize msg) ''9='' = Some (length (begin_string msg) + 3)"
    and "find_from [kSoh] (Serialize msg) (length (begin_string msg) + 3) = Some (length (message_prefix msg) - 1)"
    and "rfind_text (kSoh # ''10='') (Serialize msg) = Some (length (message_prefix msg @ message_body msg) - 1)"
proof -
  let ?bs = "begin_string msg" and ?len = "nat_to_string (length (message_body msg))"
  have ser: "Serialize msg = CHR ''8'' # CHR ''='' # ?bs @ kSoh # CHR ''9'' # CHR ''='' # ?len @ kSoh #
      (message_body msg @ ''10='' @ checksum_text msg @ [kSoh])"
    by (simp add: Serialize_def message_prefix_def begin_string_def checksum_text_def Let_def)
  have "find_text ''9='' (CHR ''='' # ?bs @ kSoh # CHR ''9'' # CHR ''='' # ys) = Some (length ?bs + 2)" for ys
    using find_length_tag [of ?bs ys] assms by (simp add: message_ok_def)
  then have "find_text ''9='' (Serialize msg) = Some (length ?bs + 3)" by (simp add: ser)
  moreover have "Serialize msg ! (length ?bs + 2) = kSoh" by (simp add: ser nth_append)
  ultimately show "FindTagStart (Serialize msg) ''9='' = Some (length ?bs + 3)"
    by (simp add: FindTagStart_def numeral_eq_Suc)
  have "kSoh \<notin> set (CHR ''9'' # CHR ''='' # ?len)" using soh_free_number by (simp add: kSoh_def)
  from find_soh [OF this] have "find_text [kSoh] (drop (length ?bs + 3) (Serialize msg)) = Some (length ?len + 2)"
    by (simp add: ser numeral_eq_Suc)
  then show "find_from [kSoh] (Serialize msg) (length ?bs + 3) = Some (length (message_prefix msg) - 1)"
    by (simp add: find_from_def ser message_prefix_def begin_string_def)
  obtain fs f where "body_fields msg = fs @ [f]" by (metis body_fields_def list.distinct(1) rev_exhaust)
  then obtain pre where pre: "message_prefix msg @ message_body msg = pre @ [kSoh]"
    by (simp add: message_texts field_text_def)
  then have "Serialize msg = pre @ kSoh # ''10='' @ checksum_text msg @ [kSoh]"
    by (simp add: Serialize_def checksum_text_def Let_def)
  with rfind_checksum [OF soh_free_number(2)] have "rfind_text (kSoh # ''10='') (Serialize msg) = Some (length pre)"
    by (simp add: checksum_text_def)
  then show "rfind_text (kSoh # ''10='') (Serialize msg) = Some (length (message_prefix msg @ message_body msg) - 1)"
    by (simp add: pre)
qed

lemma Serialize_parsed:
  assumes ok: "message_ok msg"
  shows "ParseStrict (Serialize msg) = Inr \<lparr>fm_fields = wire_fields msg\<rparr>"
proof -
  have parse: "Parse (Serialize msg) = Inr \<lparr>fm_fields = wire_fields msg\<rparr>"
    by (simp add: Parse_def message_texts(3) parse_field_texts [OF wire_fields_ok [OF ok]])
  note P = Serialize_positions [OF ok]
  have len: "Get \<lparr>fm_fields = wire_fields msg\<rparr> tag_BodyLength = Some (nat_to_string (length (message_body msg)))"
    by (simp add: Get_def wire_fields_def prefix_fields_def tag_defs)
  have last: "last (wire_fields msg) = (tag_CheckSum, checksum_text msg)" "wire_fields msg \<noteq> []"
    by (simp_all add: wire_fields_def)
  have sizes: "0 < length (message_prefix msg)" "0 < length (message_body msg)"
    by (simp_all add: message_prefix_def message_body_def)
  have cs: "take (length (message_prefix msg @ message_body msg)) (Serialize msg) = message_prefix msg @ message_body msg"
    by (simp add: Serialize_def Let_def)
  have bl: "from_chars_i32 (nat_to_string (length (message_body msg))) = Some (int (length (message_body msg)))"
    using zero_padded_value [of 0 "length (message_body msg)"] ok by (simp add: zero_padded_0 message_ok_def)
  have ct: "from_chars_i32 (checksum_text msg) = Some (int (ComputeCheckSum (message_prefix msg @ message_body msg)))"
    unfolding checksum_text_def zero_padded_value using checksum_small by simp
  have pos: "length (message_prefix msg @ message_body msg) - 1 + 1 = length (message_prefix msg @ message_body msg)"
    using sizes by simp
  have "\<not> length (message_prefix msg @ message_body msg) - 1 < length (message_prefix msg) - 1 + 1"
    "int (length (message_body msg)) = int (length (message_prefix msg @ message_body msg) - 1 - (length (message_prefix msg) - 1 + 1) + 1)"
    using sizes by (simp_all only: length_append)
  then show ?thesis
    unfolding ParseStrict_def parse sum.case len option.case P Let_def bl pos cs
    using last by (simp add: ct del: length_append)
qed

lemma Get_wire_fields:
  assumes "is_body_tag t"
  shows "Get \<lparr>fm_fields = wire_fields msg\<rparr> t = Get msg t"
proof -
  have "map_of (filter (\<lambda>f. is_body_tag (fst f)) fs) t = map_of fs t" for fs :: "fix_field list"
    using assms by (induction fs) auto
  with assms show ?thesis
    by (auto simp: Get_def wire_fields_def prefix_fields_def body_fields_def map_add_def is_body_tag_def split: option.splits)
qed

text \<open>
  C8: What Serialize writes, ParseStrict reads back. For a message whose tags are positive 32-bit
  numbers and whose values are free of the field separator (and whose begin string does not itself
  contain 9=), parsing the serialised text succeeds, BodyLength and CheckSum included; every field
  other than the four framing tags reads the same as in the original, and begin string and message
  type read as the original's, or as FIX.4.4 and 0 when it has none.
\<close>

theorem fix_roundtrip:
  assumes "message_ok msg"
  shows "\<exists>parsed. ParseStrict (Serialize msg) = Inr parsed
    \<and> (\<forall>t. is_body_tag t \<longrightarrow> Get parsed t = Get msg t)
    \<and> Get parsed tag_BeginString = Some (value_or (Get msg tag_BeginString) ''FIX.4.4'')
    \<and> Get parsed tag_MsgType = Some (value_or (Get msg tag_MsgType) ''0'')
    \<and> Get parsed tag_BodyLength = Some (nat_to_string (length (message_body msg)))"
proof -
  let ?parsed = "\<lparr>fm_fields = wire_fields msg\<rparr>"
  have "Get ?parsed tag_BeginString = Some (value_or (Get msg tag_BeginString) ''FIX.4.4'')"
    "Get ?parsed tag_MsgType = Some (value_or (Get msg tag_MsgType) ''0'')"
    "Get ?parsed tag_BodyLength = Some (nat_to_string (length (message_body msg)))"
    by (simp_all add: Get_def wire_fields_def prefix_fields_def body_fields_def begin_string_def msg_type_text_def
        FindField_def tag_defs)
  then show ?thesis using Serialize_parsed [OF assms] Get_wire_fields by blast
qed

definition sample_message :: fix_message where
  "sample_message = \<lparr>fm_fields = [(35, ''D''), (11, ''c=1''), (55, ''7203''), (38, ''100'')]\<rparr>"

lemma sample_message_ok: "message_ok sample_message"
  by (simp add: message_ok_def sample_message_def field_ok_def kSoh_def begin_string_def FindField_def
      message_body_def is_body_tag_def tag_defs value_or_def field_text_def int_to_string_def nat_to_string.simps)

theorem fix_roundtrip_witness:
  "case ParseStrict (Serialize sample_message) of Inl _ \<Rightarrow> False
   | Inr parsed \<Rightarrow> Get parsed tag_ClOrdID = Some ''c=1'' \<and> MsgType parsed = ''D''"
  using fix_roundtrip [OF sample_message_ok]
  by (auto simp: sample_message_def Get_def is_body_tag_def tag_defs MsgType_def value_or_def)

subsection \<open>Corruption\<close>

text \<open>The value of the last field depends only on what follows the last checksum tag.\<close>

lemma parse_step:
  assumes "parse_fields raw = Some fs" and "raw \<noteq> []"
  obtains t fs' where "dropWhile (\<lambda>c. c \<noteq> CHR ''='') raw \<noteq> []"
    "fs = (t, takeWhile (\<lambda>c. c \<noteq> kSoh) (tl (dropWhile (\<lambda>c. c \<noteq> CHR ''='') raw))) # fs'"
    "parse_fields (tl (dropWhile (\<lambda>c. c \<noteq> kSoh) (tl (dropWhile (\<lambda>c. c \<noteq> CHR ''='') raw)))) = Some fs'"
  using assms by (subst (asm) parse_fields.simps) (auto simp: Let_def split: if_splits option.splits)

lemma parse_nonempty: "parse_fields raw = Some fs \<Longrightarrow> raw \<noteq> [] \<Longrightarrow> fs \<noteq> []"
  by (erule parse_step) auto

lemma parse_tail:
  assumes "parse_fields (xs @ kSoh # ''10='' @ ts) = Some fs"
  shows "\<exists>gs. parse_fields (''10='' @ ts) = Some gs \<and> gs \<noteq> [] \<and> snd (last fs) = snd (last gs)"
  using assms
proof (induction "length xs" arbitrary: xs fs rule: less_induct)
  case less
  let ?raw = "xs @ kSoh # ''10='' @ ts" and ?eq = "\<lambda>c. c \<noteq> CHR ''=''" and ?ns = "\<lambda>c. c \<noteq> kSoh"
  from less.prems obtain t fs' where P: "fs = (t, takeWhile ?ns (tl (dropWhile ?eq ?raw))) # fs'"
    "parse_fields (tl (dropWhile ?ns (tl (dropWhile ?eq ?raw)))) = Some fs'"
    by (rule parse_step) (auto intro: that)
  show ?case
  proof (cases "CHR ''='' \<in> set xs")
    case True
    then obtain a b where xs: "xs = a @ CHR ''='' # b" "CHR ''='' \<notin> set a" by (metis split_list_first)
    have rest: "tl (dropWhile ?eq ?raw) = b @ kSoh # ''10='' @ ts"
      unfolding xs(1) by (simp, subst dropWhile_append2) (use xs(2) in auto)
    show ?thesis
    proof (cases "kSoh \<in> set b")
      case True
      then obtain v ys where b: "b = v @ kSoh # ys" "kSoh \<notin> set v" by (metis split_list_first)
      have "tl (dropWhile ?ns (b @ kSoh # ''10='' @ ts)) = ys @ kSoh # ''10='' @ ts"
        unfolding b(1) by (simp, subst dropWhile_append2) (use b(2) in auto)
      with P(2) rest have p: "parse_fields (ys @ kSoh # ''10='' @ ts) = Some fs'" by simp
      have "length ys < length xs" by (simp add: xs b)
      from less.hyps [OF this p] parse_nonempty [OF p] P(1) show ?thesis by simp
    next
      case False
      then have "tl (dropWhile ?ns (b @ kSoh # ''10='' @ ts)) = ''10='' @ ts"
        by (subst dropWhile_append2) auto
      with P(2) rest have p: "parse_fields (''10='' @ ts) = Some fs'" by simp
      with parse_nonempty [OF p] P(1) show ?thesis by simp
    qed
  next
    case False
    then have "dropWhile ?eq ?raw = CHR ''='' # ts"
      by (subst dropWhile_append2) (auto simp: kSoh_def)
    with P have Q: "fs = (t, takeWhile ?ns ts) # fs'" "parse_fields (tl (dropWhile ?ns ts)) = Some fs'" by simp_all
    have "dropWhile ?ns ts \<noteq> []"
    proof -
      from less.prems show ?thesis
        by (subst (asm) parse_fields.simps) (use \<open>dropWhile ?eq ?raw = _\<close> in \<open>auto simp: Let_def split: if_splits\<close>)
    qed
    moreover have "from_chars_i32 ''10'' = Some 10"
      using from_chars_signed_int_to_string [of "[]" "- 2147483648" 10 2147483647] by (simp add: tag_texts from_chars_i32_def)
    ultimately have "parse_fields (''10='' @ ts) = Some ((10, takeWhile ?ns ts) # fs')"
      using Q(2) by (subst parse_fields.simps) (simp add: Let_def)
    with Q show ?thesis by (cases fs') auto
  qed
qed

lemma ParseStrict_checksum:
  assumes "ParseStrict raw = Inr m"
  obtains p v where "rfind_text (kSoh # ''10='') raw = Some p"
    and "parse_fields raw = Some (fm_fields m)" and "v = snd (last (fm_fields m))"
    and "from_chars_i32 v = Some (int (ComputeCheckSum (take (p + 1) raw)))"
  using assms
  by (auto simp: ParseStrict_def Parse_def Let_def split: sum.splits option.splits if_splits)

lemma checksum_value:
  assumes "parse_fields raw = Some fs" and "rfind_text (kSoh # ''10='') raw = Some p"
  shows "\<exists>gs. parse_fields (drop (p + 1) raw) = Some gs \<and> snd (last fs) = snd (last gs)"
proof -
  have p: "p < length raw" "starts_with (kSoh # ''10='') (drop p raw)"
    using rfind_SomeD [OF _ assms(2)] by auto
  then obtain ts where "drop p raw = kSoh # ''10='' @ ts"
    unfolding starts_with_iff by (metis append_Cons append_Nil append_take_drop_id)
  then have "raw = take p raw @ kSoh # ''10='' @ ts" "drop (p + 1) raw = ''10='' @ ts"
    by (metis append_take_drop_id) (metis \<open>drop p raw = _\<close> add.commute drop_drop drop_Suc plus_1_eq_Suc list.sel(3) drop_0)
  with parse_tail [of "take p raw" ts fs] assms(1) show ?thesis by auto
qed

text \<open>
  C33: ParseStrict detects corruption. If it accepts a buffer, then it rejects every buffer that
  differs from it in exactly one byte before the separator that ends the last field in front of the
  CheckSum field (index p, where the last occurrence of a separator followed by 10= starts), whatever
  byte it is and whatever it is changed to: a value byte, a digit of a tag, an equals sign or one of the
  earlier field separators. The separator at p itself is covered by the sum as well, but changing it
  moves the place where the CheckSum field is looked for, and is not part of this claim.
\<close>

theorem strict_parse_detects_corruption:
  assumes ok: "ParseStrict raw = Inr m" and pos: "rfind_text (kSoh # ''10='') raw = Some p"
    and i: "i < p" and c: "c \<noteq> raw ! i"
  shows "\<exists>e. ParseStrict (raw[i := c]) = Inl e"
proof (rule ccontr)
  assume "\<nexists>e. ParseStrict (raw[i := c]) = Inl e"
  then obtain m' where ok': "ParseStrict (raw[i := c]) = Inr m'" by (cases "ParseStrict (raw[i := c])") auto
  have pos': "rfind_text (kSoh # ''10='') (raw[i := c]) = Some p" by (rule rfind_update [OF _ pos i]) simp
  from ok pos obtain v where V: "parse_fields raw = Some (fm_fields m)" "v = snd (last (fm_fields m))"
    "from_chars_i32 v = Some (int (ComputeCheckSum (take (p + 1) raw)))"
    by (auto elim: ParseStrict_checksum)
  from ok' pos' obtain v' where V': "parse_fields (raw[i := c]) = Some (fm_fields m')" "v' = snd (last (fm_fields m'))"
    "from_chars_i32 v' = Some (int (ComputeCheckSum (take (p + 1) (raw[i := c]))))"
    by (auto elim: ParseStrict_checksum)
  have "drop (p + 1) (raw[i := c]) = drop (p + 1) raw" using i by (simp add: drop_update_cancel)
  with checksum_value [OF V(1) pos] checksum_value [OF V'(1) pos'] have "v = v'" by (auto simp: V(2) V'(2))
  with V(3) V'(3) have "ComputeCheckSum ((take (p + 1) raw)[i := c]) = ComputeCheckSum (take (p + 1) raw)"
    by (simp add: take_update_swap)
  moreover have "i < length (take (p + 1) raw)" using rfind_SomeD [OF _ pos] i by auto
  moreover have "c \<noteq> take (p + 1) raw ! i" using c i by simp
  ultimately show False using checksum_update by blast
qed

theorem strict_parse_detects_corruption_witness:
  "case ParseStrict ((Serialize sample_message)[10 := CHR ''X'']) of Inl _ \<Rightarrow> True | Inr _ \<Rightarrow> False"
proof -
  have ok: "\<exists>m. ParseStrict (Serialize sample_message) = Inr m" using Serialize_parsed [OF sample_message_ok] by blast
  have p: "rfind_text (kSoh # ''10='') (Serialize sample_message) =
      Some (length (message_prefix sample_message @ message_body sample_message) - 1)"
    by (rule Serialize_positions(3) [OF sample_message_ok])
  have len: "9 < length (message_body sample_message)"
    by (simp add: message_body_def FindField_def sample_message_def tag_defs value_or_def is_body_tag_def field_text_def)
  have "Serialize sample_message ! 10 = CHR ''9''"
    by (simp add: Serialize_def message_prefix_def FindField_def sample_message_def tag_defs value_or_def Let_def
        numeral_eq_Suc)
  moreover have "12 \<le> length (message_prefix sample_message)"
    by (simp add: message_prefix_def FindField_def sample_message_def tag_defs value_or_def)
  then have i: "10 < length (message_prefix sample_message @ message_body sample_message) - 1" using len by simp
  ultimately show ?thesis
    using ok strict_parse_detects_corruption [OF _ p i, of _ "CHR ''X''"] by fastforce
qed

end
