(* ===== verification/Fix_Session.thy ===== *)
theory Fix_Session
  imports Fix_Message
begin

section \<open>FIX sessions (src/src/core/fix/fix_session.h, fix_session.cc)\<close>

text \<open>
  Class \<open>FixSession\<close>: the logon state machine with its two sequence counters. Every outbound
  message reads the clock for its SendingTime, which is the UTC time of \<open>gmtime\<close> (the proleptic
  Gregorian calendar) formatted to milliseconds.
\<close>

subsection \<open>SendingTimeStr\<close>

record utc_tm =
  tm_year :: int
  tm_mon :: int
  tm_mday :: int
  tm_hour :: int
  tm_min :: int
  tm_sec :: int

definition gmtime :: "int \<Rightarrow> utc_tm" where
  \<comment> \<open>year and month as printed by the code: with 1900 and 1 added\<close>
  "gmtime secs =
     (let z = secs div 86400 + 719468; sod = secs mod 86400;
          era = z div 146097; doe = z mod 146097;
          yoe = (doe - doe div 1460 + doe div 36524 - doe div 146096) div 365;
          doy = doe - (365 * yoe + yoe div 4 - yoe div 100);
          mp = (5 * doy + 2) div 153;
          m = (if mp < 10 then mp + 3 else mp - 9)
      in \<lparr>tm_year = yoe + era * 400 + (if m \<le> 2 then 1 else 0), tm_mon = m,
          tm_mday = doy - (153 * mp + 2) div 5 + 1,
          tm_hour = sod div 3600, tm_min = sod mod 3600 div 60, tm_sec = sod mod 60\<rparr>)"

definition int_padded :: "nat \<Rightarrow> int \<Rightarrow> string" where
  "int_padded w i = (if i < 0 then CHR ''-'' # zero_padded (w - 1) (nat (- i)) else zero_padded w (nat i))"

definition SendingTimeStr :: "timestamp \<Rightarrow> string" where
  "SendingTimeStr now =
     (let tm = gmtime (now sdiv 1000000000); ms = (now sdiv 1000000) smod 1000
      in int_padded 4 (tm_year tm) @ int_padded 2 (tm_mon tm) @ int_padded 2 (tm_mday tm) @ ''-'' @
         int_padded 2 (tm_hour tm) @ '':'' @ int_padded 2 (tm_min tm) @ '':'' @ int_padded 2 (tm_sec tm) @
         ''.'' @ int_padded 3 ms)"

subsection \<open>The session\<close>

record fix_session =
  fs_begin_string :: string
  fs_sender :: string
  fs_target :: string
  fs_inbound_seq :: u64
  fs_outbound_seq :: u64
  fs_logged_on :: bool

definition FixSession :: "string \<Rightarrow> string \<Rightarrow> string \<Rightarrow> fix_session" where
  "FixSession sender target begin_string =
     \<lparr>fs_begin_string = begin_string, fs_sender = sender, fs_target = target, fs_inbound_seq = 0,
      fs_outbound_seq = 0, fs_logged_on = False\<rparr>"

definition StampOutbound ::
  "fix_message \<Rightarrow> fix_session \<Rightarrow> clock \<Rightarrow> fix_message \<times> fix_session \<times> clock" where
  "StampOutbound msg s clk =
     (let seq = fs_outbound_seq s + 1; s' = s\<lparr>fs_outbound_seq := seq\<rparr>
      in case Now clk of (now, clk') \<Rightarrow>
           (Set tag_SendingTime (SendingTimeStr now)
             (SetInt tag_MsgSeqNum (sint seq)
               (Set tag_TargetCompId (fs_target s)
                 (Set tag_SenderCompId (fs_sender s)
                   (Set tag_BeginString (fs_begin_string s) msg)))),
            s', clk'))"

definition BuildLogon ::
  "int \<Rightarrow> fix_session \<Rightarrow> clock \<Rightarrow> fix_message \<times> fix_session \<times> clock" where
  "BuildLogon heartbeat_interval_sec s clk =
     StampOutbound
       (SetInt tag_HeartBtInt heartbeat_interval_sec
         (SetInt tag_EncryptMethod 0 (Set tag_MsgType msg_Logon FixMessage))) s clk"

definition BuildHeartbeat ::
  "string \<Rightarrow> fix_session \<Rightarrow> clock \<Rightarrow> fix_message \<times> fix_session \<times> clock" where
  "BuildHeartbeat test_req_id s clk =
     (let m = Set tag_MsgType msg_Heartbeat FixMessage
      in StampOutbound (if test_req_id \<noteq> [] then Set tag_TestReqID test_req_id m else m) s clk)"

definition BuildLogout ::
  "string \<Rightarrow> fix_session \<Rightarrow> clock \<Rightarrow> fix_message \<times> fix_session \<times> clock" where
  "BuildLogout txt s clk =
     (let m = Set tag_MsgType msg_Logout FixMessage
      in StampOutbound (if txt \<noteq> [] then Set tag_Text txt m else m) s clk)"

definition respond ::
  "fix_message \<times> fix_session \<times> clock \<Rightarrow> fix_message option result \<times> fix_session \<times> clock" where
  "respond r = (case r of (m, s, clk) \<Rightarrow> (Inr (Some m), s, clk))"

definition OnMessage ::
  "fix_message \<Rightarrow> fix_session \<Rightarrow> clock \<Rightarrow> fix_message option result \<times> fix_session \<times> clock" where
  "OnMessage msg s clk =
     (let mtype = MsgType msg; incoming_seq = (word_of_int (GetInt msg tag_MsgSeqNum) :: u64)
      in if \<not> fs_logged_on s
         then if mtype \<noteq> msg_Logon then (Inl kFixSessionError, s, clk)
              else respond (BuildLogon 30
                     (s\<lparr>fs_inbound_seq := (if incoming_seq > 0 then incoming_seq else 1), fs_logged_on := True\<rparr>) clk)
         else if incoming_seq \<noteq> fs_inbound_seq s + 1 then (Inl kFixSessionError, s, clk)
         else let s1 = s\<lparr>fs_inbound_seq := incoming_seq\<rparr>
              in if mtype = msg_Heartbeat then (Inr None, s1, clk)
                 else if mtype = msg_TestRequest
                 then respond (BuildHeartbeat (value_or (Get msg tag_TestReqID) '''') s1 clk)
                 else if mtype = msg_Logout
                 then respond (BuildLogout ''ack'' (s1\<lparr>fs_logged_on := False\<rparr>) clk)
                 else (Inr None, s1, clk))"

end
