(* ===== verification/Fix_Gateway.thy ===== *)
theory Fix_Gateway
  imports Fix_Session Order_Manager
begin

section \<open>The FIX gateway (src/src/core/fix/fix_gateway.h, fix_gateway.cc)\<close>

text \<open>
  Class \<open>FixGateway\<close> and its translations. The two function-local atomic counters are process
  state, here the record \<open>fix_ids\<close>; the order manager the gateway refers to is passed along. The
  clock is the one of the order manager's state.
\<close>

record fix_ids =
  next_synthetic_order_id :: order_id
  next_exec_id :: u64

definition initial_fix_ids :: fix_ids where
  "initial_fix_ids = \<lparr>next_synthetic_order_id = - 1, next_exec_id = 1\<rparr>"

definition NextSyntheticOrderId :: "fix_ids \<Rightarrow> order_id \<times> fix_ids" where
  "NextSyntheticOrderId ids =
     (next_synthetic_order_id ids, ids\<lparr>next_synthetic_order_id := next_synthetic_order_id ids - 1\<rparr>)"

definition NextExecId :: "fix_ids \<Rightarrow> u64 \<times> fix_ids" where
  "NextExecId ids = (next_exec_id ids, ids\<lparr>next_exec_id := next_exec_id ids + 1\<rparr>)"

subsection \<open>Translations\<close>

definition ParseFixSide :: "string \<Rightarrow> side result" where
  "ParseFixSide s = (if s = ''1'' then Inr kBuy else if s = ''2'' then Inr kSell else Inl kInvalidSide)"

definition ParseFixOrdType :: "string \<Rightarrow> order_type result" where
  "ParseFixOrdType s =
     (if s = ''1'' then Inr kMarket else if s = ''2'' then Inr kLimit else Inl kInvalidOrderType)"

definition FixSideChar :: "side \<Rightarrow> char" where
  "FixSideChar s = (if s = kBuy then CHR ''1'' else CHR ''2'')"

definition FixOrdTypeChar :: "order_type \<Rightarrow> char" where
  "FixOrdTypeChar t = (if t = kMarket then CHR ''1'' else CHR ''2'')"

fun FixOrdStatusChar :: "order_status \<Rightarrow> char" where
  "FixOrdStatusChar kPendingNew = CHR ''A''"
| "FixOrdStatusChar kAccepted = CHR ''0''"
| "FixOrdStatusChar kPartiallyFilled = CHR ''1''"
| "FixOrdStatusChar kFilled = CHR ''2''"
| "FixOrdStatusChar kPendingCancel = CHR ''6''"
| "FixOrdStatusChar kCancelled = CHR ''4''"
| "FixOrdStatusChar kRejected = CHR ''8''"

subsection \<open>Execution reports\<close>

definition BuildExecutionReport ::
  "order \<Rightarrow> char \<Rightarrow> fix_session \<Rightarrow> fix_ids \<Rightarrow> clock \<Rightarrow> fix_message \<times> fix_session \<times> fix_ids \<times> clock" where
  "BuildExecutionReport ord exec_type s ids clk =
     (case NextExecId ids of (exec_id, ids') \<Rightarrow>
        (let m = Set tag_ExecType [exec_type]
                  (Set tag_OrdStatus [FixOrdStatusChar (o_status ord)]
                  (Set tag_CumQty (int_to_string (o_filled_qty ord))
                  (Set tag_LeavesQty (int_to_string (o_remaining_qty ord))
                  (Set tag_OrderQty (int_to_string (o_order_qty ord))
                  (Set tag_Side [FixSideChar (o_side ord)]
                  (Set tag_Symbol (sym_value (o_symbol ord))
                  (Set tag_ExecID (u64_to_string exec_id)
                  (Set tag_ClOrdID (o_client_order_id ord)
                  (Set tag_OrderID (u64_to_string (o_internal_id ord))
                  (Set tag_MsgType msg_ExecutionReport FixMessage))))))))));
             m' = (if o_type ord = kLimit then Set tag_Price (int_to_string (o_price ord)) m else m)
         in case StampOutbound m' s clk of (m'', s', clk') \<Rightarrow> (m'', s', ids', clk')))"

subsection \<open>Inbound messages\<close>

definition report ::
  "order \<Rightarrow> char \<Rightarrow> fix_session \<Rightarrow> fix_ids \<Rightarrow> 'd order_manager \<Rightarrow>
   fix_message result \<times> fix_session \<times> fix_ids \<times> 'd order_manager" where
  \<comment> \<open>\<open>return BuildExecutionReport(order, session, exec_type)\<close>\<close>
  "report ord exec_type s ids om =
     (case BuildExecutionReport ord exec_type s ids (om_clock om) of
        (m, s', ids', clk') \<Rightarrow> (Inr m, s', ids', om\<lparr>om_clock := clk'\<rparr>))"

definition rejected_order :: "order_id \<Rightarrow> new_order_request \<Rightarrow> order" where
  "rejected_order oid req =
     \<lparr>o_internal_id = oid, o_client_order_id = nr_client_order_id req, o_symbol = nr_symbol req,
      o_side = nr_side req, o_type = nr_type req, o_price = nr_price req, o_order_qty = nr_quantity req,
      o_filled_qty = 0, o_remaining_qty = nr_quantity req, o_status = kRejected, o_created_at = 0,
      o_updated_at = 0\<rparr>"

definition submit_exec_type :: "order \<Rightarrow> char" where
  "submit_exec_type ord =
     (if o_status ord = kFilled \<or> o_status ord = kPartiallyFilled then CHR ''F''
      else if o_status ord = kRejected then CHR ''8'' else CHR ''0'')"

definition HandleNewOrderSingle ::
  "'d sqlite \<Rightarrow> fix_message \<Rightarrow> fix_session \<Rightarrow> fix_ids \<Rightarrow> 'd order_manager \<Rightarrow>
   fix_message result \<times> fix_session \<times> fix_ids \<times> 'd order_manager" where
  "HandleNewOrderSingle sq msg s ids om =
     (if MsgType msg \<noteq> msg_NewOrderSingle then (Inl kFixInvalidMsgType, s, ids, om)
      else
        (let cl_ord_id = value_or (Get msg tag_ClOrdID) '''';
             sym = value_or (Get msg tag_Symbol) '''';
             side_s = value_or (Get msg tag_Side) '''';
             ord_type_s = value_or (Get msg tag_OrdType) '''';
             qty = GetInt msg tag_OrderQty;
             prc = GetInt msg tag_Price
         in case ParseFixSide side_s of
              Inl e \<Rightarrow> (Inl e, s, ids, om)
            | Inr sd \<Rightarrow>
                (case ParseFixOrdType ord_type_s of
                   Inl e \<Rightarrow> (Inl e, s, ids, om)
                 | Inr ty \<Rightarrow>
                     (let req = \<lparr>nr_client_order_id = cl_ord_id, nr_symbol = \<lparr>sym_value = sym\<rparr>,
                                 nr_side = sd, nr_type = ty, nr_price = prc, nr_quantity = qty\<rparr>
                      in case SubmitOrder sq req om of
                           (Inl e, om') \<Rightarrow>
                             (case NextSyntheticOrderId ids of (oid, ids') \<Rightarrow>
                                report (rejected_order oid req) CHR ''8'' s ids' om')
                         | (Inr ord, om') \<Rightarrow> report ord (submit_exec_type ord) s ids om'))))"

definition HandleOrderCancelRequest ::
  "'d sqlite \<Rightarrow> fix_message \<Rightarrow> fix_session \<Rightarrow> fix_ids \<Rightarrow> 'd order_manager \<Rightarrow>
   fix_message result \<times> fix_session \<times> fix_ids \<times> 'd order_manager" where
  "HandleOrderCancelRequest sq msg s ids om =
     (if MsgType msg \<noteq> msg_OrderCancelRequest then (Inl kFixInvalidMsgType, s, ids, om)
      else
        (let order_id_s = value_or (Get msg tag_OrderID) '''';
             oid = (if order_id_s = [] then 0 else value_or (from_chars_u64 order_id_s) 0)
         in case OrderManager_CancelOrder sq \<lparr>cr_order_id = oid\<rparr> om of
              (Inl e, om') \<Rightarrow> (Inl e, s, ids, om')
            | (Inr ord, om') \<Rightarrow> report ord CHR ''4'' s ids om'))"

end
