(* ===== verification/Fix_Properties.thy ===== *)
theory Fix_Properties
  imports Fix_Codec Fix_Gateway Order_Properties
begin

section \<open>Properties of FIX sessions and of the gateway\<close>

subsection \<open>Reading fields back\<close>

lemma map_of_set_field: "map_of (set_field t v fs) t' = (if t' = t then Some v else map_of fs t')"
  by (induction t v fs rule: set_field.induct) auto

lemma Get_Set [simp]: "Get (Set t v m) t' = (if t' = t then Some v else Get m t')"
  by (simp add: Get_def Set_def map_of_set_field)

lemma Get_FixMessage [simp]: "Get FixMessage t = None"
  by (simp add: Get_def FixMessage_def)

lemma from_chars_i64_int_to_string [simp]: "in_i64 i \<Longrightarrow> from_chars_i64 (int_to_string i) = Some i"
  using from_chars_signed_int_to_string [of "[]" i64_min i i64_max] by (simp add: from_chars_i64_def in_i64_def)

lemma in_i64_sint [simp]: "in_i64 (sint (w :: u64))"
  using sint_greater_eq [of w] sint_less [of w] by (simp add: in_i64_def i64_min_def i64_max_def)

lemma GetInt_number: "Get m t = Some (int_to_string i) \<Longrightarrow> in_i64 i \<Longrightarrow> GetInt m t = i"
  by (simp add: GetInt_def value_or_def)

lemma StampOutbound_header:
  assumes "StampOutbound m s clk = (m', s', clk')"
  shows "GetInt m' tag_MsgSeqNum = sint (fs_outbound_seq s + 1)"
    and "Get m' tag_BeginString = Some (fs_begin_string s)" "Get m' tag_SenderCompId = Some (fs_sender s)"
      "Get m' tag_TargetCompId = Some (fs_target s)"
    and "s' = s\<lparr>fs_outbound_seq := fs_outbound_seq s + 1\<rparr>"
    and "t \<notin> {tag_BeginString, tag_SenderCompId, tag_TargetCompId, tag_MsgSeqNum, tag_SendingTime} \<Longrightarrow> Get m' t = Get m t"
proof -
  have m': "m' = Set tag_SendingTime (SendingTimeStr (shd clk)) (SetInt tag_MsgSeqNum (sint (fs_outbound_seq s + 1))
      (Set tag_TargetCompId (fs_target s) (Set tag_SenderCompId (fs_sender s) (Set tag_BeginString (fs_begin_string s) m))))"
    and s': "s' = s\<lparr>fs_outbound_seq := fs_outbound_seq s + 1\<rparr>"
    using assms by (auto simp: StampOutbound_def Let_def Now_def)
  show "GetInt m' tag_MsgSeqNum = sint (fs_outbound_seq s + 1)"
    by (rule GetInt_number) (simp_all add: m' SetInt_def tag_defs)
  show "Get m' tag_BeginString = Some (fs_begin_string s)" "Get m' tag_SenderCompId = Some (fs_sender s)"
      "Get m' tag_TargetCompId = Some (fs_target s)"
    by (simp_all add: m' SetInt_def tag_defs)
  show "s' = s\<lparr>fs_outbound_seq := fs_outbound_seq s + 1\<rparr>" by (rule s')
  show "t \<notin> {tag_BeginString, tag_SenderCompId, tag_TargetCompId, tag_MsgSeqNum, tag_SendingTime} \<Longrightarrow> Get m' t = Get m t"
    by (simp add: m' SetInt_def)
qed

subsection \<open>Sessions\<close>

text \<open>A run of inbound messages: the result of each, and the final session.\<close>

fun session_run ::
  "fix_message list \<Rightarrow> fix_session \<Rightarrow> clock \<Rightarrow> fix_message option result list \<times> fix_session \<times> clock" where
  "session_run [] s clk = ([], s, clk)"
| "session_run (m # ms) s clk =
     (case OnMessage m s clk of (r, s1, clk1) \<Rightarrow>
      case session_run ms s1 clk1 of (rs, s', clk') \<Rightarrow> (r # rs, s', clk'))"

fun replies :: "fix_message option result list \<Rightarrow> fix_message list" where
  "replies [] = []"
| "replies (Inr (Some m) # rs) = m # replies rs"
| "replies (_ # rs) = replies rs"

definition seq_of :: "fix_message \<Rightarrow> u64" where
  "seq_of m = word_of_int (GetInt m tag_MsgSeqNum)"

text \<open>\<open>r\<close> is the next outbound message of session \<open>s\<close>, with its header, and \<open>s'\<close> counts it.\<close>

definition stamped :: "fix_session \<Rightarrow> fix_message \<Rightarrow> fix_session \<Rightarrow> bool" where
  "stamped s r s' \<longleftrightarrow> GetInt r tag_MsgSeqNum = sint (fs_outbound_seq s + 1)
     \<and> Get r tag_BeginString = Some (fs_begin_string s) \<and> Get r tag_SenderCompId = Some (fs_sender s)
     \<and> Get r tag_TargetCompId = Some (fs_target s) \<and> fs_outbound_seq s' = fs_outbound_seq s + 1
     \<and> fs_begin_string s' = fs_begin_string s \<and> fs_sender s' = fs_sender s \<and> fs_target s' = fs_target s"

lemma StampOutbound_stamped:
  assumes st: "StampOutbound m s0 clk = (r, s', clk')" and "fs_outbound_seq s0 = fs_outbound_seq s"
    "fs_begin_string s0 = fs_begin_string s" "fs_sender s0 = fs_sender s" "fs_target s0 = fs_target s"
  shows "stamped s r s'"
  using StampOutbound_header(1-5) [OF st] assms(2-5) by (simp add: stamped_def)

text \<open>The branches of OnMessage.\<close>

lemma OnMessage_cases:
  assumes "OnMessage m s clk = (res, s', clk')"
  obtains (error) e where "res = Inl e" "s' = s" "clk' = clk"
  | (logon) r where "\<not> fs_logged_on s" "MsgType m = msg_Logon" "res = Inr (Some r)" "fs_logged_on s'"
      "fs_inbound_seq s' = (if 0 < seq_of m then seq_of m else 1)"
      "stamped s r s'"
  | (quiet) "fs_logged_on s" "seq_of m = fs_inbound_seq s + 1" "res = Inr None" "clk' = clk"
      "s' = s\<lparr>fs_inbound_seq := seq_of m\<rparr>" "MsgType m \<noteq> msg_Logout"
  | (reply) r where "fs_logged_on s" "seq_of m = fs_inbound_seq s + 1" "res = Inr (Some r)"
      "fs_inbound_seq s' = seq_of m"
      "fs_logged_on s' \<longleftrightarrow> MsgType m \<noteq> msg_Logout"
      "stamped s r s'"
proof -
  have differ: "msg_Heartbeat \<noteq> msg_Logout" "msg_TestRequest \<noteq> msg_Logout" by (simp_all add: msg_defs)
  consider "res = Inl kFixSessionError" "s' = s" "clk' = clk"
    | "\<not> fs_logged_on s" "MsgType m = msg_Logon" "(res, s', clk') = respond (BuildLogon 30
         (s\<lparr>fs_inbound_seq := (if 0 < seq_of m then seq_of m else 1), fs_logged_on := True\<rparr>) clk)"
    | "fs_logged_on s" "seq_of m = fs_inbound_seq s + 1" "res = Inr None" "clk' = clk" "s' = s\<lparr>fs_inbound_seq := seq_of m\<rparr>"
        "MsgType m \<noteq> msg_Logout"
    | "fs_logged_on s" "seq_of m = fs_inbound_seq s + 1" "MsgType m = msg_TestRequest"
        "(res, s', clk') = respond (BuildHeartbeat (value_or (Get m tag_TestReqID) '''') (s\<lparr>fs_inbound_seq := seq_of m\<rparr>) clk)"
    | "fs_logged_on s" "seq_of m = fs_inbound_seq s + 1" "MsgType m = msg_Logout"
        "(res, s', clk') = respond (BuildLogout ''ack'' (s\<lparr>fs_inbound_seq := seq_of m, fs_logged_on := False\<rparr>) clk)"
    using assms differ by (auto simp: OnMessage_def Let_def seq_of_def split: if_splits)
  then show thesis
  proof cases
    case 1 then show thesis by (rule error)
  next
    case 2
    then obtain r m0 where st: "StampOutbound m0
        (s\<lparr>fs_inbound_seq := (if 0 < seq_of m then seq_of m else 1), fs_logged_on := True\<rparr>) clk = (r, s', clk')"
      "res = Inr (Some r)" by (auto simp: respond_def BuildLogon_def split: prod.splits)
    from StampOutbound_header(5) [OF st(1)] StampOutbound_stamped [OF st(1), of s] 2 st(2) show thesis
      by (intro logon [of r]) simp_all
  next
    case 3 then show thesis by (rule quiet)
  next
    case 4
    then obtain r m0 where st: "StampOutbound m0 (s\<lparr>fs_inbound_seq := seq_of m\<rparr>) clk = (r, s', clk')"
      "res = Inr (Some r)" by (auto simp: respond_def BuildHeartbeat_def Let_def split: prod.splits)
    from StampOutbound_header(5) [OF st(1)] StampOutbound_stamped [OF st(1), of s] 4 st(2) differ show thesis
      by (intro reply [of r]) simp_all
  next
    case 5
    then obtain r m0 where st: "StampOutbound m0 (s\<lparr>fs_inbound_seq := seq_of m, fs_logged_on := False\<rparr>) clk = (r, s', clk')"
      "res = Inr (Some r)" by (auto simp: respond_def BuildLogout_def Let_def split: prod.splits)
    from StampOutbound_header(5) [OF st(1)] StampOutbound_stamped [OF st(1), of s] 5 st(2) show thesis
      by (intro reply [of r]) simp_all
  qed
qed

lemma session_run_replies:
  "session_run ms s clk = (rs, s', clk') \<Longrightarrow>
     map (\<lambda>r. GetInt r tag_MsgSeqNum) (replies rs) =
       map (\<lambda>i. sint (fs_outbound_seq s + 1 + of_nat i)) [0..<length (replies rs)]
     \<and> fs_outbound_seq s' = fs_outbound_seq s + of_nat (length (replies rs))
     \<and> list_all (\<lambda>r. Get r tag_BeginString = Some (fs_begin_string s) \<and> Get r tag_SenderCompId = Some (fs_sender s)
                    \<and> Get r tag_TargetCompId = Some (fs_target s)) (replies rs)"
proof (induction ms s clk arbitrary: rs rule: session_run.induct)
  case (2 m ms s clk)
  obtain r s1 clk1 rs1 where o: "OnMessage m s clk = (r, s1, clk1)" and run: "session_run ms s1 clk1 = (rs1, s', clk')"
    and rs: "rs = r # rs1"
    using "2.prems" by (auto split: prod.splits)
  note IH = "2.IH" [OF o [symmetric] refl run]
  have numbered: "map (\<lambda>i. sint (n + of_nat i)) [0..<Suc k] = sint n # map (\<lambda>i. sint (n + 1 + of_nat i)) [0..<k]" for n :: u64 and k
    by (simp add: upt_conv_Cons map_Suc_upt [symmetric] algebra_simps del: upt_Suc)
  have stamp: ?case if st: "stamped s r0 s1" and r: "r = Inr (Some r0)" for r0
  proof -
    have "map (\<lambda>r. GetInt r tag_MsgSeqNum) (replies rs) =
        map (\<lambda>i. sint (fs_outbound_seq s + 1 + of_nat i)) [0..<Suc (length (replies rs1))]"
      unfolding numbered using IH st r by (simp add: rs stamped_def)
    then show ?thesis using IH st r by (simp add: rs stamped_def del: upt_Suc)
  qed
  from o show ?case
    by (cases rule: OnMessage_cases) (use IH stamp rs in auto)
qed simp

text \<open>
  C34: A session numbers what it sends. Whatever a new session receives, its replies carry the
  sequence numbers 1, 2, 3, ... in the order they are sent, without gap or repetition across
  logons and logouts, its outbound counter is the number of replies, and every reply is stamped
  with the session's begin string, sender and target.
\<close>

theorem session_replies_numbered:
  assumes run: "session_run ms (FixSession sender target bs) clk = (rs, s', clk')" and "length (replies rs) < 2 ^ 63"
  shows "map (\<lambda>r. GetInt r tag_MsgSeqNum) (replies rs) = map int [1..<Suc (length (replies rs))]
    \<and> fs_outbound_seq s' = of_nat (length (replies rs))
    \<and> list_all (\<lambda>r. Get r tag_BeginString = Some bs \<and> Get r tag_SenderCompId = Some sender
                   \<and> Get r tag_TargetCompId = Some target) (replies rs)"
proof -
  have "sint (1 + of_nat i :: u64) = int (Suc i)" if "i < length (replies rs)" for i
  proof -
    have "int (Suc i) < 2 ^ 63" using that assms(2) by simp
    then have "sint (word_of_nat (Suc i) :: u64) = int (Suc i)"
      unfolding signed_of_nat by (simp add: signed_take_bit_int_eq_self del: of_nat_Suc)
    then show ?thesis by simp
  qed
  then have "map (\<lambda>i. sint (1 + of_nat i :: u64)) [0..<length (replies rs)] = map int [1..<Suc (length (replies rs))]"
    by (intro nth_equalityI) (simp_all del: upt_Suc)
  with session_run_replies [OF run] show ?thesis by (simp add: FixSession_def)
qed

definition inbound :: "string \<Rightarrow> int \<Rightarrow> fix_message" where
  "inbound ty seq = \<lparr>fm_fields = [(35, ty), (34, int_to_string seq), (112, ''T'')]\<rparr>"

lemma inbound_simps [simp]:
  "MsgType (inbound ty seq) = ty" "in_i64 seq \<Longrightarrow> GetInt (inbound ty seq) tag_MsgSeqNum = seq"
  "in_i64 seq \<Longrightarrow> seq_of (inbound ty seq) = word_of_int seq"
  by (simp_all add: inbound_def MsgType_def Get_def value_or_def tag_defs GetInt_def seq_of_def)

theorem session_replies_numbered_witness:
  "case session_run [inbound msg_Logon 1, inbound msg_TestRequest 2] (FixSession ''OEMS'' ''CLIENT'' ''FIX.4.4'') sample_clock of
     (rs, s', _) \<Rightarrow> map (\<lambda>r. GetInt r tag_MsgSeqNum) (replies rs) = [1, 2] \<and> fs_outbound_seq s' = 2"
proof -
  obtain rs s' clk' where run: "session_run [inbound msg_Logon 1, inbound msg_TestRequest 2]
      (FixSession ''OEMS'' ''CLIENT'' ''FIX.4.4'') sample_clock = (rs, s', clk')" by (metis prod_cases3)
  then have "length (replies rs) = 2"
    by (simp add: OnMessage_def FixSession_def BuildLogon_def StampOutbound_def BuildHeartbeat_def respond_def Now_def
        Let_def msg_defs in_i64_def i64_min_def i64_max_def split: prod.splits) auto
  with session_replies_numbered [OF run] show ?thesis unfolding run by (simp add: upt_rec)
qed

subsection \<open>Inbound sequence numbers\<close>

fun accepted :: "fix_message list \<Rightarrow> fix_message option result list \<Rightarrow> fix_message list" where
  "accepted (m # ms) (Inr _ # rs) = m # accepted ms rs"
| "accepted (m # ms) (Inl _ # rs) = accepted ms rs"
| "accepted _ _ = []"

definition follows :: "fix_message \<Rightarrow> fix_message \<Rightarrow> bool" where
  "follows m m' \<longleftrightarrow> (if MsgType m = msg_Logout then MsgType m' = msg_Logon else seq_of m' = seq_of m + 1)"

lemma accepted_follow:
  "session_run ms s clk = (rs, s', clk') \<Longrightarrow> list_all (\<lambda>m. 0 < seq_of m) ms \<Longrightarrow>
   if fs_logged_on s then fs_inbound_seq s = seq_of prev \<and> MsgType prev \<noteq> msg_Logout else MsgType prev = msg_Logout \<Longrightarrow>
   successively follows (prev # accepted ms rs)"
proof (induction ms s clk arbitrary: rs prev rule: session_run.induct)
  case (2 m ms s clk)
  obtain r s1 clk1 rs1 where o: "OnMessage m s clk = (r, s1, clk1)" and run: "session_run ms s1 clk1 = (rs1, s', clk')"
    and rs: "rs = r # rs1"
    using "2.prems" by (auto split: prod.splits)
  note IH = "2.IH" [OF o [symmetric] refl run]
  have ms: "list_all (\<lambda>m. 0 < seq_of m) ms" "0 < seq_of m" using "2.prems"(2) by simp_all
  from o show ?case
  proof (cases rule: OnMessage_cases)
    case (error e)
    with IH [OF ms(1), of prev] "2.prems"(3) rs show ?thesis by simp
  next
    case (logon r0)
    moreover have "msg_Logon \<noteq> msg_Logout" by (simp add: msg_defs)
    ultimately show ?thesis using IH [OF ms(1), of m] ms(2) "2.prems"(3) rs by (simp add: follows_def)
  next
    case quiet
    with IH [OF ms(1), of m] "2.prems"(3) rs show ?thesis by (simp add: follows_def)
  next
    case (reply r0)
    with IH [OF ms(1), of m] "2.prems"(3) rs show ?thesis by (simp add: follows_def split: if_splits)
  qed
qed simp

lemma accepted_starts_with_logon:
  "session_run ms s clk = (rs, s', clk') \<Longrightarrow> \<not> fs_logged_on s \<Longrightarrow> accepted ms rs \<noteq> [] \<Longrightarrow>
   MsgType (hd (accepted ms rs)) = msg_Logon"
proof (induction ms s clk arbitrary: rs rule: session_run.induct)
  case (2 m ms s clk)
  obtain r s1 clk1 rs1 where o: "OnMessage m s clk = (r, s1, clk1)" and run: "session_run ms s1 clk1 = (rs1, s', clk')"
    and rs: "rs = r # rs1"
    using "2.prems" by (auto split: prod.splits)
  from o show ?case
    by (cases rule: OnMessage_cases) (use "2.IH" [OF o [symmetric] refl run] "2.prems" rs in auto)
qed simp

text \<open>
  C35: A session accepts no message out of sequence. Whatever a new session receives, with sequence
  numbers that are not zero, the messages it accepts start with a Logon. After an accepted Logout the
  next accepted message is a Logon, with any number; after any other accepted message it is one that
  carries the next number. So within a logon no accepted number is repeated or skipped, and nothing is
  accepted between a Logout and the next Logon.
\<close>

theorem session_accepts_in_sequence:
  assumes "session_run ms (FixSession sender target bs) clk = (rs, s', clk')"
    and "list_all (\<lambda>m. seq_of m \<noteq> 0) ms"
  shows "(accepted ms rs \<noteq> [] \<longrightarrow> MsgType (hd (accepted ms rs)) = msg_Logon)
    \<and> successively (\<lambda>m m'. if MsgType m = msg_Logout then MsgType m' = msg_Logon else seq_of m' = seq_of m + 1) (accepted ms rs)"
proof -
  have off: "\<not> fs_logged_on (FixSession sender target bs)" by (simp add: FixSession_def)
  have pos: "list_all (\<lambda>m. 0 < seq_of m) ms" using assms(2) by (simp add: word_gt_0)
  have "successively follows (inbound msg_Logout 1 # accepted ms rs)"
    by (rule accepted_follow [OF assms(1) pos]) (simp add: off)
  then have "successively follows (accepted ms rs)" by (cases "accepted ms rs") auto
  then show ?thesis using accepted_starts_with_logon [OF assms(1) off] by (simp add: follows_def [abs_def])
qed

theorem session_accepts_in_sequence_witness:
  "\<exists>rs s' clk'. session_run [inbound msg_Logon 5, inbound msg_Heartbeat 7, inbound msg_Heartbeat 6, inbound msg_Logout 7,
         inbound msg_Heartbeat 8, inbound msg_Logon 1]
       (FixSession ''OEMS'' ''CLIENT'' ''FIX.4.4'') sample_clock = (rs, s', clk')
     \<and> successively (\<lambda>m m'. if MsgType m = msg_Logout then MsgType m' = msg_Logon else seq_of m' = seq_of m + 1)
       (accepted [inbound msg_Logon 5, inbound msg_Heartbeat 7, inbound msg_Heartbeat 6, inbound msg_Logout 7,
         inbound msg_Heartbeat 8, inbound msg_Logon 1] rs)
     \<and> accepted [inbound msg_Logon 5, inbound msg_Heartbeat 7, inbound msg_Heartbeat 6, inbound msg_Logout 7,
         inbound msg_Heartbeat 8, inbound msg_Logon 1] rs =
       [inbound msg_Logon 5, inbound msg_Heartbeat 6, inbound msg_Logout 7, inbound msg_Logon 1]"
proof -
  let ?ms = "[inbound msg_Logon 5, inbound msg_Heartbeat 7, inbound msg_Heartbeat 6, inbound msg_Logout 7,
         inbound msg_Heartbeat 8, inbound msg_Logon 1]"
  obtain rs s' clk' where run: "session_run ?ms (FixSession ''OEMS'' ''CLIENT'' ''FIX.4.4'') sample_clock = (rs, s', clk')"
    by (metis prod_cases3)
  then have "accepted ?ms rs = [inbound msg_Logon 5, inbound msg_Heartbeat 6, inbound msg_Logout 7, inbound msg_Logon 1]"
    by (simp add: OnMessage_def FixSession_def BuildLogon_def StampOutbound_def BuildLogout_def respond_def Now_def
        Let_def msg_defs in_i64_def i64_min_def i64_max_def split: prod.splits) auto
  moreover have "list_all (\<lambda>m. seq_of m \<noteq> 0) ?ms" by (simp add: in_i64_def i64_min_def i64_max_def)
  from session_accepts_in_sequence [OF run this] have
    "successively (\<lambda>m m'. if MsgType m = msg_Logout then MsgType m' = msg_Logon else seq_of m' = seq_of m + 1) (accepted ?ms rs)"
    by (rule conjunct2)
  ultimately show ?thesis using run by blast
qed

subsection \<open>Execution reports\<close>

lemma fields_ok_Set:
  "list_all field_ok (fm_fields m) \<Longrightarrow> field_ok (t, v) \<Longrightarrow> list_all field_ok (fm_fields (Set t v m))"
proof -
  have "list_all field_ok fs \<Longrightarrow> field_ok (t, v) \<Longrightarrow> list_all field_ok (set_field t v fs)" for fs
    by (induction t v fs rule: set_field.induct) (auto simp: field_ok_def)
  then show "list_all field_ok (fm_fields m) \<Longrightarrow> field_ok (t, v) \<Longrightarrow> list_all field_ok (fm_fields (Set t v m))"
    by (simp add: Set_def)
qed

lemma soh_free_texts [simp]:
  "kSoh \<notin> set (int_to_string i)" "kSoh \<notin> set (u64_to_string w)" "kSoh \<notin> set (SendingTimeStr t)"
  "kSoh \<notin> set [FixSideChar sd]" "kSoh \<notin> set [FixOrdStatusChar st]" "kSoh \<notin> set msg_ExecutionReport"
proof -
  show 1: "kSoh \<notin> set (int_to_string i)" for i using soh_free_number(1) by (auto simp: int_to_string_def kSoh_def)
  show "kSoh \<notin> set (u64_to_string w)" using soh_free_number(1) by (simp add: u64_to_string_def)
  have "kSoh \<notin> set (int_padded k i)" for k i using soh_free_number(2) by (auto simp: int_padded_def kSoh_def)
  then show "kSoh \<notin> set (SendingTimeStr t)" by (simp add: SendingTimeStr_def Let_def kSoh_def)
  show "kSoh \<notin> set [FixSideChar sd]" by (simp add: FixSideChar_def kSoh_def)
  show "kSoh \<notin> set [FixOrdStatusChar st]" by (cases st) (simp_all add: kSoh_def)
  show "kSoh \<notin> set msg_ExecutionReport" by (simp add: msg_defs kSoh_def)
qed

text \<open>The report before its header is stamped on it.\<close>

lemma BuildExecutionReport_fields:
  assumes "BuildExecutionReport ord et s ids clk = (m, s', ids', clk')"
  shows "Get m tag_MsgType = Some ''8''" "Get m tag_OrderID = Some (u64_to_string (o_internal_id ord))"
    "Get m tag_ClOrdID = Some (o_client_order_id ord)" "Get m tag_Symbol = Some (sym_value (o_symbol ord))"
    "Get m tag_Side = Some [FixSideChar (o_side ord)]" "Get m tag_OrderQty = Some (int_to_string (o_order_qty ord))"
    "Get m tag_LeavesQty = Some (int_to_string (o_remaining_qty ord))"
    "Get m tag_CumQty = Some (int_to_string (o_filled_qty ord))"
    "Get m tag_OrdStatus = Some [FixOrdStatusChar (o_status ord)]" "Get m tag_ExecType = Some [et]"
    "Get m tag_Price = (if o_type ord = kLimit then Some (int_to_string (o_price ord)) else None)"
    "stamped s m s'" "begin_string m = fs_begin_string s"
    "list_all (\<lambda>v. kSoh \<notin> set v) [o_client_order_id ord, sym_value (o_symbol ord), fs_begin_string s, fs_sender s, fs_target s]
       \<Longrightarrow> et \<noteq> kSoh \<Longrightarrow> list_all field_ok (fm_fields m)"
proof -
  let ?m0 = "Set tag_ExecType [et] (Set tag_OrdStatus [FixOrdStatusChar (o_status ord)]
      (Set tag_CumQty (int_to_string (o_filled_qty ord)) (Set tag_LeavesQty (int_to_string (o_remaining_qty ord))
      (Set tag_OrderQty (int_to_string (o_order_qty ord)) (Set tag_Side [FixSideChar (o_side ord)]
      (Set tag_Symbol (sym_value (o_symbol ord)) (Set tag_ExecID (u64_to_string (next_exec_id ids))
      (Set tag_ClOrdID (o_client_order_id ord) (Set tag_OrderID (u64_to_string (o_internal_id ord))
      (Set tag_MsgType msg_ExecutionReport FixMessage))))))))))"
  define m1 where "m1 = (if o_type ord = kLimit then Set tag_Price (int_to_string (o_price ord)) ?m0 else ?m0)"
  have st: "StampOutbound m1 s clk = (m, s', clk')"
    using assms by (auto simp: BuildExecutionReport_def NextExecId_def Let_def m1_def split: prod.splits)
  note H = StampOutbound_header [OF st]
  show "stamped s m s'" by (rule StampOutbound_stamped [OF st]) simp_all
  show "Get m tag_MsgType = Some ''8''" "Get m tag_OrderID = Some (u64_to_string (o_internal_id ord))"
    "Get m tag_ClOrdID = Some (o_client_order_id ord)" "Get m tag_Symbol = Some (sym_value (o_symbol ord))"
    "Get m tag_Side = Some [FixSideChar (o_side ord)]" "Get m tag_OrderQty = Some (int_to_string (o_order_qty ord))"
    "Get m tag_LeavesQty = Some (int_to_string (o_remaining_qty ord))"
    "Get m tag_CumQty = Some (int_to_string (o_filled_qty ord))"
    "Get m tag_OrdStatus = Some [FixOrdStatusChar (o_status ord)]" "Get m tag_ExecType = Some [et]"
    "Get m tag_Price = (if o_type ord = kLimit then Some (int_to_string (o_price ord)) else None)"
    by (subst H(6), simp_all add: tag_defs m1_def msg_defs)+
  show "begin_string m = fs_begin_string s"
    using H(2) by (simp add: begin_string_def Get_def FindField_def value_or_def)
  assume "list_all (\<lambda>v. kSoh \<notin> set v) [o_client_order_id ord, sym_value (o_symbol ord), fs_begin_string s, fs_sender s, fs_target s]"
    and "et \<noteq> kSoh"
  then have T: "kSoh \<notin> set (o_client_order_id ord)" "kSoh \<notin> set (sym_value (o_symbol ord))" "kSoh \<notin> set (fs_begin_string s)"
    "kSoh \<notin> set (fs_sender s)" "kSoh \<notin> set (fs_target s)" "kSoh \<notin> set [et]" by simp_all
  have ok: "kSoh \<notin> set v \<Longrightarrow> t \<in> {6..150} \<union> {151} \<Longrightarrow> field_ok (t, v)" for t :: int and v by (auto simp: field_ok_def)
  have "list_all field_ok (fm_fields m1)"
    unfolding m1_def
    by (auto intro!: fields_ok_Set ok T soh_free_texts simp del: set_simps simp: tag_defs FixMessage_def)
  moreover have "m = Set tag_SendingTime (SendingTimeStr (shd clk)) (Set tag_MsgSeqNum (int_to_string (sint (fs_outbound_seq s + 1)))
      (Set tag_TargetCompId (fs_target s) (Set tag_SenderCompId (fs_sender s) (Set tag_BeginString (fs_begin_string s) m1))))"
    using st by (auto simp: StampOutbound_def SetInt_def Let_def Now_def)
  ultimately show "list_all field_ok (fm_fields m)"
    by (auto intro!: fields_ok_Set ok T soh_free_texts simp del: set_simps simp: tag_defs)
qed

text \<open>
  C36: A counterparty reads from the wire exactly the order that an execution report was built
  from. The conditions: no field separator in the client order id, the symbol, the session's begin
  string, sender and target, nor as the execution type character; no 9= in the begin string, which
  ParseStrict would take for the BodyLength field; a body of at most 2^31 - 1 bytes; and quantities and
  price in the 64-bit range of their types. Then the serialised
  report parses strictly, and its fields read as the order's id, client order id, symbol, side,
  quantities (ordered, remaining, filled), price for a limit order and none for a market order, and
  as a status code that belongs to the order's status alone; its sequence number is the session's
  next one.
\<close>

theorem execution_report_readback:
  assumes built: "BuildExecutionReport ord et s ids clk = (m, s', ids', clk')"
    and texts: "list_all (\<lambda>v. kSoh \<notin> set v) [o_client_order_id ord, sym_value (o_symbol ord), fs_begin_string s, fs_sender s, fs_target s]"
      "et \<noteq> kSoh" "find_text ''9='' (fs_begin_string s) = None" "length (message_body m) \<le> 2147483647"
    and range: "list_all in_i64 [o_order_qty ord, o_remaining_qty ord, o_filled_qty ord, o_price ord]"
  shows "\<exists>r. ParseStrict (Serialize m) = Inr r \<and> MsgType r = msg_ExecutionReport
    \<and> from_chars_u64 (value_or (Get r tag_OrderID) '''') = Some (o_internal_id ord)
    \<and> Get r tag_ClOrdID = Some (o_client_order_id ord) \<and> Get r tag_Symbol = Some (sym_value (o_symbol ord))
    \<and> ParseFixSide (value_or (Get r tag_Side) '''') = Inr (o_side ord)
    \<and> GetInt r tag_OrderQty = o_order_qty ord \<and> GetInt r tag_LeavesQty = o_remaining_qty ord
    \<and> GetInt r tag_CumQty = o_filled_qty ord
    \<and> (if o_type ord = kLimit then GetInt r tag_Price = o_price ord else Get r tag_Price = None)
    \<and> (\<forall>st. Get r tag_OrdStatus = Some [FixOrdStatusChar st] \<longleftrightarrow> st = o_status ord)
    \<and> GetInt r tag_MsgSeqNum = sint (fs_outbound_seq s + 1)"
proof -
  note F = BuildExecutionReport_fields [OF built]
  have "message_ok m" using F(13,14) texts by (simp add: message_ok_def)
  then have P: "ParseStrict (Serialize m) = Inr \<lparr>fm_fields = wire_fields m\<rparr>" by (rule Serialize_parsed)
  define r where "r = \<lparr>fm_fields = wire_fields m\<rparr>"
  have get: "Get r t = Get m t" if "is_body_tag t" for t
    unfolding r_def by (rule Get_wire_fields [OF that])
  have type: "MsgType r = msg_ExecutionReport"
    using F(1) by (simp add: r_def MsgType_def Get_def wire_fields_def prefix_fields_def body_fields_def msg_type_text_def
        FindField_def value_or_def tag_defs msg_defs)
  have inj: "FixOrdStatusChar st = FixOrdStatusChar st' \<longleftrightarrow> st = st'" for st st' by (cases st; cases st'; simp)
  have num: "GetInt r t = i" if "is_body_tag t" "Get m t = Some (int_to_string i)" "in_i64 i" for t i
    using that get by (intro GetInt_number) simp_all
  have seq: "GetInt r tag_MsgSeqNum = GetInt m tag_MsgSeqNum"
    by (simp add: GetInt_def get is_body_tag_def tag_defs)
  have "is_body_tag t" if "t \<in> {tag_OrderID, tag_ClOrdID, tag_Symbol, tag_Side, tag_OrderQty, tag_LeavesQty, tag_CumQty,
      tag_Price, tag_OrdStatus}" for t
    using that by (auto simp: is_body_tag_def tag_defs)
  then show ?thesis
    using F range type seq unfolding P r_def [symmetric]
    by (cases "o_side ord") (auto simp: get num value_or_def ParseFixSide_def FixSideChar_def inj stamped_def)
qed

definition sample_session :: fix_session where
  "sample_session = FixSession ''OEMS'' ''CLIENT'' ''FIX.4.4''"

lemma sample_session_simps:
  "fs_begin_string sample_session = ''FIX.4.4''" "fs_sender sample_session = ''OEMS''"
  "fs_target sample_session = ''CLIENT''" "fs_outbound_seq sample_session = 0"
  by (simp_all add: sample_session_def FixSession_def)

lemma sample_order_simps:
  "o_client_order_id (sample_order n sd ty px q d st) = ''c''"
  "o_symbol (sample_order n sd ty px q d st) = \<lparr>sym_value = ''7203''\<rparr>"
  "o_type (sample_order n sd ty px q d st) = ty" "o_status (sample_order n sd ty px q d st) = st"
  "o_order_qty (sample_order n sd ty px q d st) = q" "o_filled_qty (sample_order n sd ty px q d st) = d"
  "o_remaining_qty (sample_order n sd ty px q d st) = q - d" "o_price (sample_order n sd ty px q d st) = px"
  by (simp_all add: sample_order_def)

theorem execution_report_readback_witness:
  "case BuildExecutionReport (sample_order 3 kBuy kLimit 100 9 5 kPartiallyFilled) CHR ''F'' sample_session initial_fix_ids sample_clock of
     (m, _, _, _) \<Rightarrow> (case ParseStrict (Serialize m) of Inl _ \<Rightarrow> False | Inr r \<Rightarrow> GetInt r tag_LeavesQty = 4)"
proof -
  obtain m s' ids' clk' where b: "BuildExecutionReport (sample_order 3 kBuy kLimit 100 9 5 kPartiallyFilled) CHR ''F''
      sample_session initial_fix_ids sample_clock = (m, s', ids', clk')" by (metis prod_cases4)
  have "gmtime 0 = \<lparr>tm_year = 1970, tm_mon = 1, tm_mday = 1, tm_hour = 0, tm_min = 0, tm_sec = 0\<rparr>"
    by code_simp
  then have "SendingTimeStr 9 = ''19700101-00:00:00.000''"
    by (simp add: SendingTimeStr_def int_padded_def zero_padded_def nat_to_string.simps Let_def signed_divide_int_def
        signed_modulo_int_def) (simp add: numeral_eq_Suc)
  moreover have "int_to_string 9 = ''9''" "int_to_string 5 = ''5''" "int_to_string 4 = ''4''" "int_to_string 100 = ''100''"
    "int_to_string 1 = ''1''" "u64_to_string 3 = ''3''" "u64_to_string 1 = ''1''"
    by (simp_all add: int_to_string_def u64_to_string_def nat_to_string.simps)
  ultimately have "fm_fields m = [(35, ''8''), (37, ''3''), (11, ''c''), (17, ''1''), (55, ''7203''), (54, ''1''), (38, ''9''),
      (151, ''4''), (14, ''5''), (39, ''1''), (150, ''F''), (44, ''100''), (8, ''FIX.4.4''), (49, ''OEMS''),
      (56, ''CLIENT''), (34, ''1''), (52, ''19700101-00:00:00.000'')]"
    using b
    apply (simp add: BuildExecutionReport_def NextExecId_def initial_fix_ids_def Let_def sample_order_def)
    apply (simp add: StampOutbound_def sample_session_def FixSession_def sample_clock_def Now_def Let_def split_paired_all)
    apply (elim conjE)
    apply hypsubst
    apply (simp add: Set_def SetInt_def FixMessage_def tag_defs)
    apply (simp add: msg_defs FixSideChar_def)
    done
  then have "length (message_body m) \<le> 2147483647"
    by (simp add: message_body_def FindField_def value_or_def is_body_tag_def tag_defs field_text_def int_to_string_def
        nat_to_string.simps)
  note len = this
  have texts: "list_all (\<lambda>v. kSoh \<notin> set v) [''c'', sym_value \<lparr>sym_value = ''7203''\<rparr>, ''FIX.4.4'', ''OEMS'', ''CLIENT'']"
    "CHR ''F'' \<noteq> kSoh"
    by (simp_all add: kSoh_def)
  have find: "find_text ''9='' ''FIX.4.4'' = None" by code_simp
  have range: "list_all in_i64 [9, 9 - 5, 5, 100]" by (simp add: in_i64_def i64_min_def i64_max_def)
  have "\<exists>r. ParseStrict (Serialize m) = Inr r \<and> GetInt r tag_LeavesQty = 9 - 5"
    using execution_report_readback [OF b, unfolded sample_order_simps sample_session_simps, OF texts find len range] by blast
  then show ?thesis unfolding b by auto
qed

subsection \<open>Orders over FIX\<close>

lemma FixOrdStatus_new: "CHR ''0'' = FixOrdStatusChar st \<longleftrightarrow> st = kAccepted"
  by (cases st) simp_all

text \<open>The outcome of a NewOrderSingle that ends with an order on file.\<close>

lemma NewOrderSingle_accepted:
  assumes h: "HandleNewOrderSingle sq msg s ids om = (Inr r, s1, ids1, om1)"
    and new: "Get r tag_OrdStatus = Some ''0''"
  obtains req ord om' ids0 clk where "SubmitOrder sq req om = (Inr ord, om')" "o_status ord = kAccepted"
    "BuildExecutionReport ord (submit_exec_type ord) s ids (om_clock om') = (r, s1, ids1, clk)"
    "om1 = om'\<lparr>om_clock := clk\<rparr>"
proof -
  obtain req res om' where s: "SubmitOrder sq req om = (res, om')"
    and r: "(case res of Inl e \<Rightarrow> (case NextSyntheticOrderId ids of (oid, ids') \<Rightarrow> report (rejected_order oid req) CHR ''8'' s ids' om')
            | Inr ord \<Rightarrow> report ord (submit_exec_type ord) s ids om') = (Inr r, s1, ids1, om1)"
    using h by (auto simp: HandleNewOrderSingle_def Let_def split: if_splits sum.splits prod.splits)
  show thesis
  proof (cases res)
    case (Inl e)
    obtain oid ids' where "NextSyntheticOrderId ids = (oid, ids')" by force
    with r Inl obtain clk where "BuildExecutionReport (rejected_order oid req) CHR ''8'' s ids' (om_clock om') = (r, s1, ids1, clk)"
      by (auto simp: report_def split: prod.splits)
    from BuildExecutionReport_fields(9) [OF this] new show thesis by (simp add: rejected_order_def)
  next
    case (Inr ord)
    with r obtain clk where b: "BuildExecutionReport ord (submit_exec_type ord) s ids (om_clock om') = (r, s1, ids1, clk)"
      and om1: "om1 = om'\<lparr>om_clock := clk\<rparr>"
      by (auto simp: report_def split: prod.splits)
    from BuildExecutionReport_fields(9) [OF b] new have "o_status ord = kAccepted" by (simp add: FixOrdStatus_new)
    with s Inr b om1 show thesis by (intro that) simp_all
  qed
qed

text \<open>
  C37: An order entered over FIX can be cancelled over FIX by the id it was reported with. If, in any
  reachable state, a NewOrderSingle is answered with an execution report in status New, then an
  OrderCancelRequest that quotes the reported OrderID succeeds next: the answer is an execution
  report for the same OrderID and client order id in status Cancelled with nothing filled, the
  order no longer rests in the book, and the session numbers the second report right after the
  first.
\<close>

theorem fix_order_then_cancel:
  assumes reach: "reachable_om sq om" and ids: "om_next_order_id om \<noteq> - 1"
    and h: "HandleNewOrderSingle sq msg s ids om = (Inr r, s1, ids1, om1)"
    and new: "Get r tag_OrdStatus = Some ''0''"
    and c: "MsgType msg2 = msg_OrderCancelRequest" "Get msg2 tag_OrderID = Get r tag_OrderID"
  shows "\<exists>r2 s2 ids2 om2 k. HandleOrderCancelRequest sq msg2 s1 ids1 om1 = (Inr r2, s2, ids2, om2)
    \<and> Get r2 tag_OrderID = Get r tag_OrderID \<and> Get r2 tag_ClOrdID = Get r tag_ClOrdID
    \<and> Get r2 tag_OrdStatus = Some ''4'' \<and> GetInt r2 tag_CumQty = 0
    \<and> GetInt r2 tag_MsgSeqNum = sint (fs_outbound_seq s1 + 1)
    \<and> Get r tag_OrderID = Some (u64_to_string k) \<and> (\<forall>sv. live (om_engine om2) sv k = None)"
proof -
  from h new obtain req ord om' clk where s: "SubmitOrder sq req om = (Inr ord, om')" and st: "o_status ord = kAccepted"
    and b: "BuildExecutionReport ord (submit_exec_type ord) s ids (om_clock om') = (r, s1, ids1, clk)"
    and om1: "om1 = om'\<lparr>om_clock := clk\<rparr>"
    by (rule NewOrderSingle_accepted) (rule that)
  let ?k = "o_internal_id ord"
  note F = BuildExecutionReport_fields [OF b]
  have reach': "reachable_om sq om'" by (rule submit_step [OF reach ids s])
  then have reach1: "reachable_om sq om1" unfolding om1 using risk_step [of sq om' clk "om_risk om'"] by simp
  note ok1 = reachable_om_ok [OF reach1]
  have onfile: "um_find (om_orders om1) ?k = Some ord"
    using reachable_om_ok [OF reach] ids s
  proof (cases rule: SubmitOrder_outcome)
    case (accepted ord' r' risk' clk' om4 clk'')
    with om_okD(4) [OF reachable_om_ok [OF reach'] accepted(8)] show ?thesis by (simp add: om1)
  qed simp_all
  then have ord: "order_ok ord" using om_okD(4) [OF ok1] by blast
  then have opn: "is_open ord" "o_filled_qty ord = 0" using st by (simp_all add: order_ok_def status_ok_def is_open_def)
  have k0: "u64_to_string ?k \<noteq> []" by (simp add: u64_to_string_def nat_to_string_nonempty)
  obtain res om2 where cancel: "OrderManager_CancelOrder sq \<lparr>cr_order_id = ?k\<rparr> om1 = (res, om2)" by force
  have k: "um_find (om_orders om1) (cr_order_id \<lparr>cr_order_id = ?k\<rparr>) = Some ord" using onfile by simp
  obtain now where R: "res = Inr (ord\<lparr>o_status := kCancelled, o_updated_at := now\<rparr>)"
    using CancelOrder_open [OF ok1 cancel k opn(1)] by metis
  let ?ord' = "ord\<lparr>o_status := kCancelled, o_updated_at := now\<rparr>"
  obtain r2 s2 ids2 clk2 where b2: "BuildExecutionReport ?ord' CHR ''4'' s1 ids1 (om_clock om2) = (r2, s2, ids2, clk2)"
    by (metis prod_cases4)
  note F2 = BuildExecutionReport_fields [OF b2]
  have "HandleOrderCancelRequest sq msg2 s1 ids1 om1 = (Inr r2, s2, ids2, om2\<lparr>om_clock := clk2\<rparr>)"
    using c F(2) k0 cancel R b2 by (simp add: HandleOrderCancelRequest_def Let_def value_or_def report_def)
  moreover have "live (om_engine om2) sv ?k = None" for sv
  proof -
    have "map_option entry_view (live (om_engine om1) sv ?k) = order_view sv (Some ord)"
      using om_okD(3) [OF ok1] onfile by (simp add: tracks_def)
    then show ?thesis
      using CancelOrder_live [OF ok1 cancel [unfolded R] k opn(1)] by (simp add: order_view_def split: if_splits)
  qed
  moreover have "GetInt r2 tag_CumQty = 0"
    using F2(8) opn(2) by (intro GetInt_number) (simp_all add: in_i64_def i64_min_def i64_max_def)
  ultimately show ?thesis
    using F F2 by (intro exI [of _ r2] exI [of _ s2] exI [of _ ids2] exI [of _ "om2\<lparr>om_clock := clk2\<rparr>"] exI [of _ ?k])
      (simp add: stamped_def)
qed

definition order_message :: fix_message where
  "order_message = \<lparr>fm_fields = [(35, ''D''), (11, ''c''), (55, ''7203''), (54, ''2''), (40, ''2''), (38, ''5''), (44, ''100'')]\<rparr>"

definition cancel_message :: fix_message where
  "cancel_message = \<lparr>fm_fields = [(35, ''F''), (37, ''1'')]\<rparr>"

lemma order_message_request:
  "HandleNewOrderSingle sq order_message s ids om =
     (case SubmitOrder sq (request kSell kLimit 100 5) om of
        (Inl e, om') \<Rightarrow>
          (case NextSyntheticOrderId ids of (oid, ids') \<Rightarrow>
             report (rejected_order oid (request kSell kLimit 100 5)) CHR ''8'' s ids' om')
      | (Inr ord, om') \<Rightarrow> report ord (submit_exec_type ord) s ids om')"
proof -
  have "from_chars_i64 ''5'' = Some 5" "from_chars_i64 ''100'' = Some 100" by code_simp+
  then show ?thesis
    by (simp add: HandleNewOrderSingle_def MsgType_def Get_def GetInt_def FindField_def value_or_def order_message_def
        tag_defs msg_defs ParseFixSide_def ParseFixOrdType_def) (unfold Let_def request_def, rule refl)
qed

theorem fix_order_then_cancel_witness:
  "case HandleNewOrderSingle null_sqlite order_message sample_session initial_fix_ids session0 of (_, s1, ids1, om1) \<Rightarrow>
     (case HandleOrderCancelRequest null_sqlite cancel_message s1 ids1 om1 of (res, _, _, om2) \<Rightarrow>
        (case res of Inl _ \<Rightarrow> False | Inr r2 \<Rightarrow> Get r2 tag_OrdStatus = Some ''4'' \<and> Get r2 tag_OrderID = Some ''1''))"
proof -
  let ?ord = "sample_order 1 kSell kLimit 100 5 0 kAccepted"
  obtain om' where s: "SubmitOrder null_sqlite (request kSell kLimit 100 5) session0 = (Inr ?ord, om')"
    unfolding session0_def by (simp add: om_eval engine_eval sample_defs)
  obtain r s1 ids1 clk where b: "BuildExecutionReport ?ord (submit_exec_type ?ord) sample_session initial_fix_ids (om_clock om') =
      (r, s1, ids1, clk)" by (metis prod_cases4)
  note F = BuildExecutionReport_fields [OF b, unfolded sample_order_simps]
  have h: "HandleNewOrderSingle null_sqlite order_message sample_session initial_fix_ids session0 =
      (Inr r, s1, ids1, om'\<lparr>om_clock := clk\<rparr>)"
    by (simp add: order_message_request s report_def b)
  have k: "u64_to_string (o_internal_id ?ord) = ''1''" by (simp add: sample_order_def strings_eval)
  have msg2: "MsgType cancel_message = msg_OrderCancelRequest" "Get cancel_message tag_OrderID = Get r tag_OrderID"
    using F(2) k by (simp_all add: MsgType_def Get_def FindField_def value_or_def cancel_message_def tag_defs msg_defs)
  have "om_next_order_id session0 \<noteq> - 1" "Get r tag_OrdStatus = Some ''0''" using F(9) by (simp_all add: session_ids)
  from fix_order_then_cancel [OF session0_reachable this(1) h this(2) msg2] F(2) k show ?thesis
    unfolding h by auto
qed

end
