(* ===== verification/Http_Api.thy ===== *)
theory Http_Api
  imports Order_Manager
begin

section \<open>The HTTP controllers (src/src/core/api/oems_controllers.hpp, oems_controllers.cpp)\<close>

text \<open>
  The adapter between the generated API classes and the domain services. A field of a data transfer
  object is an option (a null \<open>oatpp\<close> pointer is \<open>None\<close>); parsing and printing JSON and routing are
  the library's. A controller returns a response, and the services it changed.
\<close>

subsection \<open>Data transfer objects (src/src/api-gen/model/)\<close>

record new_order_dto =
  nd_client_order_id :: "string option"
  nd_symbol :: "string option"
  nd_side :: "string option"
  nd_type :: "string option"
  nd_price :: "int option"
  nd_quantity :: "int option"

record order_dto =
  od_internal_id :: int
  od_client_order_id :: string
  od_symbol :: string
  od_side :: string
  od_type :: string
  od_price :: int
  od_order_qty :: int
  od_filled_qty :: int
  od_remaining_qty :: int
  od_status :: string

record fill_dto =
  fd_execution_id :: int
  fd_symbol :: string
  fd_aggressive_order_id :: int
  fd_passive_order_id :: int
  fd_side :: string
  fd_price :: int
  fd_quantity :: int

record price_level_dto =
  ld_price :: int
  ld_total_qty :: int
  ld_order_count :: int

record book_dto =
  bd_symbol :: string
  bd_bids :: "price_level_dto list"
  bd_asks :: "price_level_dto list"

datatype response_body =
  ApiError string | HealthBody string | OrderBody order_dto | OrdersBody "order_dto list"
| BookBody book_dto | FillsBody "fill_dto list"

text \<open>The response of a handler, or the HTTP error that OATPP_ASSERT_HTTP throws.\<close>

datatype response = Response int response_body | HttpError int string

subsection \<open>Conversions\<close>

definition DomainToDtoSide :: "side \<Rightarrow> string" where
  "DomainToDtoSide s = (if s = kBuy then ''Buy'' else ''Sell'')"

definition DomainToDtoType :: "order_type \<Rightarrow> string" where
  "DomainToDtoType t = (if t = kLimit then ''Limit'' else ''Market'')"

definition DomainToDtoStatus :: "order_status \<Rightarrow> string" where
  "DomainToDtoStatus s = OrderStatusName s"

definition tolower :: "char \<Rightarrow> char" where
  \<comment> \<open>\<open>std::tolower\<close> in the C locale\<close>
  "tolower c =
     (let n = (of_char c :: nat) in if 65 \<le> n \<and> n \<le> 90 then char_of (n + 32) else c)"

definition ParseRequestSide :: "string option \<Rightarrow> side result" where
  "ParseRequestSide s =
     (case s of
        None \<Rightarrow> Inl kInvalidSide
      | Some s' \<Rightarrow>
          let v = map tolower s'
          in if v = ''buy'' then Inr kBuy else if v = ''sell'' then Inr kSell else Inl kInvalidSide)"

definition ParseRequestType :: "string option \<Rightarrow> order_type result" where
  "ParseRequestType s =
     (case s of
        None \<Rightarrow> Inl kInvalidOrderType
      | Some s' \<Rightarrow>
          let v = map tolower s'
          in if v = ''limit'' then Inr kLimit else if v = ''market'' then Inr kMarket
             else Inl kInvalidOrderType)"

definition ParseRequestStatus :: "string option \<Rightarrow> order_status result" where
  "ParseRequestStatus s =
     (case s of
        None \<Rightarrow> Inl kInvalidOrderType
      | Some v \<Rightarrow>
          if v = ''PendingNew'' then Inr kPendingNew
          else if v = ''Accepted'' then Inr kAccepted
          else if v = ''PartiallyFilled'' then Inr kPartiallyFilled
          else if v = ''Filled'' then Inr kFilled
          else if v = ''PendingCancel'' then Inr kPendingCancel
          else if v = ''Cancelled'' then Inr kCancelled
          else if v = ''Rejected'' then Inr kRejected
          else Inl kInvalidOrderType)"

fun ErrorToStatus :: "oems_error \<Rightarrow> int" where
  "ErrorToStatus kOrderNotFound = 404"
| "ErrorToStatus kBookNotFound = 404"
| "ErrorToStatus kRouteNotFound = 404"
| "ErrorToStatus kInvalidQuantity = 400"
| "ErrorToStatus kInvalidPrice = 400"
| "ErrorToStatus kInvalidSymbol = 400"
| "ErrorToStatus kInvalidSide = 400"
| "ErrorToStatus kInvalidOrderType = 400"
| "ErrorToStatus kHttpParseError = 400"
| "ErrorToStatus _ = 422"

definition OrderToDto :: "order \<Rightarrow> order_dto" where
  "OrderToDto ord =
     \<lparr>od_internal_id = sint (o_internal_id ord), od_client_order_id = o_client_order_id ord,
      od_symbol = sym_value (o_symbol ord), od_side = DomainToDtoSide (o_side ord),
      od_type = DomainToDtoType (o_type ord), od_price = o_price ord,
      od_order_qty = o_order_qty ord, od_filled_qty = o_filled_qty ord,
      od_remaining_qty = o_remaining_qty ord, od_status = DomainToDtoStatus (o_status ord)\<rparr>"

definition FillToDto :: "fill \<Rightarrow> fill_dto" where
  "FillToDto f =
     \<lparr>fd_execution_id = sint (fl_execution_id f), fd_symbol = sym_value (fl_symbol f),
      fd_aggressive_order_id = sint (fl_aggressive_order_id f),
      fd_passive_order_id = sint (fl_passive_order_id f),
      fd_side = DomainToDtoSide (fl_aggressive_side f), fd_price = fl_price f,
      fd_quantity = fl_quantity f\<rparr>"

definition DtoPriceLevel :: "price_level \<Rightarrow> price_level_dto" where
  "DtoPriceLevel lvl =
     \<lparr>ld_price = pl_price lvl, ld_total_qty = pl_total_qty lvl, ld_order_count = int (pl_order_count lvl)\<rparr>"

definition error_response :: "oems_error \<Rightarrow> response" where
  \<comment> \<open>\<open>createDtoResponse(Status{ErrorToStatus(e), "Error"}, MakeError(ErrorName(e)))\<close>\<close>
  "error_response e = Response (ErrorToStatus e) (ApiError (ErrorName e))"

subsection \<open>Services\<close>

text \<open>
  The global services pointer, null until main sets it. It refers to the order manager and to the
  engine that order manager trades on (main.cc), which is a field of the order manager's state.
\<close>

type_synonym 'd services = "'d order_manager option"

definition not_initialised :: response where
  "not_initialised = HttpError 500 ''services not initialised''"

subsection \<open>Handlers\<close>

definition get_health :: response where
  "get_health = Response 200 (HealthBody ''ok'')"

definition domain_request :: "new_order_dto \<Rightarrow> string \<Rightarrow> side \<Rightarrow> order_type \<Rightarrow> quantity \<Rightarrow> new_order_request" where
  "domain_request d sy sd ty qty =
     \<lparr>nr_client_order_id = (case nd_client_order_id d of Some c \<Rightarrow> c | None \<Rightarrow> ''''),
      nr_symbol = \<lparr>sym_value = sy\<rparr>, nr_side = sd, nr_type = ty,
      nr_price = (case nd_price d of Some p \<Rightarrow> p | None \<Rightarrow> 0), nr_quantity = qty\<rparr>"

definition submit_order ::
  "'d sqlite \<Rightarrow> new_order_dto option \<Rightarrow> 'd services \<Rightarrow> response \<times> 'd services" where
  "submit_order sq newOrderRequest services =
     (case services of
        None \<Rightarrow> (not_initialised, services)
      | Some om \<Rightarrow>
          (case newOrderRequest of
             None \<Rightarrow> (Response 400 (ApiError ''missing required fields''), services)
           | Some d \<Rightarrow>
               (case (nd_symbol d, nd_side d, nd_type d, nd_quantity d) of
                  (Some sy, Some _, Some _, Some qty) \<Rightarrow>
                    (case ParseRequestSide (nd_side d) of
                       Inl _ \<Rightarrow> (Response 400 (ApiError ''invalid side''), services)
                     | Inr sd \<Rightarrow>
                         (case ParseRequestType (nd_type d) of
                            Inl _ \<Rightarrow> (Response 400 (ApiError ''invalid type''), services)
                          | Inr ty \<Rightarrow>
                              (case SubmitOrder sq (domain_request d sy sd ty qty) om of
                                 (Inl e, om') \<Rightarrow> (error_response e, Some om')
                               | (Inr ord, om') \<Rightarrow> (Response 201 (OrderBody (OrderToDto ord)), Some om'))))
                | _ \<Rightarrow> (Response 400 (ApiError ''missing required fields''), services))))"

definition cancel_order ::
  "'d sqlite \<Rightarrow> int option \<Rightarrow> 'd services \<Rightarrow> response \<times> 'd services" where
  "cancel_order sq oid services =
     (case services of
        None \<Rightarrow> (not_initialised, services)
      | Some om \<Rightarrow>
          (case oid of
             None \<Rightarrow> (Response 400 (ApiError ''missing id''), services)
           | Some i \<Rightarrow>
               (case OrderManager_CancelOrder sq \<lparr>cr_order_id = word_of_int i\<rparr> om of
                  (Inl e, om') \<Rightarrow> (error_response e, Some om')
                | (Inr ord, om') \<Rightarrow> (Response 200 (OrderBody (OrderToDto ord)), Some om'))))"

definition get_order :: "int option \<Rightarrow> 'd services \<Rightarrow> response" where
  "get_order oid services =
     (case services of
        None \<Rightarrow> not_initialised
      | Some om \<Rightarrow>
          (case oid of
             None \<Rightarrow> Response 400 (ApiError ''missing id'')
           | Some i \<Rightarrow>
               (case GetOrder om (word_of_int i) of
                  Inl e \<Rightarrow> error_response e
                | Inr ord \<Rightarrow> Response 200 (OrderBody (OrderToDto ord)))))"

definition present :: "string option \<Rightarrow> bool" where
  \<comment> \<open>\<open>s && !s->empty()\<close>\<close>
  "present s = (case s of None \<Rightarrow> False | Some v \<Rightarrow> v \<noteq> [])"

definition list_orders :: "string option \<Rightarrow> string option \<Rightarrow> 'd services \<Rightarrow> response" where
  "list_orders sy status services =
     (case services of
        None \<Rightarrow> not_initialised
      | Some om \<Rightarrow>
          (let sym_filter = (if present sy then map_option (\<lambda>v. \<lparr>sym_value = v\<rparr>) sy else None);
               answer = (\<lambda>status_filter.
                 Response 200 (OrdersBody (map OrderToDto (GetOrders om sym_filter status_filter))))
           in if present status
              then (case ParseRequestStatus status of
                      Inl _ \<Rightarrow> Response 400 (ApiError ''invalid order status'')
                    | Inr st \<Rightarrow> answer (Some st))
              else answer None))"

definition get_book :: "string option \<Rightarrow> 'd services \<Rightarrow> response option" where
  \<comment> \<open>\<open>None\<close>: the total of a price level overflows\<close>
  "get_book sy services =
     (case services of
        None \<Rightarrow> Some not_initialised
      | Some om \<Rightarrow>
          (case sy of
             None \<Rightarrow> Some (Response 400 (ApiError ''missing symbol''))
           | Some v \<Rightarrow>
               if v = [] then Some (Response 400 (ApiError ''missing symbol''))
               else (case GetBook (om_engine om) \<lparr>sym_value = v\<rparr> of
                       Inl e \<Rightarrow> Some (Response 404 (ApiError (ErrorName e)))
                     | Inr b \<Rightarrow>
                         (case (Bids b, Asks b) of
                            (Some bids, Some asks) \<Rightarrow>
                              Some (Response 200 (BookBody
                                \<lparr>bd_symbol = v, bd_bids = map DtoPriceLevel bids,
                                 bd_asks = map DtoPriceLevel asks\<rparr>))
                          | _ \<Rightarrow> None))))"

definition list_executions :: "'d services \<Rightarrow> response" where
  "list_executions services =
     (case services of
        None \<Rightarrow> not_initialised
      | Some om \<Rightarrow> Response 200 (FillsBody (map FillToDto (GetAllExecutions om))))"

end
