(* ===== verification/Http_Properties.thy ===== *)
theory Http_Properties
  imports Http_Api Order_Properties
begin

section \<open>Properties of the HTTP controllers\<close>

text \<open>
  What a client can rely on: the status code of a submission says what happened to the state, and an
  order it was told about can be read, listed and cancelled by the id it was given.
\<close>

subsection \<open>Status codes\<close>

lemma i64_id_roundtrip [simp]: "(word_of_int (sint w) :: u64) = w"
  by simp

lemma CheckRateLimit_error: "CheckRateLimit rm clk = (Inl e, rm', clk') \<Longrightarrow> e = kRiskBreachRateLimit"
  by (auto simp: CheckRateLimit_def Let_def split: if_splits prod.splits)

text \<open>The risk manager refuses a well-formed request with an error that answers 422.\<close>

lemma Check_error_status:
  assumes "valid_request req" and "Check rm (risk_request_of req) clk = (Inl e, rm', clk')"
  shows "ErrorToStatus e = 422"
  using assms
  by (auto simp: Check_def check_iffs valid_request_def risk_request_of_def tick_loop_find dest!: CheckRateLimit_error
      split: if_splits sum.splits option.splits)

lemma engine_cancel_error_status:
  "MatchingEngine_CancelOrder me s k = (Inl e, me') \<Longrightarrow> ErrorToStatus e = 404"
  by (auto simp: MatchingEngine_CancelOrder_def OrderBook_CancelOrder_def cancel_in_def Let_def
      split: option.splits prod.splits if_splits sum.splits)

text \<open>What a request must say to be considered at all.\<close>

definition complete_dto :: "new_order_dto option \<Rightarrow> bool" where
  "complete_dto x = (case x of None \<Rightarrow> False | Some d \<Rightarrow>
     (case (nd_symbol d, nd_side d, nd_type d, nd_quantity d) of
        (Some sy, Some side, Some ty, Some qty) \<Rightarrow>
          sy \<noteq> [] \<and> 0 < qty \<and> map tolower side \<in> {''buy'', ''sell''} \<and> map tolower ty \<in> {''limit'', ''market''}
          \<and> (map tolower ty = ''limit'' \<longrightarrow> (case nd_price d of None \<Rightarrow> False | Some p \<Rightarrow> 0 < p))
      | _ \<Rightarrow> False))"

text \<open>The order that a complete request asks for.\<close>

definition wanted_order :: "new_order_dto \<Rightarrow> new_order_request" where
  "wanted_order d = \<lparr>nr_client_order_id = (case nd_client_order_id d of Some c \<Rightarrow> c | None \<Rightarrow> ''''),
     nr_symbol = \<lparr>sym_value = the (nd_symbol d)\<rparr>,
     nr_side = (if map tolower (the (nd_side d)) = ''buy'' then kBuy else kSell),
     nr_type = (if map tolower (the (nd_type d)) = ''limit'' then kLimit else kMarket),
     nr_price = (case nd_price d of Some p \<Rightarrow> p | None \<Rightarrow> 0), nr_quantity = the (nd_quantity d)\<rparr>"

lemma submit_order_cases:
  assumes "submit_order sq x (Some om) = (resp, services)"
  obtains (malformed) m where "\<not> complete_dto x" "resp = Response 400 (ApiError m)" "services = Some om"
  | (refused) req e om' where "SubmitOrder sq req om = (Inl e, om')" "valid_request req \<longleftrightarrow> complete_dto x"
      "req = wanted_order (the x)" "resp = error_response e" "services = Some om'"
  | (accepted) req ord om' where "SubmitOrder sq req om = (Inr ord, om')" "valid_request req \<longleftrightarrow> complete_dto x"
      "req = wanted_order (the x)" "resp = Response 201 (OrderBody (OrderToDto ord))" "services = Some om'"
proof (cases "\<exists>m. \<not> complete_dto x \<and> resp = Response 400 (ApiError m) \<and> services = Some om")
  case True
  with malformed show thesis by blast
next
  case False
  with assms obtain d sy side ty qty where d: "x = Some d" "nd_symbol d = Some sy" "nd_side d = Some side"
    "nd_type d = Some ty" "nd_quantity d = Some qty"
    by (auto simp: submit_order_def complete_dto_def split: option.splits)
  with assms False obtain sd tp where p: "ParseRequestSide (Some side) = Inr sd" "ParseRequestType (Some ty) = Inr tp"
    by (auto simp: submit_order_def complete_dto_def ParseRequestSide_def ParseRequestType_def Let_def split: if_splits)
  have v: "valid_request (domain_request d sy sd tp qty) \<longleftrightarrow> complete_dto x"
    using p d by (auto simp: valid_request_def domain_request_def complete_dto_def ParseRequestSide_def
        ParseRequestType_def Let_def split: if_splits option.splits)
  have w: "domain_request d sy sd tp qty = wanted_order (the x)"
    using p d by (auto simp: domain_request_def wanted_order_def ParseRequestSide_def ParseRequestType_def Let_def split: if_splits)
  obtain res om' where s: "SubmitOrder sq (domain_request d sy sd tp qty) om = (res, om')" by force
  show thesis
    using assms d p s v w refused [of "domain_request d sy sd tp qty"] accepted [of "domain_request d sy sd tp qty"]
    by (cases res) (auto simp: submit_order_def)
qed

text \<open>
  C9: The answer to a submission over HTTP. Take any reachable state with an order id left, and a
  request whose JSON body the web library could read (a malformed body never reaches the handler; the
  library answers it itself, with 500). A request that is incomplete (no body, a required field
  missing, an unknown side or type, an empty symbol, a quantity or limit price that is not positive) is
  answered 400 and changes nothing. For a complete one the verdict of the risk manager on the order it
  asks for decides. If Check refuses, the answer is 422 with the name of the violated control, the
  order is on file under the next id as rejected, and books and executions are untouched. If Check
  accepts, the answer is 201 with the order on file under the next id, which has the client id,
  symbol, side, type, price and quantity asked for. The handler gives no other answer.
\<close>

theorem http_submit_status:
  assumes reach: "reachable_om sq om" and ids: "om_next_order_id om \<noteq> - 1"
    and h: "submit_order sq x (Some om) = (resp, services)" and req: "req = wanted_order (the x)"
  shows "if \<not> complete_dto x then services = Some om \<and> (\<exists>m. resp = Response 400 (ApiError m))
    else \<exists>om' ord. services = Some om' \<and> GetOrder om' (om_next_order_id om) = Inr ord
      \<and> o_client_order_id ord = nr_client_order_id req \<and> o_symbol ord = nr_symbol req \<and> o_side ord = nr_side req
      \<and> o_type ord = nr_type req \<and> o_price ord = nr_price req \<and> o_order_qty ord = nr_quantity req
      \<and> (case fst (Check (om_risk om) (risk_request_of req) (om_clock om)) of
           Inl e \<Rightarrow> resp = Response 422 (ApiError (ErrorName e)) \<and> o_status ord = kRejected
             \<and> om_engine om' = om_engine om \<and> GetAllExecutions om' = GetAllExecutions om
         | Inr _ \<Rightarrow> resp = Response 201 (OrderBody (OrderToDto ord)))"
  using h
proof (cases rule: submit_order_cases)
  case (refused req' e om')
  then have req': "req' = req" by (simp add: req)
  from reachable_om_ok [OF reach] ids refused(1) show ?thesis
  proof (cases rule: SubmitOrder_outcome)
    case invalid
    with refused show ?thesis by (auto simp: error_response_def valid_request_def)
  next
    case (risk e' risk' clk')
    then have "ErrorToStatus e = 422" using Check_error_status by simp
    with risk refused show ?thesis
      by (auto simp: error_response_def GetOrder_def GetAllExecutions_def om_simps umap_simps order_of_request_def req')
  qed simp
next
  case (accepted req' ord om')
  then have req': "req' = req" by (simp add: req)
  from reachable_om_ok [OF reach] ids accepted(1) show ?thesis
  proof (cases rule: SubmitOrder_outcome)
    case (accepted ord' r risk' clk' om4 clk'')
    note T = accept_order_terms [OF accepted(6)]
    from accepted T \<open>resp = _\<close> \<open>services = _\<close> \<open>valid_request req' \<longleftrightarrow> _\<close> show ?thesis
      by (auto simp: GetOrder_def terms_def order_of_request_def req')
  qed simp_all
qed auto

definition sample_dto :: new_order_dto where
  "sample_dto = \<lparr>nd_client_order_id = Some ''c'', nd_symbol = Some ''7203'', nd_side = Some ''BUY'', nd_type = Some ''limit'',
     nd_price = Some 100, nd_quantity = Some 9\<rparr>"

lemma tolower_sample: "tolower (CHR ''B'') = CHR ''b''" "tolower (CHR ''U'') = CHR ''u''" "tolower (CHR ''Y'') = CHR ''y''"
    "tolower (CHR ''l'') = CHR ''l''" "tolower (CHR ''i'') = CHR ''i''" "tolower (CHR ''m'') = CHR ''m''" "tolower (CHR ''t'') = CHR ''t''"
  by code_simp+

theorem http_submit_status_witness:
  "(case fst (submit_order null_sqlite (Some (sample_dto\<lparr>nd_quantity := None\<rparr>)) (Some session2)) of
      Response c _ \<Rightarrow> c = 400 | HttpError _ _ \<Rightarrow> False)
   \<and> fst (submit_order null_sqlite (Some (sample_dto\<lparr>nd_quantity := Some 10001\<rparr>)) (Some session2)) =
       Response 422 (ApiError (ErrorName kRiskBreachMaxQty))
   \<and> (case fst (submit_order null_sqlite (Some sample_dto) (Some session2)) of
      Response c _ \<Rightarrow> c = 201 | HttpError _ _ \<Rightarrow> False)"
proof -
  let ?verdict = "\<lambda>d. fst (Check (om_risk session2) (risk_request_of (wanted_order d)) (om_clock session2))"
  have complete: "complete_dto (Some sample_dto)" "complete_dto (Some (sample_dto\<lparr>nd_quantity := Some 10001\<rparr>))"
    "\<not> complete_dto (Some (sample_dto\<lparr>nd_quantity := None\<rparr>))"
    by (simp_all add: complete_dto_def sample_dto_def tolower_sample)
  have verdicts: "?verdict sample_dto = Inr ()" "?verdict (sample_dto\<lparr>nd_quantity := Some 10001\<rparr>) = Inl kRiskBreachMaxQty"
    by (subst session2_eq, subst session2_eq,
        simp add: wanted_order_def sample_dto_def tolower_sample om_eval engine_eval sample_defs)+
  note status = http_submit_status [OF sessions_reachable(1) _ prod.collapse [symmetric] refl]
  from status [of "Some (sample_dto\<lparr>nd_quantity := None\<rparr>)"] status [of "Some (sample_dto\<lparr>nd_quantity := Some 10001\<rparr>)"]
    status [of "Some sample_dto"]
  show ?thesis
    unfolding option.sel verdicts by (auto simp: session_ids complete)
qed

subsection \<open>Reading, listing and cancelling an order\<close>

lemma DomainToDto_inj:
  "DomainToDtoType t = DomainToDtoType t' \<longleftrightarrow> t = t'" "DomainToDtoStatus st = DomainToDtoStatus st' \<longleftrightarrow> st = st'"
  by (cases t; cases t'; simp add: DomainToDtoType_def) (cases st; cases st'; simp add: DomainToDtoStatus_def)

lemma ParseRequestStatus_name [simp]:
  "ParseRequestStatus (Some (DomainToDtoStatus st)) = Inr st" "DomainToDtoStatus st \<noteq> []"
  by (cases st; simp add: ParseRequestStatus_def DomainToDtoStatus_def)+

text \<open>How CancelOrder answers, by the order on file.\<close>

lemma CancelOrder_answer:
  assumes ok: "om_ok om" and k: "um_find (om_orders om) k = Some ord"
    and c: "OrderManager_CancelOrder sq \<lparr>cr_order_id = k\<rparr> om = (res, om')"
  shows "if is_open ord
    then (\<exists>now. res = Inr (ord\<lparr>o_status := kCancelled, o_updated_at := now\<rparr>)) \<and> GetOrder om' k = res
    else (\<exists>e. res = Inl e \<and> ErrorToStatus e = (if o_status ord = kPartiallyFilled then 404 else 422))
      \<and> GetOrder om' k = Inr ord"
proof (cases "is_open ord")
  case True
  from CancelOrder_open [OF ok c _ True] k obtain now where
    "res = Inr (ord\<lparr>o_status := kCancelled, o_updated_at := now\<rparr>)"
    "um_find (om_orders om') = (um_find (om_orders om))(k \<mapsto> ord\<lparr>o_status := kCancelled, o_updated_at := now\<rparr>)"
    by auto
  with True show ?thesis by (auto simp: GetOrder_def)
next
  case False
  from om_okD(4) [OF ok k] have "order_ok ord" by blast
  then have st: "o_status ord \<in> {kFilled, kCancelled, kRejected, kPartiallyFilled}"
    using False by (cases "o_status ord") (auto simp: order_ok_def status_ok_def is_open_def)
  have "\<exists>e. res = Inl e \<and> ErrorToStatus e = (if o_status ord = kPartiallyFilled then 404 else 422)"
    using c
  proof (cases rule: CancelOrder_cases)
    case (failed ord' err engine')
    with engine_cancel_error_status k st show ?thesis by auto
  next
    case (cancelled ord' e engine' now)
    with CancelOrder_not_open [OF ok c] k False show ?thesis by auto
  qed (use k st in auto)
  with CancelOrder_not_open [OF ok c] k False show ?thesis by (auto simp: GetOrder_def)
qed

text \<open>
  C38: An order can be followed over HTTP by the id of its answer. After a submission answered 201, in
  any reachable state, reading the order by that id answers the same order (although ids are
  unsigned in the program and signed on the wire), listing the orders of its symbol and status
  contains it, and a cancel request for it answers: the order in status Cancelled when it is a limit
  order that is accepted or partially filled; 404 when it is a market order that was partially
  filled; 422 when it is filled or rejected. Reading it afterwards shows the cancelled order in the
  first case and the unchanged order otherwise.
\<close>

theorem http_order_lifecycle:
  assumes reach: "reachable_om sq om" and ids: "om_next_order_id om \<noteq> - 1"
    and h: "submit_order sq x (Some om) = (Response 201 (OrderBody d), services)"
  shows "get_order (Some (od_internal_id d)) services = Response 200 (OrderBody d)
    \<and> (\<exists>ds. list_orders (Some (od_symbol d)) (Some (od_status d)) services = Response 200 (OrdersBody ds) \<and> d \<in> set ds)
    \<and> (case cancel_order sq (Some (od_internal_id d)) services of (resp, services') \<Rightarrow>
         if od_type d = ''Limit'' \<and> od_status d \<in> {''Accepted'', ''PartiallyFilled''}
         then resp = Response 200 (OrderBody (d\<lparr>od_status := ''Cancelled''\<rparr>))
           \<and> get_order (Some (od_internal_id d)) services' = resp
         else (\<exists>m. resp = Response (if od_status d = ''PartiallyFilled'' then 404 else 422) (ApiError m))
           \<and> get_order (Some (od_internal_id d)) services' = Response 200 (OrderBody d))"
  using h
proof (cases rule: submit_order_cases)
  case (accepted req ord om')
  from reachable_om_ok [OF reach] ids accepted(1) have ord: "um_find (om_orders om') (om_next_order_id om) = Some ord"
    by (cases rule: SubmitOrder_outcome) auto
  have ok': "om_ok om'" by (rule reachable_om_ok [OF submit_step [OF reach ids accepted(1)]])
  note O = om_okD(4) [OF ok' ord]
  let ?k = "o_internal_id ord"
  have k: "um_find (om_orders om') ?k = Some ord" using O ord by simp
  have d: "d = OrderToDto ord" and services: "services = Some om'" using accepted by auto
  have names: "''Limit'' = DomainToDtoType kLimit" "''Accepted'' = DomainToDtoStatus kAccepted"
    "''PartiallyFilled'' = DomainToDtoStatus kPartiallyFilled" "''Cancelled'' = DomainToDtoStatus kCancelled"
    by (simp_all add: DomainToDtoType_def DomainToDtoStatus_def)
  have sel: "od_internal_id d = sint ?k" "od_symbol d = sym_value (o_symbol ord)" "od_status d = DomainToDtoStatus (o_status ord)"
    "od_type d = DomainToDtoType (o_type ord)" by (simp_all add: d OrderToDto_def)
  have opn: "is_open ord \<longleftrightarrow> od_type d = ''Limit'' \<and> od_status d \<in> {''Accepted'', ''PartiallyFilled''}"
    unfolding sel names by (auto simp: is_open_def DomainToDto_inj)
  have get: "get_order (Some (od_internal_id d)) services = Response 200 (OrderBody d)"
    unfolding get_order_def services sel(1) by (simp add: GetOrder_def k d)
  moreover obtain sv where sy: "o_symbol ord = \<lparr>sym_value = sv\<rparr>" by (cases "o_symbol ord") simp
  have "(?k, ord) \<in> set (om_orders om')" using k by (rule map_of_SomeD)
  then have "d \<in> set (map OrderToDto (GetOrders om' (Some (o_symbol ord)) (Some (o_status ord))))"
    by (force simp: d GetOrders_def)
  then have "\<exists>ds. list_orders (Some (od_symbol d)) (Some (od_status d)) services = Response 200 (OrdersBody ds) \<and> d \<in> set ds"
    using O sy by (simp add: list_orders_def present_def services sel order_ok_def)
  moreover obtain res om2 where c: "OrderManager_CancelOrder sq \<lparr>cr_order_id = ?k\<rparr> om' = (res, om2)" by force
  have dto: "OrderToDto (ord\<lparr>o_status := kCancelled, o_updated_at := now\<rparr>) = d\<lparr>od_status := ''Cancelled''\<rparr>" for now
    by (simp add: d OrderToDto_def DomainToDtoStatus_def)
  have part: "od_status d = ''PartiallyFilled'' \<longleftrightarrow> o_status ord = kPartiallyFilled"
    unfolding sel names by (simp add: DomainToDto_inj)
  have cancel: "cancel_order sq (Some (od_internal_id d)) services =
      (case res of Inl e \<Rightarrow> error_response e | Inr ord' \<Rightarrow> Response 200 (OrderBody (OrderToDto ord')), Some om2)"
    by (simp add: cancel_order_def services sel c split: sum.splits)
  moreover have "get_order (Some (od_internal_id d)) (Some om2) =
      (case GetOrder om2 ?k of Inl e \<Rightarrow> error_response e | Inr ord' \<Rightarrow> Response 200 (OrderBody (OrderToDto ord')))"
    by (simp add: get_order_def sel)
  ultimately show ?thesis
    using CancelOrder_answer [OF ok' k c] unfolding opn part
    by (auto simp: dto error_response_def d split: if_splits)
qed (use ids in \<open>auto simp: error_response_def\<close>)

theorem http_order_lifecycle_witness:
  "case submit_order null_sqlite (Some sample_dto) (Some session2) of (resp, services) \<Rightarrow>
     (case cancel_order null_sqlite (Some 3) services of (resp', _) \<Rightarrow>
        (case resp' of Response c _ \<Rightarrow> c = 200 | HttpError _ _ \<Rightarrow> False))"
proof -
  have lower: "map tolower ''BUY'' = ''buy''" "map tolower ''limit'' = ''limit''" by code_simp+
  have v: "submit_order null_sqlite (Some sample_dto) (Some session2) =
      (Response 201 (OrderBody (OrderToDto (sample_order 3 kBuy kLimit 100 9 5 kPartiallyFilled))), Some session3)"
    unfolding session3_eq unfolding session2_eq
    by (simp add: submit_order_def sample_dto_def ParseRequestSide_def ParseRequestType_def lower [simplified] domain_request_def
        om_eval engine_eval sample_defs strings_eval)
  from http_order_lifecycle [OF sessions_reachable(1) _ v] show ?thesis
    unfolding v
    by (simp add: session_ids OrderToDto_def sample_order_def DomainToDtoType_def DomainToDtoStatus_def case_prod_beta)
qed

end
