(* ===== verification/Server.thy ===== *)
theory Server
  imports Order_Manager Text
begin

section \<open>Server start (src/src/main.cc)\<close>

text \<open>
  What \<open>main\<close> does before it serves, once the listening socket is bound (theory Server_Console has the
  other case): the port and path arguments, opening and migrating the database,
  the startup record and the recovery of the order manager. The HTTP server itself is the library's;
  a start that succeeds ends in the services the controllers run on.
\<close>

subsection \<open>Arguments\<close>

definition is_space :: "char \<Rightarrow> bool" where
  \<comment> \<open>\<open>std::isspace\<close> in the C locale\<close>
  "is_space c \<longleftrightarrow> c = CHR '' '' \<or> (9 \<le> (of_char c :: nat) \<and> (of_char c :: nat) \<le> 13)"

definition clamp_i64 :: "int \<Rightarrow> int" where
  "clamp_i64 i = max i64_min (min i64_max i)"

definition strtol_all :: "string \<Rightarrow> int option" where
  \<comment> \<open>\<open>strtol(s, &end, 10)\<close> when digits were read (\<open>end != s\<close>) and nothing follows them\<close>
  "strtol_all s =
     (let t = dropWhile is_space s;
          neg = (t \<noteq> [] \<and> hd t = CHR ''-'');
          u = (if t \<noteq> [] \<and> (hd t = CHR ''-'' \<or> hd t = CHR ''+'') then tl t else t)
      in if u = [] \<or> \<not> list_all is_digit u then None
         else Some (clamp_i64 (if neg then - int (digits_value u) else int (digits_value u))))"

definition kDefaultPort :: int where
  "kDefaultPort = 8080"

definition kDefaultDbPath :: string where
  "kDefaultDbPath = ''oems.db''"

definition port_of :: "string list \<Rightarrow> int" where
  \<comment> \<open>the arguments after the program name\<close>
  "port_of args =
     (case args of
        [] \<Rightarrow> kDefaultPort
      | a # _ \<Rightarrow> (case strtol_all a of
                    None \<Rightarrow> kDefaultPort
                  | Some parsed \<Rightarrow> sint (word_of_int parsed :: 32 word)))"

definition db_path_of :: "string list \<Rightarrow> string" where
  "db_path_of args = (case args of a # b # _ \<Rightarrow> b | _ \<Rightarrow> kDefaultDbPath)"

subsection \<open>Start\<close>

datatype 'd start =
  OpenFailed | MigrateFailed 'd | RecoveryFailed "'d order_manager"
| Listening int string "'d order_manager"

definition server_main :: "'d sqlite \<Rightarrow> string list \<Rightarrow> clock \<Rightarrow> 'd start option" where
  \<comment> \<open>the first three outcomes exit with code 1; \<open>None\<close> as in RestoreFromDatabase\<close>
  "server_main sq args clk =
     (let db_path = db_path_of args
      in case Database_Open sq db_path of
           Inl _ \<Rightarrow> Some OpenFailed
         | Inr db \<Rightarrow>
             (case Migrate sq db of
                (Inl _, db1) \<Rightarrow> Some (MigrateFailed db1)
              | (Inr _, db1) \<Rightarrow>
                  (case Database_AppendAudit sq ''startup'' (''opened '' @ db_path) clk db1 of
                     (_, db2, clk') \<Rightarrow>
                       (let om = OrderManager (RiskManager default_limits) MatchingEngine (Some db2) clk'
                        in case RestoreFromDatabase sq om of
                             None \<Rightarrow> None
                           | Some (Inl _, om') \<Rightarrow> Some (RecoveryFailed om')
                           | Some (Inr _, om') \<Rightarrow> Some (Listening (port_of args) db_path om')))))"

end
