(* ===== verification/Durability.thy ===== *)
theory Durability
  imports Order_Properties Server
begin

section \<open>Nothing is lost over a restart\<close>

text \<open>
  The order manager writes every change to the database and reads it back when the server starts.
  \<open>sqlite_store\<close> states the documented effect of the program's statements on the three tables, seen as
  maps from primary keys to rows. Any call may fail (a lock held by another process, a full disk, an
  I/O error); \<open>t_healthy\<close> tells the states in which none has failed so far. The program ignores the
  results of its writes, so a failed one leaves the tables behind the memory for good. While none has
  failed, the tables are in step with the memory of the order manager (\<open>synced\<close>), and a new process
  that opens the same file rebuilds the same state. \<open>service\<close> is the life of a server over any number
  of starts.
\<close>

subsection \<open>SQLite as a store of rows\<close>

record 'd store_view =
  t_healthy :: "'d \<Rightarrow> bool"
  t_orders :: "'d \<Rightarrow> int \<Rightarrow> sql_row option"
  t_events :: "'d \<Rightarrow> int \<Rightarrow> sql_row option"
  t_executions :: "'d \<Rightarrow> int \<Rightarrow> sql_row option"

definition row_key :: "sql_row \<Rightarrow> int" where
  "row_key row = (case row of SqlInt i # _ \<Rightarrow> i | _ \<Rightarrow> 0)"

text \<open>A query with ORDER BY on the primary key delivers every row once, in the order of the keys.\<close>

definition ordered_rows :: "(int \<Rightarrow> sql_row option) \<Rightarrow> sql_row list \<Rightarrow> bool" where
  "ordered_rows tab rows \<longleftrightarrow> sorted_wrt (\<lambda>r s. row_key r < row_key s) rows \<and> set rows = ran tab"

definition same_rows :: "'d store_view \<Rightarrow> 'd \<Rightarrow> 'd \<Rightarrow> bool" where
  "same_rows t d d' \<longleftrightarrow> t_orders t d' = t_orders t d \<and> t_events t d' = t_events t d \<and> t_executions t d' = t_executions t d"

text \<open>
  What holds when a call leaves a healthy state behind: all earlier calls succeeded, and so did this
  one. INSERT OR REPLACE replaces the row of its key; INSERT succeeds only on a key that is free. A
  call that fails may do anything.
\<close>

abbreviation succeeds :: "'d store_view \<Rightarrow> 'd \<Rightarrow> 'd \<Rightarrow> bool \<Rightarrow> bool" where
  "succeeds t d d' effect \<equiv> t_healthy t d' \<longrightarrow> t_healthy t d \<and> effect"

definition sqlite_writes :: "'d sqlite \<Rightarrow> 'd store_view \<Rightarrow> bool" where
  "sqlite_writes sq t \<longleftrightarrow>
     (\<forall>ord d rows rc d'. sq_step sq sql_save_order (order_row ord) d = (rows, rc, d') \<longrightarrow> succeeds t d d'
        (rows = [] \<and> rc = SQLITE_DONE
         \<and> t_orders t d' = (t_orders t d)(row_key (order_row ord) \<mapsto> order_row ord)
         \<and> t_events t d' = t_events t d \<and> t_executions t d' = t_executions t d))
     \<and> (\<forall>ev d rows rc d'. sq_step sq sql_append_event (event_row ev) d = (rows, rc, d') \<longrightarrow> succeeds t d d'
        (rows = [] \<and> rc = SQLITE_DONE \<and> t_events t d (row_key (event_row ev)) = None
         \<and> t_events t d' = (t_events t d)(row_key (event_row ev) \<mapsto> event_row ev)
         \<and> t_orders t d' = t_orders t d \<and> t_executions t d' = t_executions t d))
     \<and> (\<forall>f d rows rc d'. sq_step sq sql_save_execution (fill_row f) d = (rows, rc, d') \<longrightarrow> succeeds t d d'
        (rows = [] \<and> rc = SQLITE_DONE
         \<and> t_executions t d' = (t_executions t d)(row_key (fill_row f) \<mapsto> fill_row f)
         \<and> t_orders t d' = t_orders t d \<and> t_events t d' = t_events t d))
     \<and> (\<forall>params d rows rc d'. sq_step sq sql_append_audit params d = (rows, rc, d') \<longrightarrow> succeeds t d d'
        (rows = [] \<and> rc = SQLITE_DONE \<and> same_rows t d d'))"

definition sqlite_queries :: "'d sqlite \<Rightarrow> 'd store_view \<Rightarrow> bool" where
  "sqlite_queries sq t \<longleftrightarrow>
     (\<forall>d rows rc d'. sq_step sq sql_load_orders [] d = (rows, rc, d') \<longrightarrow> succeeds t d d'
        (same_rows t d d' \<and> ordered_rows (t_orders t d) rows))
     \<and> (\<forall>d rows rc d'. sq_step sq sql_load_all_events [] d = (rows, rc, d') \<longrightarrow> succeeds t d d'
        (same_rows t d d' \<and> ordered_rows (t_events t d) rows))
     \<and> (\<forall>d rows rc d'. sq_step sq sql_load_executions [] d = (rows, rc, d') \<longrightarrow> succeeds t d d'
        (same_rows t d d' \<and> ordered_rows (t_executions t d) rows))"

definition start_scripts :: "string list" where
  "start_scripts = [''PRAGMA journal_mode=WAL;'', ''PRAGMA foreign_keys=ON;'', c_str kSchema]"

definition stored_statements :: "string list" where
  "stored_statements = [sql_save_order, sql_append_event, sql_save_execution, sql_load_orders, sql_load_all_events,
     sql_load_executions, sql_append_audit]"

text \<open>A healthy state is also one in which the next statement can be prepared.\<close>

definition sqlite_store :: "'d sqlite \<Rightarrow> 'd store_view \<Rightarrow> bool" where
  "sqlite_store sq t \<longleftrightarrow> sqlite_columns sq \<and> sqlite_writes sq t \<and> sqlite_queries sq t
     \<and> (\<forall>sql \<in> set stored_statements. \<forall>d. t_healthy t d \<longrightarrow> sq_prepare sq sql d)
     \<and> (\<forall>sql \<in> set start_scripts. \<forall>d ok d'. sq_exec sq sql d = (ok, d') \<longrightarrow> succeeds t d d' (ok \<and> same_rows t d d'))"

lemma sqlite_storeD:
  assumes "sqlite_store sq t"
  shows "sqlite_columns sq" "sqlite_writes sq t" "sqlite_queries sq t"
    "sql \<in> set stored_statements \<Longrightarrow> t_healthy t d \<Longrightarrow> sq_prepare sq sql d"
    "sql \<in> set start_scripts \<Longrightarrow> sq_exec sq sql d = (ok, d') \<Longrightarrow> t_healthy t d' \<Longrightarrow> t_healthy t d \<and> ok \<and> same_rows t d d'"
  using assms unfolding sqlite_store_def by blast+

lemma stored_statements_in [simp]:
  "sql_save_order \<in> set stored_statements" "sql_append_event \<in> set stored_statements"
  "sql_save_execution \<in> set stored_statements" "sql_load_orders \<in> set stored_statements"
  "sql_load_all_events \<in> set stored_statements" "sql_load_executions \<in> set stored_statements"
  "sql_append_audit \<in> set stored_statements"
  by (simp_all add: stored_statements_def)

lemma same_rows_trans: "same_rows t d d' \<Longrightarrow> same_rows t d' d'' \<Longrightarrow> same_rows t d d''"
  by (simp add: same_rows_def)

lemma row_keys [simp]:
  "row_key (order_row ord) = sint (o_internal_id ord)" "row_key (event_row ev) = sint (ev_event_id ev)"
  "row_key (fill_row f) = sint (fl_execution_id f)"
  by (simp_all add: row_key_def order_row_def event_row_def fill_row_def bind_u64_def)

subsection \<open>Tables in step with the memory\<close>

definition order_table :: "(order_id \<Rightarrow> order option) \<Rightarrow> int \<Rightarrow> sql_row option" where
  "order_table T k = (if in_i64 k then map_option order_row (T (word_of_int k)) else None)"

definition event_table :: "order_event list \<Rightarrow> int \<Rightarrow> sql_row option" where
  "event_table es = map_of (map (\<lambda>ev. (sint (ev_event_id ev), event_row ev)) es)"

definition execution_table :: "fill list \<Rightarrow> int \<Rightarrow> sql_row option" where
  "execution_table fs = map_of (rev (map (\<lambda>f. (sint (fl_execution_id f), fill_row f)) fs))"

definition synced :: "'d store_view \<Rightarrow> (order_id \<Rightarrow> order option) \<Rightarrow> order_event list \<Rightarrow> fill list \<Rightarrow> 'd option \<Rightarrow> bool" where
  "synced t T es fs db \<longleftrightarrow> (case db of None \<Rightarrow> False | Some d \<Rightarrow> t_healthy t d \<longrightarrow>
     t_orders t d = order_table T \<and> t_events t d = event_table es \<and> t_executions t d = execution_table fs)"

lemma id_in_i64 [simp]: "in_i64 (sint (w :: u64))"
  using sint_greater_eq [of w] sint_less [of w] by (simp add: in_i64_def i64_min_def i64_max_def)

lemma sint_word_of_int: "in_i64 k \<Longrightarrow> sint (word_of_int k :: u64) = k"
  unfolding sint_sbintrunc' by (rule signed_take_bit_int_eq_self) (simp_all add: in_i64_def i64_min_def i64_max_def)

lemma order_table_upd: "order_table (T(k \<mapsto> ord)) = (order_table T)(sint k \<mapsto> order_row ord)"
  by (auto simp: order_table_def fun_eq_iff sint_word_of_int)

lemma event_table_snoc: "event_table (es @ [ev]) = (case event_table es (sint (ev_event_id ev)) of
    None \<Rightarrow> (event_table es)(sint (ev_event_id ev) \<mapsto> event_row ev) | Some _ \<Rightarrow> event_table es)"
  by (auto simp: event_table_def map_add_def fun_eq_iff split: option.splits)

lemma execution_table_snoc: "execution_table (fs @ [f]) = (execution_table fs)(sint (fl_execution_id f) \<mapsto> fill_row f)"
  by (simp add: execution_table_def)

subsection \<open>Every operation keeps them in step\<close>

text \<open>A statement that cannot be prepared leaves the database as it is, which is then not healthy.\<close>

lemma run_write_db:
  assumes "sqlite_store sq t" and "sql \<in> set stored_statements" and "t_healthy t (snd (run_write sq sql params d))"
  shows "\<exists>rows rc. sq_step sq sql params d = (rows, rc, snd (run_write sq sql params d))"
  using assms(3) sqlite_storeD(4) [OF assms(1,2)] by (cases "sq_prepare sq sql d") (auto simp: run_write_def split: prod.splits)

lemma synced_SaveOrder:
  assumes "sqlite_store sq t" and "synced t T es fs (om_db om)"
  shows "synced t (T(o_internal_id ord \<mapsto> ord)) es fs (om_db (with_db (Database_SaveOrder sq ord) om))"
proof (cases "om_db om")
  case (Some d)
  let ?d' = "snd (Database_SaveOrder sq ord d)"
  have "t_healthy t d \<and> t_orders t ?d' = (t_orders t d)(sint (o_internal_id ord) \<mapsto> order_row ord)
      \<and> t_events t ?d' = t_events t d \<and> t_executions t ?d' = t_executions t d" if h: "t_healthy t ?d'"
    using run_write_db [OF assms(1) stored_statements_in(1) h [unfolded Database_SaveOrder_def]] h sqlite_storeD(2) [OF assms(1)]
    unfolding Database_SaveOrder_def sqlite_writes_def row_keys by blast
  with Some assms(2) show ?thesis
    by (auto simp: with_db_def synced_def order_table_upd)
qed (use assms in \<open>simp add: synced_def\<close>)

lemma synced_event:
  assumes "sqlite_store sq t" and "synced t T es fs (om_db om)"
  shows "synced t T (es @ [ev]) fs (om_db (with_db (Database_AppendEvent sq ev) om))"
proof (cases "om_db om")
  case (Some d)
  let ?d' = "snd (Database_AppendEvent sq ev d)"
  have "t_healthy t d \<and> t_events t d (sint (ev_event_id ev)) = None
      \<and> t_events t ?d' = (t_events t d)(sint (ev_event_id ev) \<mapsto> event_row ev)
      \<and> t_orders t ?d' = t_orders t d \<and> t_executions t ?d' = t_executions t d" if h: "t_healthy t ?d'"
    using run_write_db [OF assms(1) stored_statements_in(2) h [unfolded Database_AppendEvent_def]] h sqlite_storeD(2) [OF assms(1)]
    unfolding Database_AppendEvent_def sqlite_writes_def row_keys by blast
  with Some assms(2) show ?thesis
    by (auto simp: with_db_def synced_def event_table_snoc)
qed (use assms in \<open>simp add: synced_def\<close>)

lemma synced_execution:
  assumes "sqlite_store sq t" and "synced t T es fs (om_db om)"
  shows "synced t T es (fs @ [f]) (om_db (with_db (Database_SaveExecution sq f) om))"
proof (cases "om_db om")
  case (Some d)
  let ?d' = "snd (Database_SaveExecution sq f d)"
  have "t_healthy t d \<and> t_executions t ?d' = (t_executions t d)(sint (fl_execution_id f) \<mapsto> fill_row f)
      \<and> t_orders t ?d' = t_orders t d \<and> t_events t ?d' = t_events t d" if h: "t_healthy t ?d'"
    using run_write_db [OF assms(1) stored_statements_in(3) h [unfolded Database_SaveExecution_def]] h sqlite_storeD(2) [OF assms(1)]
    unfolding Database_SaveExecution_def sqlite_writes_def row_keys by blast
  with Some assms(2) show ?thesis
    by (auto simp: with_db_def synced_def execution_table_snoc)
qed (use assms in \<open>simp add: synced_def\<close>)

text \<open>
  \<open>T\<close> is the table of orders as it is stored, which lags behind the memory within an operation.
\<close>

definition stored :: "'d store_view \<Rightarrow> (order_id \<Rightarrow> order option) \<Rightarrow> 'd order_manager \<Rightarrow> bool" where
  "stored t T om \<longleftrightarrow> synced t T (om_events om) (om_executions om) (om_db om)"

named_theorems stored_intros \<open>what the small steps store\<close>

lemma om_db_simps [simp]:
  "om_db (put_order k ord om) = om_db om" "om_db (om\<lparr>om_clock := c\<rparr>) = om_db om"
  by (simp_all add: put_order_def)

lemma stored_put_order [stored_intros]: "stored t T om \<Longrightarrow> stored t T (put_order k ord om)"
  by (simp add: stored_def om_simps)

lemma stored_frame [stored_intros]:
  "stored t T om \<Longrightarrow> stored t T (om\<lparr>om_clock := c\<rparr>)" "stored t T om \<Longrightarrow> stored t T (om\<lparr>om_engine := e\<rparr>)"
  "stored t T om \<Longrightarrow> stored t T (om\<lparr>om_risk := r\<rparr>)" "stored t T om \<Longrightarrow> stored t T (om\<lparr>om_next_order_id := n\<rparr>)"
  by (simp_all add: stored_def)

lemma stored_AppendEvent [stored_intros]:
  "sqlite_store sq t \<Longrightarrow> stored t T om \<Longrightarrow> stored t T (AppendEvent sq k ty d om)"
  unfolding stored_def AppendEvent_def NextEventId_def
  by (simp add: om_simps Let_def) (rule synced_event, simp_all)

lemma stored_SaveOrder [stored_intros]:
  "sqlite_store sq t \<Longrightarrow> stored t T om \<Longrightarrow> stored t (T(o_internal_id ord \<mapsto> ord)) (with_db (Database_SaveOrder sq ord) om)"
  unfolding stored_def by (simp add: om_simps synced_SaveOrder)

lemma stored_SaveExecution [stored_intros]:
  "sqlite_store sq t \<Longrightarrow> stored t T om \<Longrightarrow>
   stored t T (with_db (Database_SaveExecution sq f) (om\<lparr>om_executions := om_executions om @ [f]\<rparr>))"
  unfolding stored_def by (simp add: om_simps) (rule synced_execution, simp_all)


definition in_step :: "'d store_view \<Rightarrow> 'd order_manager \<Rightarrow> bool" where
  "in_step t om \<longleftrightarrow> stored t (um_find (om_orders om)) om
     \<and> (\<forall>k ord. um_find (om_orders om) k = Some ord \<longrightarrow> o_internal_id ord = k)"

text \<open>Between two states in step: an order is filed and, after some events, saved.\<close>

lemma in_step_save:
  assumes "sqlite_store sq t" and "in_step t om" and "stored t (um_find (om_orders om)) om1"
    and "um_find (om_orders om1) = (um_find (om_orders om))(o_internal_id ord \<mapsto> ord)"
  shows "in_step t (with_db (Database_SaveOrder sq ord) om1)"
  using assms stored_SaveOrder [OF assms(1,3), of ord] by (auto simp: in_step_def om_simps fun_upd_def)

lemma in_step_frame:
  "in_step t om \<Longrightarrow> stored t (um_find (om_orders om)) om' \<Longrightarrow> om_orders om' = om_orders om \<Longrightarrow> in_step t om'"
  by (simp add: in_step_def)

lemma put_order_find: "um_find (om_orders (put_order k ord om)) = (um_find (om_orders om))(k \<mapsto> ord)"
  by (simp add: om_simps umap_simps fun_eq_iff)

lemma in_step_AppendEvent: "sqlite_store sq t \<Longrightarrow> in_step t om \<Longrightarrow> in_step t (AppendEvent sq k ty d om)"
  by (rule in_step_frame) (auto simp: in_step_def om_simps intro: stored_intros)

lemma in_step_apply_passive:
  assumes st: "sqlite_store sq t" and s: "in_step t om"
  shows "in_step t (apply_passive sq f om)"
proof (cases "um_find (om_orders om) (fl_passive_order_id f)")
  case (Some ord)
  with s have k: "o_internal_id ord = fl_passive_order_id f" by (simp add: in_step_def)
  have T: "stored t (um_find (om_orders om)) om" using s by (simp add: in_step_def)
  show ?thesis
    unfolding apply_passive_def Some om_Now_eq Let_def option.case prod.case
    by (rule in_step_save [OF st s]) (use st T k in \<open>auto simp: AppendEvent_simps(5) put_order_find fill_order_def intro!: stored_intros\<close>)
qed (use s in \<open>simp add: apply_passive_def\<close>)

lemma in_step_ApplyFills:
  "sqlite_store sq t \<Longrightarrow> in_step t om \<Longrightarrow> ApplyFills sq ord fs om = (ord', om') \<Longrightarrow> in_step t om'"
proof (induction sq ord fs om rule: ApplyFills.induct)
  case (2 sq ord f fs om)
  have "in_step t (with_db (Database_SaveExecution sq f) (om\<lparr>om_executions := om_executions om @ [f]\<rparr>))"
    by (rule in_step_frame [OF "2.prems"(2)])
      (use "2.prems"(1,2) in \<open>auto simp: in_step_def om_simps intro: stored_SaveExecution\<close>)
  then show ?case
    using "2.IH" [OF refl refl refl refl refl] "2.prems"
    by (simp add: Let_def in_step_apply_passive in_step_AppendEvent)
qed simp


lemma in_step_file:
  assumes st: "sqlite_store sq t" and s: "in_step t om"
  shows "in_step t (with_db (Database_SaveOrder sq ord) (put_order (o_internal_id ord) ord (om\<lparr>om_clock := c\<rparr>)))"
proof (rule in_step_save [OF st s])
  have "stored t (um_find (om_orders om)) om" using s by (simp add: in_step_def)
  then show "stored t (um_find (om_orders om)) (put_order (o_internal_id ord) ord (om\<lparr>om_clock := c\<rparr>))"
    by (intro stored_intros)
qed (simp add: put_order_find fun_upd_def)

lemma in_step_accept_order:
  assumes st: "sqlite_store sq t" and s: "in_step t om" and a: "accept_order sq ord fs om = (ord', om')"
  shows "in_step t om'"
proof -
  let ?om2 = "AppendEvent sq (o_internal_id ord) kAccepted_event '''' (om\<lparr>om_clock := stl (om_clock om)\<rparr>)"
  obtain ord1 om3 where f: "ApplyFills sq (ord\<lparr>o_status := kAccepted, o_updated_at := shd (om_clock om)\<rparr>) fs ?om2 = (ord1, om3)"
    by force
  have "in_step t (om\<lparr>om_clock := stl (om_clock om)\<rparr>)"
    by (rule in_step_frame [OF s]) (use s in \<open>auto simp: in_step_def intro: stored_intros\<close>)
  from in_step_ApplyFills [OF st in_step_AppendEvent [OF st this] f] have 3: "in_step t om3" .
  let ?om4 = "if o_remaining_qty ord1 \<noteq> 0 \<and> o_type ord1 = kMarket \<and> final_status ord1 = kRejected
    then AppendEvent sq (o_internal_id ord) kRejected_event ''no liquidity for market order'' om3 else om3"
  have 4: "in_step t ?om4" using 3 by (simp add: in_step_AppendEvent [OF st])
  have k: "o_internal_id ord1 = o_internal_id ord" using ApplyFills_frame [OF f] by simp
  have om': "om' = with_db (Database_SaveOrder sq ord') (put_order (o_internal_id ord') ord' (?om4\<lparr>om_clock := stl (om_clock ?om4)\<rparr>))"
    using a f k by (auto simp: accept_order_def om_Now_eq Let_def)
  show ?thesis
    unfolding om'
    by (rule in_step_file [OF st 4])
qed

lemma in_step_reject:
  assumes st: "sqlite_store sq t" and s: "in_step t om"
  shows "in_step t (reject_by_risk sq req e om)" "in_step t (reject_by_matching sq ord e om)"
proof -
  have T: "stored t (um_find (om_orders om)) om" using s by (simp add: in_step_def)
  show "in_step t (reject_by_risk sq req e om)"
    unfolding reject_by_risk_def NextOrderId_def om_Now_eq Let_def prod.case
    by (rule in_step_save [OF st s]) (use st T in \<open>auto simp: AppendEvent_simps(5) put_order_find intro!: stored_intros\<close>)
  show "in_step t (reject_by_matching sq ord e om)"
    unfolding reject_by_matching_def om_Now_eq Let_def prod.case
    by (rule in_step_save [OF st s]) (use st T in \<open>auto simp: AppendEvent_simps(5) put_order_find intro!: stored_intros\<close>)
qed

lemma in_step_frames:
  "in_step t om \<Longrightarrow> in_step t (om\<lparr>om_clock := c\<rparr>)" "in_step t om \<Longrightarrow> in_step t (om\<lparr>om_engine := e\<rparr>)"
  "in_step t om \<Longrightarrow> in_step t (om\<lparr>om_risk := r\<rparr>)" "in_step t om \<Longrightarrow> in_step t (om\<lparr>om_next_order_id := n\<rparr>)"
  by (simp_all add: in_step_def stored_intros)

lemma in_step_submit:
  assumes st: "sqlite_store sq t" and s: "in_step t om" and h: "SubmitOrder sq req om = (res, om')"
  shows "in_step t om'"
  using h s
  by (auto simp: SubmitOrder_def NextOrderId_def om_Now_eq Let_def split: if_splits prod.splits sum.splits
      intro!: in_step_reject [OF st] in_step_frames in_step_AppendEvent [OF st] elim!: in_step_accept_order [OF st, rotated])

lemma in_step_cancel:
  assumes st: "sqlite_store sq t" and s: "in_step t om" and h: "OrderManager_CancelOrder sq req om = (res, om')"
  shows "in_step t om'"
proof (cases "um_find (om_orders om) (cr_order_id req)")
  case (Some ord)
  with s have k: "o_internal_id ord = cr_order_id req" by (simp add: in_step_def)
  have T: "stored t (um_find (om_orders om)) om" using s by (simp add: in_step_def)
  show ?thesis
  proof (cases "o_status ord \<in> {kFilled, kCancelled, kRejected}")
    case False
    obtain c v where m: "MatchingEngine_CancelOrder (om_engine om) (o_symbol ord) (o_internal_id ord) = (c, v)" by force
    let ?om2 = "(AppendEvent sq (o_internal_id ord) kCancelRequested '''' om)\<lparr>om_engine := v\<rparr>"
    have 2: "in_step t ?om2" by (intro in_step_frames in_step_AppendEvent [OF st] s)
    show ?thesis
    proof (cases c)
      case (Inl e)
      with h Some False m 2 show ?thesis by (auto simp: OrderManager_CancelOrder_def AppendEvent_simps Let_def)
    next
      case (Inr e)
      let ?ord = "ord\<lparr>o_status := kCancelled, o_updated_at := shd (om_clock ?om2)\<rparr>"
      have om': "om' = with_db (Database_SaveOrder sq ?ord) (AppendEvent sq (o_internal_id ?ord) kCancelled_event ''''
          (put_order (o_internal_id ?ord) ?ord (?om2\<lparr>om_clock := stl (om_clock ?om2)\<rparr>)))"
        using h Some False m Inr k by (auto simp: OrderManager_CancelOrder_def AppendEvent_simps om_Now_eq Let_def)
      show ?thesis
        unfolding om'
        by (rule in_step_save [OF st 2])
          (use 2 st in \<open>auto simp: in_step_def AppendEvent_simps(5) put_order_find intro!: stored_intros\<close>)
    qed
  qed (use h Some s in \<open>auto simp: OrderManager_CancelOrder_def\<close>)
qed (use h s in \<open>simp add: OrderManager_CancelOrder_def\<close>)

lemma in_step_step: "sqlite_store sq t \<Longrightarrow> om_step sq om om' \<Longrightarrow> in_step t om \<Longrightarrow> in_step t om'"
  by (auto elim!: om_stepE intro: in_step_submit in_step_cancel in_step_frames(1) [OF in_step_frames(3), simplified])

lemma in_step_steps: "(om_step sq)\<^sup>*\<^sup>* om om' \<Longrightarrow> sqlite_store sq t \<Longrightarrow> in_step t om \<Longrightarrow> in_step t om'"
  by (induction rule: rtranclp_induct) (auto intro: in_step_step)


subsection \<open>Reading the tables back\<close>

lemma those_map_Some: "(\<And>x. x \<in> set xs \<Longrightarrow> f x = Some (g x)) \<Longrightarrow> those (map f xs) = Some (map g xs)"
  by (induction xs) auto

lemma decode_rows:
  assumes dec: "\<And>a. a \<in> A \<Longrightarrow> decode (enc a) = Some a" and rows: "set rows = enc ` A"
  shows "\<exists>as. rows = map enc as \<and> those (map decode rows) = Some as \<and> set as = A"
proof -
  let ?as = "map (the \<circ> decode) rows"
  have "enc (the (decode r)) = r \<and> decode r = Some (the (decode r))" if "r \<in> set rows" for r
    using that rows dec by auto
  then have "map enc ?as = rows" "those (map decode rows) = Some ?as"
    by (auto intro: map_idI those_map_Some)
  moreover have "set ?as = A" using rows dec by (force simp: image_image)
  ultimately show ?thesis by (metis)
qed

lemma ordered_rows_unique: "ordered_rows tab rows \<Longrightarrow> ordered_rows tab rows' \<Longrightarrow> rows = rows'"
  unfolding ordered_rows_def
  by (rule sorted_wrt_unique [of "\<lambda>r s. row_key r < row_key s"]) auto

lemma sint_small: "(w :: u64) < 2 ^ 63 \<Longrightarrow> sint w = uint w"
proof -
  assume "(w :: u64) < 2 ^ 63"
  then have "uint w < 2 ^ 63" by (simp add: word_less_def)
  then have "in_i64 (uint w)" using order_trans [OF _ uint_ge_0, of i64_min w] by (simp add: in_i64_def i64_min_def i64_max_def)
  from sint_word_of_int [OF this] show ?thesis by simp
qed

lemma numbered_keys:
  assumes "map f xs = map (of_nat :: nat \<Rightarrow> u64) [1..<Suc n]" and "n < 2 ^ 63"
  shows "sorted_wrt (<) (map (\<lambda>x. sint (f x)) xs)"
proof -
  have "map (\<lambda>x. sint (f x)) xs = map sint (map f xs)" by simp
  also have "\<dots> = map int [1..<Suc n]"
    unfolding assms(1) map_map
  proof (rule map_cong [OF refl])
    fix i assume "i \<in> set [1..<Suc n]"
    then have "i < 2 ^ 63" using assms(2) by (auto simp del: upt_Suc)
    then show "(sint \<circ> (of_nat :: nat \<Rightarrow> u64)) i = int i"
      using sint_word_of_int [of "int i"] by (simp add: in_i64_def i64_min_def i64_max_def)
  qed
  finally show ?thesis by (simp add: sorted_wrt_map del: upt_Suc)
qed

lemma ordered_table:
  assumes "sorted_wrt (<) (map key xs)" and "\<And>x. row_key (row x) = key x"
  shows "ordered_rows (map_of (map (\<lambda>x. (key x, row x)) xs)) (map row xs)"
    "ordered_rows (map_of (rev (map (\<lambda>x. (key x, row x)) xs))) (map row xs)"
proof -
  have "distinct (map fst (map (\<lambda>x. (key x, row x)) xs))"
    using assms(1) by (simp add: comp_def strict_sorted_iff)
  then have "ran (map_of (map (\<lambda>x. (key x, row x)) xs)) = row ` set xs"
    "ran (map_of (rev (map (\<lambda>x. (key x, row x)) xs))) = row ` set xs"
    by (auto simp: ran_distinct rev_map [symmetric] image_image)
  then show "ordered_rows (map_of (map (\<lambda>x. (key x, row x)) xs)) (map row xs)"
    "ordered_rows (map_of (rev (map (\<lambda>x. (key x, row x)) xs))) (map row xs)"
    using assms by (simp_all add: ordered_rows_def sorted_wrt_map)
qed

lemma ran_order_table: "ran (order_table T) = order_row ` ran T"
proof
  show "ran (order_table T) \<subseteq> order_row ` ran T"
    by (auto simp: ran_def order_table_def split: if_splits)
  show "order_row ` ran T \<subseteq> ran (order_table T)"
  proof
    fix row assume "row \<in> order_row ` ran T"
    then obtain k ord where "T k = Some ord" "row = order_row ord" by (auto simp: ran_def)
    then have "order_table T (sint k) = Some row" by (simp add: order_table_def)
    then show "row \<in> ran (order_table T)" by (rule ranI)
  qed
qed


subsection \<open>A restart\<close>

text \<open>Values that the columns of the tables can hold: 64-bit numbers and texts without NUL.\<close>

definition no_nul :: "string \<Rightarrow> bool" where
  "no_nul s \<longleftrightarrow> CHR 0x00 \<notin> set s"

definition order_storable :: "order \<Rightarrow> bool" where
  "order_storable ord \<longleftrightarrow> order_in_range ord \<and> no_nul (o_client_order_id ord) \<and> no_nul (sym_value (o_symbol ord))"

definition event_storable :: "order_event \<Rightarrow> bool" where
  "event_storable ev \<longleftrightarrow> in_i64 (ev_timestamp ev) \<and> no_nul (ev_detail ev)"

definition fill_storable :: "fill \<Rightarrow> bool" where
  "fill_storable f \<longleftrightarrow> list_all in_i64 [fl_price f, fl_quantity f, fl_timestamp f] \<and> no_nul (sym_value (fl_symbol f))"

definition storable :: "'d order_manager \<Rightarrow> bool" where
  "storable om \<longleftrightarrow> list_all (order_storable \<circ> snd) (om_orders om) \<and> list_all event_storable (om_events om)
     \<and> list_all fill_storable (om_executions om) \<and> om_next_order_id om \<le> 2 ^ 63
     \<and> length (om_events om) < 2 ^ 63 \<and> length (om_executions om) < 2 ^ 63"

lemma decode_storable:
  assumes "sqlite_columns sq"
  shows "order_storable ord \<Longrightarrow> RowToOrder sq (order_row ord) = Some ord"
    "event_storable ev \<Longrightarrow> RowToEvent sq (event_row ev) = Some ev"
    "fill_storable f \<Longrightarrow> RowToFill sq (fill_row f) = Some f"
  using assms
  by (simp_all add: RowToOrder_def order_row_def RowToEvent_def event_row_def RowToFill_def fill_row_def no_nul_def
      order_in_range_def ToNanos_def FromNanos_def order_storable_def event_storable_def fill_storable_def c_str_id)

lemma run_query_db:
  assumes "sqlite_store sq t" and "sql \<in> set stored_statements" and "run_query sq sql params decode d = (res, d')"
    and "t_healthy t d'"
  shows "\<exists>rows rc. sq_step sq sql params d = (rows, rc, d') \<and> res = Inr (those (map decode rows))"
  using assms(3,4) sqlite_storeD(4) [OF assms(1,2)] by (cases "sq_prepare sq sql d") (auto simp: run_query_def split: prod.splits)

lemma loads_quiet:
  assumes "sqlite_store sq t" and "t_healthy t d'"
  shows "Database_LoadOrders sq d = (res1, d') \<Longrightarrow> t_healthy t d \<and> same_rows t d d'"
    "Database_LoadAllEvents sq d = (res2, d') \<Longrightarrow> t_healthy t d \<and> same_rows t d d'"
    "Database_LoadExecutions sq d = (res3, d') \<Longrightarrow> t_healthy t d \<and> same_rows t d d'"
  using run_query_db [OF assms(1) _ _ assms(2)] sqlite_storeD(3) [OF assms(1)] assms(2)
  unfolding Database_LoadOrders_def Database_LoadAllEvents_def Database_LoadExecutions_def sqlite_queries_def
  by (metis stored_statements_in)+

lemma LoadOrders_stored:
  assumes sq: "sqlite_store sq t" and load: "Database_LoadOrders sq d = (res, d')" and h: "t_healthy t d'"
    and tab: "t_orders t d = order_table T"
    and T: "\<And>k ord. T k = Some ord \<Longrightarrow> o_internal_id ord = k \<and> k < 2 ^ 63 \<and> order_storable ord"
  shows "t_healthy t d \<and> same_rows t d d'
    \<and> (\<exists>ords. res = Inr (Some ords) \<and> sorted_wrt (<) (map o_internal_id ords) \<and> set ords = ran T)"
proof -
  obtain rows rc where step: "sq_step sq sql_load_orders [] d = (rows, rc, d')" "res = Inr (those (map (RowToOrder sq) rows))"
    using run_query_db [OF sq stored_statements_in(4) load [unfolded Database_LoadOrders_def] h] by blast
  then have d: "t_healthy t d" "same_rows t d d'" and rows: "ordered_rows (order_table T) rows"
    using sqlite_storeD(3) [OF sq] h tab unfolding sqlite_queries_def by metis+
  have cols: "sqlite_columns sq" using sq by (simp add: sqlite_store_def)
  have ids: "o_internal_id ord < 2 ^ 63 \<and> order_storable ord" if "ord \<in> ran T" for ord
    using T that by (auto simp: ran_def)
  have "\<exists>ords. rows = map order_row ords \<and> those (map (RowToOrder sq) rows) = Some ords \<and> set ords = ran T"
    using rows ids by (intro decode_rows) (auto simp: decode_storable(1) [OF cols] ordered_rows_def ran_order_table)
  then obtain ords where ords: "rows = map order_row ords" "those (map (RowToOrder sq) rows) = Some ords" "set ords = ran T"
    by blast
  have "sorted_wrt (\<lambda>x y. sint (o_internal_id x) < sint (o_internal_id y)) ords"
    using rows unfolding ords(1) by (simp add: ordered_rows_def sorted_wrt_map)
  then have "sorted_wrt (\<lambda>x y. o_internal_id x < o_internal_id y) ords"
    by (rule sorted_wrt_mono_rel [rotated]) (use ids ords(3) in \<open>simp add: sint_small word_less_def\<close>)
  then have "sorted_wrt (<) (map o_internal_id ords)" by (simp add: sorted_wrt_map)
  with step ords d show ?thesis by simp
qed

lemma LoadAllEvents_stored:
  assumes sq: "sqlite_store sq t" and load: "Database_LoadAllEvents sq d = (res, d')" and h: "t_healthy t d'"
    and tab: "t_events t d = event_table es"
    and es: "sorted_wrt (<) (map (\<lambda>ev. sint (ev_event_id ev)) es)" "list_all event_storable es"
  shows "t_healthy t d \<and> same_rows t d d' \<and> res = Inr (Some es)"
proof -
  obtain rows rc where step: "sq_step sq sql_load_all_events [] d = (rows, rc, d')" "res = Inr (those (map (RowToEvent sq) rows))"
    using run_query_db [OF sq stored_statements_in(5) load [unfolded Database_LoadAllEvents_def] h] by blast
  then have d: "t_healthy t d" "same_rows t d d'" and rows: "ordered_rows (event_table es) rows"
    using sqlite_storeD(3) [OF sq] h tab unfolding sqlite_queries_def by metis+
  have cols: "sqlite_columns sq" using sq by (simp add: sqlite_store_def)
  have "rows = map event_row es"
    by (rule ordered_rows_unique [OF rows]) (simp add: event_table_def ordered_table(1) [OF es(1)])
  moreover have "those (map (RowToEvent sq) (map event_row es)) = Some (map id es)"
    unfolding map_map using es(2) by (intro those_map_Some) (simp add: decode_storable(2) [OF cols] list_all_iff)
  ultimately show ?thesis using step d by simp
qed

lemma LoadExecutions_stored:
  assumes sq: "sqlite_store sq t" and load: "Database_LoadExecutions sq d = (res, d')" and h: "t_healthy t d'"
    and tab: "t_executions t d = execution_table fs"
    and fs: "sorted_wrt (<) (map (\<lambda>f. sint (fl_execution_id f)) fs)" "list_all fill_storable fs"
  shows "t_healthy t d \<and> same_rows t d d' \<and> res = Inr (Some fs)"
proof -
  obtain rows rc where step: "sq_step sq sql_load_executions [] d = (rows, rc, d')" "res = Inr (those (map (RowToFill sq) rows))"
    using run_query_db [OF sq stored_statements_in(6) load [unfolded Database_LoadExecutions_def] h] by blast
  then have d: "t_healthy t d" "same_rows t d d'" and rows: "ordered_rows (execution_table fs) rows"
    using sqlite_storeD(3) [OF sq] h tab unfolding sqlite_queries_def by metis+
  have cols: "sqlite_columns sq" using sq by (simp add: sqlite_store_def)
  have "rows = map fill_row fs"
    by (rule ordered_rows_unique [OF rows]) (simp add: execution_table_def ordered_table(2) [OF fs(1)])
  moreover have "those (map (RowToFill sq) (map fill_row fs)) = Some (map id fs)"
    unfolding map_map using fs(2) by (intro those_map_Some) (simp add: decode_storable(3) [OF cols] list_all_iff)
  ultimately show ?thesis using step d by simp
qed

text \<open>
  The calls of a start, one after the other: the two pragmas, the schema, the startup record, and the
  three queries of the recovery. A start is quiet when none of them fails.
\<close>

definition open_db :: "'d sqlite \<Rightarrow> 'd \<Rightarrow> 'd" where
  "open_db sq d = snd (sq_exec sq ''PRAGMA foreign_keys=ON;'' (snd (sq_exec sq ''PRAGMA journal_mode=WAL;'' d)))"

definition recorded_db :: "'d sqlite \<Rightarrow> string \<Rightarrow> clock \<Rightarrow> 'd \<Rightarrow> 'd" where
  "recorded_db sq path clk d =
     fst (snd (Database_AppendAudit sq ''startup'' (''opened '' @ path) clk (snd (Migrate sq (open_db sq d)))))"

definition loaded_db :: "'d sqlite \<Rightarrow> 'd \<Rightarrow> 'd" where
  "loaded_db sq d = snd (Database_LoadExecutions sq (snd (Database_LoadAllEvents sq (snd (Database_LoadOrders sq d)))))"

definition quiet_start :: "'d sqlite \<Rightarrow> 'd store_view \<Rightarrow> string \<Rightarrow> clock \<Rightarrow> 'd order_manager \<Rightarrow> bool" where
  "quiet_start sq t path clk om \<longleftrightarrow> (case om_db om of None \<Rightarrow> False
     | Some d \<Rightarrow> t_healthy t (loaded_db sq (recorded_db sq path clk d)))"

lemma server_main_reads:
  assumes sq: "sqlite_store sq t" and db: "sq_open sq (c_str (db_path_of args)) = Some d"
    and h: "t_healthy t (recorded_db sq (db_path_of args) clk d)"
  shows "t_healthy t d \<and> same_rows t d (recorded_db sq (db_path_of args) clk d) \<and> server_main sq args clk =
        (case RestoreFromDatabase sq (OrderManager (RiskManager default_limits) MatchingEngine
             (Some (recorded_db sq (db_path_of args) clk d)) (stl clk)) of
           None \<Rightarrow> None | Some (Inl e, om) \<Rightarrow> Some (RecoveryFailed om)
         | Some (Inr u, om) \<Rightarrow> Some (Listening (port_of args) (db_path_of args) om))"
proof -
  let ?path = "db_path_of args"
  let ?params = "[bind_text ''startup'', bind_text (''opened '' @ ?path), SqlInt (ToNanos (shd clk))]"
  obtain ok1 d1 where d1: "sq_exec sq ''PRAGMA journal_mode=WAL;'' d = (ok1, d1)" by force
  obtain ok2 d2 where d2: "sq_exec sq ''PRAGMA foreign_keys=ON;'' d1 = (ok2, d2)" by force
  obtain ok3 d3 where d3: "sq_exec sq (c_str kSchema) d2 = (ok3, d3)" by force
  have o: "open_db sq d = d2" by (simp add: open_db_def d1 d2)
  have m: "snd (Migrate sq d2) = d3" by (simp add: Migrate_def Database_Exec_def d3)
  have r: "recorded_db sq ?path clk d = snd (run_write sq sql_append_audit ?params d3)"
    by (simp add: recorded_db_def o m Database_AppendAudit_def Now_def run_write_def split: prod.splits)
  have "\<exists>rows rc. sq_step sq sql_append_audit ?params d3 = (rows, rc, recorded_db sq ?path clk d)"
    using run_write_db [OF sq stored_statements_in(7)] h unfolding r by blast
  then have 3: "t_healthy t d3" "same_rows t d3 (recorded_db sq ?path clk d)"
    using sqlite_storeD(2) [OF sq] h unfolding sqlite_writes_def by metis+
  have scripts: "''PRAGMA journal_mode=WAL;'' \<in> set start_scripts" "''PRAGMA foreign_keys=ON;'' \<in> set start_scripts"
    "c_str kSchema \<in> set start_scripts"
    by (simp_all add: start_scripts_def)
  note exec = sqlite_storeD(5) [OF sq]
  from exec [OF scripts(3) d3 3(1)] have 2: "t_healthy t d2" "ok3" "same_rows t d2 d3" by simp_all
  from exec [OF scripts(2) d2 2(1)] have 1: "t_healthy t d1" "same_rows t d1 d2" by simp_all
  from exec [OF scripts(1) d1 1(1)] have 0: "t_healthy t d" "same_rows t d d1" by simp_all
  have "\<exists>res. Database_AppendAudit sq ''startup'' (''opened '' @ ?path) clk d3 = (res, recorded_db sq ?path clk d, stl clk)"
    unfolding r Database_AppendAudit_def Now_def
    by (cases "run_write sq sql_append_audit ?params d3")
      (simp add: sqlite_storeD(4) [OF sq stored_statements_in(7) 3(1)])
  then obtain res where a: "Database_AppendAudit sq ''startup'' (''opened '' @ ?path) clk d3 = (res, recorded_db sq ?path clk d, stl clk)" ..
  have "server_main sq args clk =
        (case RestoreFromDatabase sq (OrderManager (RiskManager default_limits) MatchingEngine
             (Some (recorded_db sq ?path clk d)) (stl clk)) of
           None \<Rightarrow> None | Some (Inl e, om) \<Rightarrow> Some (RecoveryFailed om)
         | Some (Inr u, om) \<Rightarrow> Some (Listening (port_of args) ?path om))"
    using d1 d2 d3 2(2) a
    by (simp add: server_main_def Database_Open_def db Migrate_def Database_Exec_def Let_def)
  with 0 1 2 3 show ?thesis by (blast intro: same_rows_trans)
qed

lemma storableD:
  assumes "storable om" and "sequenced om" and "numbered om"
  shows "um_find (om_orders om) k = Some ord \<Longrightarrow> order_storable ord \<and> k < 2 ^ 63"
    "sorted_wrt (<) (map (\<lambda>ev. sint (ev_event_id ev)) (om_events om))"
    "sorted_wrt (<) (map (\<lambda>f. sint (fl_execution_id f)) (om_executions om))"
proof -
  show "sorted_wrt (<) (map (\<lambda>ev. sint (ev_event_id ev)) (om_events om))"
    "sorted_wrt (<) (map (\<lambda>f. sint (fl_execution_id f)) (om_executions om))"
    using assms unfolding numbered_def sequenced_def storable_def by (blast intro: numbered_keys)+
  assume k: "um_find (om_orders om) k = Some ord"
  then have "k < om_next_order_id om" using assms(2) by (auto simp: sequenced_def dom_def)
  moreover have "order_storable ord"
    using assms(1) map_of_SomeD [of "om_orders om" k ord] k by (auto simp: storable_def list_all_iff)
  ultimately show "order_storable ord \<and> k < 2 ^ 63"
    using assms(1) by (auto simp: storable_def)
qed

lemma loads_reopened:
  "Database_LoadOrders (sq\<lparr>sq_open := f\<rparr>) = Database_LoadOrders sq"
  "Database_LoadAllEvents (sq\<lparr>sq_open := f\<rparr>) = Database_LoadAllEvents sq"
  "Database_LoadExecutions (sq\<lparr>sq_open := f\<rparr>) = Database_LoadExecutions sq"
  "RestoreFromDatabase (sq\<lparr>sq_open := f\<rparr>) = RestoreFromDatabase sq"
proof -
  let ?sq = "sq\<lparr>sq_open := f\<rparr>"
  have calls: "sq_prepare ?sq = sq_prepare sq" "sq_step ?sq = sq_step sq" "sq_column_int64 ?sq = sq_column_int64 sq"
    "sq_column_int ?sq = sq_column_int sq" "sq_column_text ?sq = sq_column_text sq"
    by simp_all
  have rows: "RowToOrder ?sq = RowToOrder sq" "RowToEvent ?sq = RowToEvent sq" "RowToFill ?sq = RowToFill sq"
    unfolding RowToOrder_def [abs_def] RowToEvent_def [abs_def] RowToFill_def [abs_def] column_u64_def column_string_def calls
    by (rule refl)+
  show "Database_LoadOrders (sq\<lparr>sq_open := f\<rparr>) = Database_LoadOrders sq"
    "Database_LoadAllEvents (sq\<lparr>sq_open := f\<rparr>) = Database_LoadAllEvents sq"
    "Database_LoadExecutions (sq\<lparr>sq_open := f\<rparr>) = Database_LoadExecutions sq"
    unfolding Database_LoadOrders_def [abs_def] Database_LoadAllEvents_def [abs_def]
      Database_LoadExecutions_def [abs_def] run_query_def [abs_def] calls rows
    by (rule refl)+
  note loads = this
  show "RestoreFromDatabase (sq\<lparr>sq_open := f\<rparr>) = RestoreFromDatabase sq"
    unfolding RestoreFromDatabase_def [abs_def] loads by (rule refl)
qed

text \<open>
  The file at a path keeps its content between two processes: the next one that opens it finds the
  database as the last one left it. A database at the empty path or at \<open>:memory:\<close> is gone with its
  process.
\<close>

definition on_disk :: "string \<Rightarrow> bool" where
  "on_disk path \<longleftrightarrow> c_str path \<noteq> '''' \<and> c_str path \<noteq> '':memory:''"

definition reopened :: "'d sqlite \<Rightarrow> string \<Rightarrow> 'd order_manager \<Rightarrow> 'd sqlite" where
  "reopened sq path om = sq\<lparr>sq_open := (\<lambda>p. if p = c_str path \<and> on_disk path then om_db om else sq_open sq p)\<rparr>"

lemma reopened_calls:
  "sq_open (reopened sq path om) (c_str path) = (if on_disk path then om_db om else sq_open sq (c_str path))"
  "sqlite_store (reopened sq path om) t \<longleftrightarrow> sqlite_store sq t"
  "recorded_db (reopened sq path om) = recorded_db sq" "RestoreFromDatabase (reopened sq path om) = RestoreFromDatabase sq"
proof -
  let ?sq = "reopened sq path om"
  show "sq_open ?sq (c_str path) = (if on_disk path then om_db om else sq_open sq (c_str path))"
    by (simp add: reopened_def)
  have calls: "sq_exec ?sq = sq_exec sq" "sq_prepare ?sq = sq_prepare sq" "sq_step ?sq = sq_step sq"
    "sq_column_int64 ?sq = sq_column_int64 sq" "sq_column_int ?sq = sq_column_int sq" "sq_column_text ?sq = sq_column_text sq"
    by (simp_all add: reopened_def)
  show "sqlite_store ?sq t \<longleftrightarrow> sqlite_store sq t"
    unfolding sqlite_store_def sqlite_columns_def sqlite_writes_def sqlite_queries_def calls by (rule refl)
  show "recorded_db ?sq = recorded_db sq"
    unfolding recorded_db_def [abs_def] open_db_def [abs_def] Migrate_def Database_Exec_def Database_AppendAudit_def
      run_write_def calls
    by (rule refl)
  show "RestoreFromDatabase ?sq = RestoreFromDatabase sq"
    unfolding reopened_def by (rule loads_reopened)
qed

lemma restart:
  assumes sq: "sqlite_store sq t" and s: "in_step t om" and inv: "om_inv om" and fits: "storable om"
    and disk: "on_disk (db_path_of args)" and quiet: "quiet_start sq t (db_path_of args) clk' om"
  shows "\<exists>om'. server_main (reopened sq (db_path_of args) om) args clk' =
      Some (Listening (port_of args) (db_path_of args) om')
    \<and> um_find (om_orders om') = um_find (om_orders om) \<and> om_events om' = om_events om
    \<and> om_executions om' = om_executions om \<and> om_next_order_id om' = om_next_order_id om
    \<and> me_next_execution_id (om_engine om') = me_next_execution_id (om_engine om)
    \<and> resting (om_engine om') = resting (om_engine om) \<and> in_step t om' \<and> restart_step sq om om'"
proof -
  let ?path = "db_path_of args" and ?sq = "reopened sq (db_path_of args) om"
  have ok: "om_ok om" "sequenced om" "numbered om" using inv by (simp_all add: om_inv_def)
  obtain d where db: "om_db om = Some d" and h: "t_healthy t (loaded_db sq (recorded_db sq ?path clk' d))"
    using quiet by (auto simp: quiet_start_def split: option.splits)
  have s': "t_healthy t d \<Longrightarrow> t_orders t d = order_table (um_find (om_orders om))
      \<and> t_events t d = event_table (om_events om) \<and> t_executions t d = execution_table (om_executions om)"
    using s db by (simp add: in_step_def stored_def synced_def)
  define d0 where "d0 = recorded_db sq ?path clk' d"
  obtain r1 d1 where L: "Database_LoadOrders sq d0 = (r1, d1)" by force
  obtain r2 d2 where E: "Database_LoadAllEvents sq d1 = (r2, d2)" by force
  obtain r3 d3 where F: "Database_LoadExecutions sq d2 = (r3, d3)" by force
  have h3: "t_healthy t d3" using h by (simp add: loaded_db_def d0_def [symmetric] L E F)
  note quiet3 = loads_quiet(3) [OF sq h3 F] note quiet2 = loads_quiet(2) [OF sq _ E] note quiet1 = loads_quiet(1) [OF sq _ L]
  have h2: "t_healthy t d2" "same_rows t d2 d3" using quiet3 by simp_all
  have h1: "t_healthy t d1" "same_rows t d1 d2" using quiet2 [OF h2(1)] by simp_all
  have h0: "t_healthy t d0" "same_rows t d0 d1" using quiet1 [OF h1(1)] by simp_all
  have start: "t_healthy t d" "same_rows t d d0" and main: "server_main ?sq args clk' =
        (case RestoreFromDatabase sq (OrderManager (RiskManager default_limits) MatchingEngine (Some d0) (stl clk')) of
           None \<Rightarrow> None | Some (Inl e, om) \<Rightarrow> Some (RecoveryFailed om)
         | Some (Inr u, om) \<Rightarrow> Some (Listening (port_of args) ?path om))"
    using server_main_reads [of ?sq t args d clk'] sq db disk h0(1) unfolding reopened_calls d0_def by simp_all
  note same = same_rows_def [of t d d0] same_rows_def [of t d0 d1] same_rows_def [of t d1 d2] same_rows_def [of t d2 d3]
  have tabs: "t_orders t d0 = order_table (um_find (om_orders om))" "t_events t d1 = event_table (om_events om)"
    "t_executions t d2 = execution_table (om_executions om)" "synced t (um_find (om_orders om)) (om_events om) (om_executions om) (Some d3)"
    using s' start h0 h1 h2 same by (simp_all add: synced_def)
  have T: "o_internal_id ord = k \<and> k < 2 ^ 63 \<and> order_storable ord" if "um_find (om_orders om) k = Some ord" for k ord
    using that s storableD(1) [OF fits ok(2,3) that] by (simp add: in_step_def)
  obtain ords where L': "r1 = Inr (Some ords)" "sorted_wrt (<) (map o_internal_id ords)" "set ords = ran (um_find (om_orders om))"
    using LoadOrders_stored [OF sq L h1(1) tabs(1)] T by blast
  have EF: "r2 = Inr (Some (om_events om))" "r3 = Inr (Some (om_executions om))"
    using LoadAllEvents_stored [OF sq E h2(1) tabs(2)] LoadExecutions_stored [OF sq F h3 tabs(3)] ok fits
    by (simp_all add: storableD storable_def)
  note loads = L [unfolded L'(1)] E [unfolded EF(1)] F [unfolded EF(2)]
  have len: "length (om_events om) < 2 ^ 64" "Suc (length (om_executions om)) < 2 ^ 64" using fits by (simp_all add: storable_def)
  from RestoreFromDatabase_rebuilds [OF ok len loads L'(2,3), of "RiskManager default_limits" "stl clk'"] obtain om' where
    R: "RestoreFromDatabase sq (OrderManager (RiskManager default_limits) MatchingEngine (Some d0) (stl clk')) = Some (Inr (), om')"
      "um_find (om_orders om') = um_find (om_orders om)" "om_events om' = om_events om" "om_executions om' = om_executions om"
      "om_next_order_id om' = om_next_order_id om" "om_next_event_id om' = om_next_event_id om"
      "me_next_execution_id (om_engine om') = me_next_execution_id (om_engine om)"
      "resting (om_engine om') = resting (om_engine om)" "om_db om' = Some d3" "restoring om'" by blast
  have "in_step t om'" using s tabs(4) by (simp add: in_step_def stored_def R)
  moreover have "holds_rows sq om d0" using loads L'(2,3) unfolding holds_rows_def by blast
  then have "restart_step sq om om'" using R(1) len by (blast intro: step_restart)
  ultimately show ?thesis using R(2-8) by (simp add: main R(1))
qed

text \<open>
  The life of a server on one database file: it starts on empty tables, serves any operations, and is
  started again any number of times on the same file, as long as the columns can hold the values of
  its state and no call to SQLite has failed up to the end of the start.
\<close>

inductive service :: "'d sqlite \<Rightarrow> 'd store_view \<Rightarrow> string \<Rightarrow> 'd order_manager \<Rightarrow> bool" for sq t path where
  first_start: "t_orders t d = Map.empty \<Longrightarrow> t_events t d = Map.empty \<Longrightarrow> t_executions t d = Map.empty \<Longrightarrow>
    service sq t path (OrderManager risk MatchingEngine (Some d) clk)"
| operation: "service sq t path om \<Longrightarrow> om_step sq om om' \<Longrightarrow> service sq t path om'"
| started_again: "service sq t path om \<Longrightarrow> storable om \<Longrightarrow> on_disk path \<Longrightarrow> db_path_of args = path \<Longrightarrow>
    quiet_start sq t path clk om \<Longrightarrow>
    server_main (reopened sq path om) args clk = Some (Listening port p om') \<Longrightarrow> service sq t path om'"

text \<open>All that was shown of reachable order managers holds of a server, restarts included.\<close>

lemma service_reachable: "service sq t path om \<Longrightarrow> sqlite_store sq t \<Longrightarrow> reachable_om sq om \<and> in_step t om"
proof (induction rule: service.induct)
  case (first_start d risk clk)
  then have "in_step t (OrderManager risk MatchingEngine (Some d) clk)"
    by (simp add: in_step_def stored_def synced_def OrderManager_def order_table_def event_table_def
        execution_table_def fun_eq_iff)
  then show ?case using fresh_om by blast
next
  case (operation om om')
  then show ?case using reachable_om_step in_step_step by blast
next
  case (started_again om args clk port p om')
  then obtain om'' where "server_main (reopened sq path om) args clk = Some (Listening (port_of args) path om'')"
    "in_step t om''" "restart_step sq om om''"
    using restart [of sq t om args clk] om_inv_reachable by blast
  with started_again show ?case by (auto intro: next_om)
qed

lemma service_run: "(om_step sq)\<^sup>*\<^sup>* om om' \<Longrightarrow> service sq t path om \<Longrightarrow> service sq t path om'"
  by (induction rule: rtranclp_induct) (auto intro: operation)

text \<open>
  C1: Nothing is lost over a restart, as long as no call to SQLite fails. Take the order manager of a
  server that started on an empty database file, went through any sequence of submits, cancels and
  changes of the risk state, and may have been started again any number of times on the same file,
  with values the columns can hold (64-bit numbers, texts without NUL, fewer than 2^63 ids). If no
  SQLite call has failed so far and none fails during the start, starting the server again on that
  file succeeds, and the new order manager answers GetOrder, GetEvents and GetAllExecutions as the
  old one did, continues the order ids and the execution ids where they stopped, and its books hold
  the same resting orders with the same quantities in the same priority. The risk manager is not part
  of this: it starts empty. A database at the empty path or at :memory: is excluded, and so is a run in
  which a write failed: the code drops the result of every write, and the order is lost at the next start.
\<close>

theorem restart_restores_state:
  assumes "sqlite_store sq t" and "service sq t path om" and "storable om" and "on_disk path"
    and "db_path_of args = path" and "quiet_start sq t path clk' om"
  shows "\<exists>om'. server_main (reopened sq path om) args clk' = Some (Listening (port_of args) path om')
    \<and> GetOrder om' = GetOrder om \<and> GetEvents om' = GetEvents om \<and> GetAllExecutions om' = GetAllExecutions om
    \<and> om_next_order_id om' = om_next_order_id om
    \<and> me_next_execution_id (om_engine om') = me_next_execution_id (om_engine om)
    \<and> resting (om_engine om') = resting (om_engine om)"
proof -
  have "in_step t om" "om_inv om" using service_reachable assms(1,2) om_inv_reachable by blast+
  from restart [OF assms(1) this assms(3), of args clk'] assms(4-6) show ?thesis
    by (auto simp: GetOrder_def GetEvents_def GetAllExecutions_def fun_eq_iff)
qed

text \<open>
  The records of a running server agree however often it was started again. An id that GetOrder
  knows belongs to one order whose quantity splits into what the recorded executions give it and
  what remains; its events replay to its status; and it rests in a book exactly when it is open, on
  the book of its symbol and its side, with its price and what remains of it. An id that GetOrder
  does not know rests nowhere, has no executions, and its events replay to nothing.
\<close>

theorem records_agree_after_restarts:
  assumes "sqlite_store sq t" and "service sq t path om"
  shows "case GetOrder om k of
      Inl e \<Rightarrow> e = kOrderNotFound \<and> replay (GetEvents om k) = NoEvents \<and> executed k (GetAllExecutions om) = 0
        \<and> (\<forall>sv sd. k \<notin> fst ` set (resting (om_engine om) sv sd))
    | Inr ord \<Rightarrow> o_internal_id ord = k \<and> 0 < o_order_qty ord \<and> 0 \<le> o_remaining_qty ord
        \<and> o_order_qty ord = executed k (GetAllExecutions om) + o_remaining_qty ord
        \<and> replay (GetEvents om k) = Status (o_status ord)
        \<and> (\<forall>sv sd p q. (k, p, q) \<in> set (resting (om_engine om) sv sd) \<longleftrightarrow>
             is_open ord \<and> sv = sym_value (o_symbol ord) \<and> sd = o_side ord \<and> p = o_price ord \<and> q = o_remaining_qty ord)"
proof -
  have inv: "om_ok om" "sequenced om" "replays om k" using service_reachable [OF assms(2,1)] om_inv_reachable by (auto simp: om_inv_def)
  note D = om_okD [OF inv(1)]
  have rest: "(k, p, q) \<in> set (resting (om_engine om) sv sd) \<longleftrightarrow> order_view sv (um_find (om_orders om) k) = Some (sd, p, q)"
    for sv sd p q
    by (simp add: resting_set [OF books_ok_sequenced [OF inv(1,2)] D(3)])
  show ?thesis
  proof (cases "um_find (om_orders om) k")
    case None
    then have "k \<notin> fill_parties (om_executions om)" using D(5) by (auto simp: dom_def)
    with None inv(3) rest show ?thesis
      by (auto simp: GetOrder_def replays_def GetAllExecutions_def executed_none order_view_def)
  next
    case (Some ord)
    with D(4) [OF Some] inv(3) rest show ?thesis
      by (auto simp: GetOrder_def replays_def GetAllExecutions_def order_ok_def order_view_def)
  qed
qed

subsection \<open>A database in memory\<close>

text \<open>
  A store that behaves as assumed: the three tables as lists of rows, and a flag that an INSERT on a
  key that is taken clears. Then a run in which an order is filled and another one rests.
\<close>

type_synonym memory = "sql_row list \<times> sql_row list \<times> sql_row list \<times> bool"

definition rows_map :: "sql_row list \<Rightarrow> int \<Rightarrow> sql_row option" where
  "rows_map rs = map_of (map (\<lambda>r. (row_key r, r)) rs)"

definition rows_select :: "sql_row list \<Rightarrow> sql_row list" where
  "rows_select rs = map (\<lambda>k. the (rows_map rs k)) (sorted_list_of_set (row_key ` set rs))"

definition memory_step :: "string \<Rightarrow> sql_value list \<Rightarrow> memory \<Rightarrow> sql_row list \<times> sq_code \<times> memory" where
  "memory_step sql r d = (case d of (os, es, xs, h) \<Rightarrow>
     if sql = sql_save_order then ([], SQLITE_DONE, (r # os, es, xs, h))
     else if sql = sql_append_event then
       (if rows_map es (row_key r) = None then ([], SQLITE_DONE, (os, r # es, xs, h)) else ([], SQLITE_ERROR, (os, es, xs, False)))
     else if sql = sql_save_execution then ([], SQLITE_DONE, (os, es, r # xs, h))
     else if sql = sql_load_orders then (rows_select os, SQLITE_DONE, d)
     else if sql = sql_load_all_events then (rows_select es, SQLITE_DONE, d)
     else if sql = sql_load_executions then (rows_select xs, SQLITE_DONE, d)
     else ([], SQLITE_DONE, d))"

definition memory_sqlite :: "memory sqlite" where
  "memory_sqlite = \<lparr>sq_open = (\<lambda>_. Some ([], [], [], True)), sq_exec = (\<lambda>_ d. (True, d)), sq_prepare = (\<lambda>_ _. True),
     sq_step = memory_step, sq_column_int64 = sq_column_int64 plain_sqlite,
     sq_column_int = sq_column_int plain_sqlite, sq_column_text = sq_column_text plain_sqlite\<rparr>"

definition memory_view :: "memory store_view" where
  "memory_view = \<lparr>t_healthy = (\<lambda>(os, es, xs, h). h), t_orders = (\<lambda>(os, es, xs, h). rows_map os),
     t_events = (\<lambda>(os, es, xs, h). rows_map es), t_executions = (\<lambda>(os, es, xs, h). rows_map xs)\<rparr>"

lemma sql_texts_distinct: "distinct [sql_save_order, sql_append_event, sql_save_execution, sql_load_orders,
    sql_load_all_events, sql_load_executions, sql_append_audit]"
  by code_simp

lemma rows_map_in: "rows_map rs k = Some r \<Longrightarrow> r \<in> set rs \<and> row_key r = k"
  by (auto simp: rows_map_def dest: map_of_SomeD)

lemma rows_map_dom: "dom (rows_map rs) = row_key ` set rs"
  by (auto simp: rows_map_def dom_map_of_conv_image_fst image_image)

lemma ordered_rows_select: "ordered_rows (rows_map rs) (rows_select rs)"
proof -
  let ?ks = "sorted_list_of_set (row_key ` set rs)"
  have key: "rows_map rs k = Some (the (rows_map rs k)) \<and> row_key (the (rows_map rs k)) = k" if "k \<in> set ?ks" for k
  proof -
    have "k \<in> dom (rows_map rs)" using that by (simp add: rows_map_dom)
    then show ?thesis using rows_map_in by fastforce
  qed
  then have "map row_key (rows_select rs) = ?ks" by (auto simp: rows_select_def intro: map_idI)
  then have "sorted_wrt (<) (map row_key (rows_select rs))" by simp
  moreover have "set (rows_select rs) = (\<lambda>k. the (rows_map rs k)) ` dom (rows_map rs)"
    by (simp add: rows_select_def rows_map_dom)
  then have "set (rows_select rs) = ran (rows_map rs)" by (force simp: ran_def)
  ultimately show ?thesis by (simp add: ordered_rows_def sorted_wrt_map)
qed

lemma memory_store: "sqlite_store memory_sqlite memory_view"
proof -
  have "sqlite_columns memory_sqlite"
    using plain_sqlite_columns by (simp add: sqlite_columns_def memory_sqlite_def)
  moreover have calls: "sq_exec memory_sqlite = (\<lambda>_ d. (True, d))" "sq_prepare memory_sqlite = (\<lambda>_ _. True)"
    "sq_step memory_sqlite = memory_step"
    by (simp_all add: memory_sqlite_def)
  have views: "t_orders memory_view (os, es, xs, h) = rows_map os" "t_events memory_view (os, es, xs, h) = rows_map es"
    "t_executions memory_view (os, es, xs, h) = rows_map xs" "t_healthy memory_view (os, es, xs, h) = h" for os es xs h
    by (simp_all add: memory_view_def)
  have upd: "rows_map (r # rs) = (rows_map rs)(row_key r \<mapsto> r)" for r rs by (simp add: rows_map_def)
  have "sqlite_writes memory_sqlite memory_view"
    using sql_texts_distinct unfolding sqlite_writes_def calls same_rows_def
    by (auto simp: memory_step_def views upd split: if_splits)
  moreover have "sqlite_queries memory_sqlite memory_view"
    using sql_texts_distinct unfolding sqlite_queries_def calls same_rows_def
    by (auto simp: memory_step_def views ordered_rows_select split: if_splits)
  ultimately show ?thesis by (simp add: sqlite_store_def calls same_rows_def)
qed

definition restart_session0 :: "memory order_manager" where
  "restart_session0 = OrderManager (RiskManager default_limits) MatchingEngine (Some ([], [], [], True)) sample_clock"

definition restart_session :: "memory order_manager" where
  "restart_session = snd (SubmitOrder memory_sqlite (request kBuy kLimit 100 9)
     (snd (SubmitOrder memory_sqlite (request kSell kLimit 100 5) restart_session0)))"

lemma restart_session_fields:
  "om_orders restart_session = [(1, sample_order 1 kSell kLimit 100 5 5 kFilled), (2, sample_order 2 kBuy kLimit 100 9 5 kPartiallyFilled)]"
  "om_executions restart_session = [sample_fill 1 2 1 100 5]" "om_next_order_id restart_session = 3"
  "om_engine restart_session = \<lparr>me_books = [(''7203'', \<lparr>ob_symbol = \<lparr>sym_value = ''7203''\<rparr>, ob_bids = [(100, [sample_entry 2 kBuy 100 4])],
         ob_asks = [], ob_id_index = [(2, \<lparr>ix_side = kBuy, ix_price = 100\<rparr>)], ob_next_execution_id = 2\<rparr>)], me_next_execution_id = 2\<rparr>"
  "om_events restart_session = [sample_event 1 1 kNewRequested ''c'', sample_event 2 1 kAccepted_event '''',
     sample_event 3 2 kNewRequested ''c'', sample_event 4 2 kAccepted_event '''',
     sample_event 5 1 kFill ''exec=1 qty=5'', sample_event 6 2 kPartialFill ''exec=1 qty=5'']"
  unfolding restart_session_def restart_session0_def by (simp_all add: om_eval engine_eval sample_defs strings_eval)


lemma restart_session_run: "(om_step memory_sqlite)\<^sup>*\<^sup>* restart_session0 restart_session"
proof -
  let ?om1 = "snd (SubmitOrder memory_sqlite (request kSell kLimit 100 5) restart_session0)"
  have "om_step memory_sqlite restart_session0 ?om1"
    by (rule step_submit [OF _ prod.collapse [symmetric]]) (simp add: restart_session0_def OrderManager_def)
  moreover have "om_next_order_id ?om1 = 2"
    unfolding restart_session0_def by (simp add: om_eval engine_eval)
  then have "om_step memory_sqlite ?om1 restart_session"
    unfolding restart_session_def by (intro step_submit [OF _ prod.collapse [symmetric]]) simp
  ultimately show ?thesis by (blast intro: rtranclp.rtrancl_into_rtrancl rtranclp.rtrancl_refl)
qed

lemma restart_session_storable: "storable restart_session"
  by (simp add: storable_def restart_session_fields sample_defs order_storable_def event_storable_def fill_storable_def
      order_in_range_def no_nul_def in_i64_def i64_min_def i64_max_def)

lemma restart_session_service: "service memory_sqlite memory_view path restart_session"
proof (rule service_run [OF restart_session_run])
  show "service memory_sqlite memory_view path restart_session0"
    unfolding restart_session0_def by (rule first_start) (simp_all add: memory_view_def rows_map_def)
qed

lemma memory_steps:
  "memory_step sql_save_order r (os, es, xs, h) = ([], SQLITE_DONE, (r # os, es, xs, h))"
  "memory_step sql_append_event r (os, es, xs, h) = (if rows_map es (row_key r) = None
     then ([], SQLITE_DONE, (os, r # es, xs, h)) else ([], SQLITE_ERROR, (os, es, xs, False)))"
  "memory_step sql_save_execution r (os, es, xs, h) = ([], SQLITE_DONE, (os, es, r # xs, h))"
  "memory_step sql_load_orders r (os, es, xs, h) = (rows_select os, SQLITE_DONE, (os, es, xs, h))"
  "memory_step sql_load_all_events r (os, es, xs, h) = (rows_select es, SQLITE_DONE, (os, es, xs, h))"
  "memory_step sql_load_executions r (os, es, xs, h) = (rows_select xs, SQLITE_DONE, (os, es, xs, h))"
  "memory_step sql_append_audit r (os, es, xs, h) = ([], SQLITE_DONE, (os, es, xs, h))"
  using sql_texts_distinct by (auto simp: memory_step_def)

lemma memory_fields: "sq_exec memory_sqlite sql d = (True, d)" "sq_prepare memory_sqlite sql d"
    "sq_step memory_sqlite = memory_step"
  by (simp_all add: memory_sqlite_def)

lemma memory_calls:
  "snd (Database_SaveOrder memory_sqlite ord (os, es, xs, h)) = (order_row ord # os, es, xs, h)"
  "snd (Database_SaveExecution memory_sqlite f (os, es, xs, h)) = (os, es, fill_row f # xs, h)"
  "snd (Database_AppendEvent memory_sqlite ev (os, es, xs, h)) = (if rows_map es (row_key (event_row ev)) = None
     then (os, event_row ev # es, xs, h) else (os, es, xs, False))"
  by (simp_all add: Database_SaveOrder_def Database_SaveExecution_def Database_AppendEvent_def run_write_def
      memory_fields memory_steps)

lemma memory_start: "loaded_db memory_sqlite (recorded_db memory_sqlite path clk (os, es, xs, h)) = (os, es, xs, h)"
  by (simp add: loaded_db_def recorded_db_def open_db_def Migrate_def Database_Exec_def Database_AppendAudit_def Now_def
      Database_LoadOrders_def Database_LoadAllEvents_def Database_LoadExecutions_def run_write_def run_query_def
      memory_fields memory_steps bind_text_def split_def)

lemma rows_map_simps: "rows_map [] = Map.empty" "rows_map (r # rs) = (rows_map rs)(row_key r \<mapsto> r)"
  by (simp_all add: rows_map_def)

lemma restart_session_db: "\<exists>os es xs. om_db restart_session = Some (os, es, xs, True)"
  unfolding restart_session_def restart_session0_def
  by (simp add: om_eval engine_eval memory_calls rows_map_simps)

lemma restart_session_quiet: "quiet_start memory_sqlite memory_view path clk restart_session"
  using restart_session_db by (auto simp: quiet_start_def memory_start memory_view_def)

lemma disk_path: "on_disk ''oems.db''" "port_of [] = 8080" "db_path_of [] = ''oems.db''"
  by (simp_all add: on_disk_def c_str_def port_of_def db_path_of_def kDefaultPort_def kDefaultDbPath_def)

theorem restart_restores_state_witness:
  "\<exists>om'. server_main (reopened memory_sqlite ''oems.db'' restart_session) [] sample_clock = Some (Listening 8080 ''oems.db'' om')
    \<and> GetOrder om' 2 = Inr (sample_order 2 kBuy kLimit 100 9 5 kPartiallyFilled)
    \<and> GetAllExecutions om' = [sample_fill 1 2 1 100 5] \<and> om_next_order_id om' = 3
    \<and> resting (om_engine om') ''7203'' kBuy = [(2, 100, 4)]"
proof -
  from restart_restores_state [OF memory_store restart_session_service restart_session_storable disk_path(1,3) restart_session_quiet,
    of sample_clock]
  moreover have "GetOrder restart_session 2 = Inr (sample_order 2 kBuy kLimit 100 9 5 kPartiallyFilled)"
    "GetAllExecutions restart_session = [sample_fill 1 2 1 100 5]"
    "resting (om_engine restart_session) ''7203'' kBuy = [(2, 100, 4)]"
    by (simp_all add: GetOrder_def GetAllExecutions_def restart_session_fields resting_def om_flat_def sample_entry_def)
  ultimately show ?thesis by (auto simp: restart_session_fields(3) disk_path(2))
qed

theorem records_agree_after_restarts_witness:
  "replay (GetEvents restart_session 2) = Status kPartiallyFilled \<and> executed 2 (GetAllExecutions restart_session) = 5
   \<and> (2, 100, 4) \<in> set (resting (om_engine restart_session) ''7203'' kBuy)"
proof -
  have g: "GetOrder restart_session 2 = Inr (sample_order 2 kBuy kLimit 100 9 5 kPartiallyFilled)"
    by (simp add: GetOrder_def restart_session_fields)
  from records_agree_after_restarts [OF memory_store restart_session_service, of 2] show ?thesis
    unfolding g by (simp add: sample_order_def is_open_def)
qed

end
