(* ===== verification/Resumption.thy ===== *)
theory Resumption
  imports Durability
begin

section \<open>Answers after a restart\<close>

text \<open>
  Two order managers are \<open>alike\<close> when they agree on everything but the internals of the books (levels,
  index, the times entries were queued, the counter of the single book) and the order in which the
  table of orders is iterated. Alike order managers answer alike and stay alike, so a server that was
  started again answers every sequence of calls as the old one would have, if it had the same risk
  state and the same clock.
\<close>

subsection \<open>Books with the same resting orders\<close>

abbreviation resting_row :: "book_entry \<Rightarrow> order_id \<times> price \<times> quantity" where
  "resting_row e \<equiv> (be_order_id e, be_price e, be_remaining_qty e)"

abbreviation trade_row :: "book_entry \<times> quantity \<Rightarrow> (order_id \<times> price \<times> quantity) \<times> quantity" where
  "trade_row \<equiv> map_prod resting_row (\<lambda>q. q)"

definition book_rows :: "order_book \<Rightarrow> side \<Rightarrow> (order_id \<times> price \<times> quantity) list" where
  "book_rows b sd = map resting_row (om_flat (book_side sd b))"

lemma take_rows:
  assumes "map resting_row es = map resting_row xs"
  shows "take_liquidity (marketable ty sd p) es r = (fs, es', r') \<Longrightarrow>
    \<exists>gs xs'. take_liquidity (marketable ty sd p) xs r = (gs, xs', r')
      \<and> map resting_row es' = map resting_row xs' \<and> map trade_row fs = map trade_row gs"
  using assms
proof (induction es arbitrary: xs r fs)
  case (Cons e es)
  then obtain x ys where xs: "xs = x # ys" "resting_row e = resting_row x" "map resting_row es = map resting_row ys"
    by (cases xs) auto
  then have m: "marketable ty sd p e = marketable ty sd p x" by (simp add: marketable_def)
  show ?case
  proof (cases "r \<le> 0 \<or> \<not> marketable ty sd p e \<or> r < be_remaining_qty e")
    case True
    with Cons.prems(1) xs m show ?thesis by (auto split: if_splits)
  next
    case False
    then obtain fs1 where t: "take_liquidity (marketable ty sd p) es (r - be_remaining_qty e) = (fs1, es', r')"
      "fs = (e, be_remaining_qty e) # fs1"
      using Cons.prems(1) by (auto split: prod.splits)
    from Cons.IH [OF t(1) xs(3)] False xs(1,2) m t(2) show ?thesis by auto
  qed
qed auto

lemma renumber_rows:
  assumes "map trade_row fs = map trade_row gs"
  shows "renumber n (mk_fills tk a fs) = renumber n (mk_fills tk c gs)"
  using assms
proof (induction fs arbitrary: gs n a c)
  case (Cons f fs)
  then obtain g gs' where "gs = g # gs'" "trade_row f = trade_row g" "map trade_row fs = map trade_row gs'"
    by (cases gs) auto
  with Cons.IH [of gs' "n + 1" "a + 1" "c + 1"] show ?case
    by (cases f; cases g) (simp add: mk_fill_def)
qed simp

lemma insert_rows:
  "map resting_row (insert_by_priority sd e es) =
     takeWhile (\<lambda>x. \<not> side_cmp sd (be_price e) (fst (snd x))) (map resting_row es) @ resting_row e #
     dropWhile (\<lambda>x. \<not> side_cmp sd (be_price e) (fst (snd x))) (map resting_row es)"
  by (simp add: insert_by_priority_def takeWhile_map dropWhile_map comp_def)

lemma book_rows_ids: "be_order_id ` set (book_entries b) = fst ` (set (book_rows b kBuy) \<union> set (book_rows b kSell))"
  by (simp add: book_entries_def book_rows_def image_Un image_image)

text \<open>What a call returns on one book and on another with the same rows, up to the numbers of the fills.\<close>

definition same_result :: "add_order_result result \<Rightarrow> add_order_result result \<Rightarrow> bool" where
  "same_result res res' \<longleftrightarrow> (case (res, res') of (Inl e, Inl e') \<Rightarrow> e = e'
     | (Inr r, Inr r') \<Rightarrow> ar_resting r = ar_resting r' \<and> (\<forall>n. renumber n (ar_fills r) = renumber n (ar_fills r'))
     | _ \<Rightarrow> False)"

lemma AddOrder_rows:
  assumes ok: "book_ok b" "book_ok c" and same: "ob_symbol b = ob_symbol c" "book_rows b = book_rows c"
    and add: "OrderBook_AddOrder b oid sd ty p qty clk = (res, b', clk')"
  shows "\<exists>res' c'. OrderBook_AddOrder c oid sd ty p qty clk = (res', c', clk')
    \<and> same_result res res' \<and> book_rows b' = book_rows c'"
proof -
  have ids: "be_order_id ` set (book_entries c) = be_order_id ` set (book_entries b)" by (simp add: book_rows_ids same)
  show ?thesis
  proof (cases "qty \<le> 0 \<or> ty = kLimit \<and> p \<le> 0 \<or> oid \<in> be_order_id ` set (book_entries b)")
    case True
    then consider "qty \<le> 0" | "0 < qty" "ty = kLimit" "p \<le> 0"
      | "0 < qty" "ty = kLimit \<longrightarrow> 0 < p" "oid \<in> be_order_id ` set (book_entries b)"
      by linarith
    then show ?thesis
      by cases (use ok same ids add in \<open>auto simp: AddOrder_errors same_result_def\<close>)
  next
    case False
    then obtain r where r: "res = Inr r"
      using add by (cases rule: AddOrder_cases [OF ok(1) add]) auto
    obtain res' c' clk2 where add': "OrderBook_AddOrder c oid sd ty p qty clk = (res', c', clk2)" by (metis prod_cases3)
    then obtain r' where r': "res' = Inr r'" "clk2 = clk'"
      using False ids add by (cases rule: AddOrder_cases [OF ok(2) add']; cases rule: AddOrder_cases [OF ok(1) add]) auto
    from AddOrder_sides [OF ok(1) add [unfolded r]] obtain fs es q where
      t: "take_liquidity (marketable ty sd p) (om_flat (book_side (opposite sd) b)) qty = (fs, es, q)"
      and R: "ar_fills r = mk_fills (taker_of b oid sd ty (shd clk)) (ob_next_execution_id b) fs"
        "ar_resting r = (if q > 0 \<and> ty \<noteq> kMarket then Some \<lparr>be_order_id = oid, be_side = sd, be_price = p,
          be_remaining_qty = q, be_timestamp = shd clk\<rparr> else None)"
        "om_flat (book_side (opposite sd) b') = es"
        "om_flat (book_side sd b') = (case ar_resting r of None \<Rightarrow> om_flat (book_side sd b)
          | Some e \<Rightarrow> insert_by_priority sd e (om_flat (book_side sd b)))"
      by auto
    have rows: "map resting_row (om_flat (book_side x b)) = map resting_row (om_flat (book_side x c))" for x
      using same(2) by (simp add: book_rows_def fun_eq_iff)
    from take_rows [OF rows t] AddOrder_sides [OF ok(2) add' [unfolded r']] obtain gs xs where
      eq: "map resting_row es = map resting_row xs" "map trade_row fs = map trade_row gs"
      and R': "ar_fills r' = mk_fills (taker_of c oid sd ty (shd clk)) (ob_next_execution_id c) gs"
        "ar_resting r' = ar_resting r" "om_flat (book_side (opposite sd) c') = xs"
        "om_flat (book_side sd c') = (case ar_resting r of None \<Rightarrow> om_flat (book_side sd c)
          | Some e \<Rightarrow> insert_by_priority sd e (om_flat (book_side sd c)))"
      by (auto simp: R(2))
    have "book_rows b' sd = book_rows c' sd" "book_rows b' (opposite sd) = book_rows c' (opposite sd)"
      using R(3,4) R'(3,4) eq(1) rows [of sd] by (auto simp: book_rows_def insert_rows split: option.splits)
    then have "book_rows b' x = book_rows c' x" for x by (cases sd; cases x) auto
    then show ?thesis
      using add' r r' R(1) R' eq(2) same(1) by (auto simp: same_result_def fun_eq_iff intro: renumber_rows)
  qed
qed

lemma CancelOrder_rows:
  assumes ok: "book_ok b" "book_ok c" and same: "book_rows b = book_rows c"
  shows "case (OrderBook_CancelOrder b oid, OrderBook_CancelOrder c oid) of ((res, b'), (res', c')) \<Rightarrow>
      map_sum (\<lambda>e. e) (\<lambda>_. ()) res = map_sum (\<lambda>e. e) (\<lambda>_. ()) res' \<and> book_rows b' = book_rows c'"
proof (cases "oid \<in> be_order_id ` set (book_entries b)")
  case True
  moreover have "be_order_id ` set (book_entries c) = be_order_id ` set (book_entries b)" by (simp add: book_rows_ids same)
  ultimately obtain e f where e: "e \<in> set (book_entries b)" "oid = be_order_id e"
    and f: "f \<in> set (book_entries c)" "oid = be_order_id f"
    by (metis imageE)
  have rows: "map resting_row (filter (\<lambda>x. be_order_id x \<noteq> oid) es) = filter (\<lambda>x. fst x \<noteq> oid) (map resting_row es)" for es
    by (simp add: filter_map comp_def)
  obtain b' where b': "OrderBook_CancelOrder b oid = (Inr e, b')" "abs_book b' = spec_cancel (abs_book b) oid"
    using CancelOrder_found [OF ok(1) e(1)] e(2) by auto
  obtain c' where c': "OrderBook_CancelOrder c oid = (Inr f, c')" "abs_book c' = spec_cancel (abs_book c) oid"
    using CancelOrder_found [OF ok(2) f(1)] f(2) by auto
  have "book_rows d' sd = filter (\<lambda>x. fst x \<noteq> oid) (book_rows d sd)" if "abs_book d' = spec_cancel (abs_book d) oid" for d d' sd
    using that by (cases sd) (simp_all add: abs_book_def spec_cancel_def book_rows_def rows)
  with b' c' same show ?thesis by (simp add: fun_eq_iff)
next
  case False
  then have "oid \<notin> be_order_id ` set (book_entries c)" by (simp add: book_rows_ids same)
  with False CancelOrder_unknown ok same show ?thesis by simp
qed

subsection \<open>Their depth views\<close>

lemma level_split:
  assumes "om_sorted (side_cmp sd) ((p, q) # lad)" and "ladder_ok sd ((p, q) # lad)"
  shows "takeWhile (\<lambda>e. be_price e = p) (om_flat ((p, q) # lad)) = q"
    "dropWhile (\<lambda>e. be_price e = p) (om_flat ((p, q) # lad)) = om_flat lad"
proof -
  have q: "\<forall>e \<in> set q. be_price e = p" using assms(2) by auto
  have "be_price e \<noteq> p" if "e \<in> set (om_flat lad)" for e
    using ladder_ok_entries [of sd lad e] that assms side_order.before_irrefl [of sd p] by auto
  then have "takeWhile (\<lambda>e. be_price e = p) (om_flat lad) = []" "dropWhile (\<lambda>e. be_price e = p) (om_flat lad) = om_flat lad"
    by (cases "om_flat lad"; simp)+
  with q show "takeWhile (\<lambda>e. be_price e = p) (om_flat ((p, q) # lad)) = q"
    "dropWhile (\<lambda>e. be_price e = p) (om_flat ((p, q) # lad)) = om_flat lad"
    by (simp_all add: takeWhile_append2 dropWhile_append2)
qed

lemma level_total_rows: "map resting_row es = map resting_row xs \<Longrightarrow> level_total n es = level_total n xs"
proof (induction es arbitrary: xs n)
  case (Cons e es)
  then obtain x ys where "xs = x # ys" "be_remaining_qty e = be_remaining_qty x" "map resting_row es = map resting_row ys"
    by (cases xs) auto
  with Cons.IH show ?case by (simp split: option.splits)
qed simp

lemma price_levels_rows:
  assumes "om_sorted (side_cmp sd) lad" and "ladder_ok sd lad" and "om_sorted (side_cmp sd) lad'" and "ladder_ok sd lad'"
    and "map resting_row (om_flat lad) = map resting_row (om_flat lad')"
  shows "price_levels lad = price_levels lad'"
  using assms
proof (induction lad arbitrary: lad')
  case Nil
  then show ?case by (cases lad') auto
next
  case (Cons l lad)
  obtain p q where l: "l = (p, q)" by force
  obtain p' q' lad2 where l': "lad' = (p', q') # lad2" using Cons.prems l by (cases lad') auto
  have first: "q = e # qs \<Longrightarrow> be_price e = p" "q' = e # qs \<Longrightarrow> be_price e = p'" "q \<noteq> []" "q' \<noteq> []" for e qs
    using Cons.prems(2,4) l l' by auto
  then have p: "p' = p" using Cons.prems(5) l l' by (cases q; cases q') auto
  let ?P = "\<lambda>r :: order_id \<times> price \<times> quantity. fst (snd r) = p"
  have rows: "map resting_row (takeWhile (\<lambda>e. be_price e = p) es) = takeWhile ?P (map resting_row es)"
    "map resting_row (dropWhile (\<lambda>e. be_price e = p) es) = dropWhile ?P (map resting_row es)" for es
    by (simp_all add: takeWhile_map dropWhile_map comp_def)
  note split = level_split [OF Cons.prems(1,2) [unfolded l]] level_split [OF Cons.prems(3,4) [unfolded l' p]]
  have q: "map resting_row q = map resting_row q'" and rest: "map resting_row (om_flat lad) = map resting_row (om_flat lad2)"
    using arg_cong [OF Cons.prems(5), of "takeWhile ?P"] arg_cong [OF Cons.prems(5), of "dropWhile ?P"]
    unfolding l l' p rows [symmetric] split by simp_all
  have "price_levels lad = price_levels lad2"
    using Cons.prems l l' rest by (intro Cons.IH) auto
  moreover have "level_total 0 q = level_total 0 q'" "length q = length q'"
    using level_total_rows [OF q] map_eq_imp_length_eq [OF q] by blast+
  ultimately show ?case by (simp add: l l' p split: option.split)
qed

lemma depth_rows:
  assumes "book_ok b" and "book_ok c" and "book_rows b = book_rows c"
  shows "Bids b = Bids c" "Asks b = Asks c"
proof -
  have rows: "map resting_row (om_flat (book_side sd b)) = map resting_row (om_flat (book_side sd c))" for sd
    using fun_cong [OF assms(3), of sd] by (simp add: book_rows_def)
  then show "Bids b = Bids c" "Asks b = Asks c"
    using price_levels_rows [of kBuy "ob_bids b" "ob_bids c"] price_levels_rows [of kSell "ob_asks b" "ob_asks c"]
      assms(1,2) rows [of kBuy] rows [of kSell]
    by (simp_all add: book_ok_def Bids_def Asks_def)
qed

subsection \<open>Engines with the same resting orders\<close>

definition same_venue :: "matching_engine \<Rightarrow> matching_engine \<Rightarrow> bool" where
  "same_venue me ne \<longleftrightarrow> engine_ok me \<and> engine_ok ne \<and> resting me = resting ne
     \<and> me_next_execution_id me = me_next_execution_id ne"

lemma resting_book: "resting me (sym_value s) = book_rows (book_of me s)"
proof
  fix sd show "resting me (sym_value s) sd = book_rows (book_of me s) sd"
    by (cases sd) (simp_all add: resting_def book_of_def book_rows_def OrderBook_def om_flat_def split: option.splits)
qed

lemma resting_update: "um_find (me_books me') = (um_find (me_books me))(sym_value s \<mapsto> b) \<Longrightarrow>
    resting me' = (resting me)(sym_value s := book_rows b)"
  by (auto simp: resting_def book_rows_def fun_eq_iff)

lemma same_venue_books:
  assumes "same_venue me ne"
  shows "book_ok (book_of me s)" "book_ok (book_of ne s)" "ob_symbol (book_of me s) = ob_symbol (book_of ne s)"
    "book_rows (book_of me s) = book_rows (book_of ne s)"
proof -
  have ok: "engine_ok me" "engine_ok ne" using assms by (simp_all add: same_venue_def)
  from engine_ok_book_of [OF ok(1)] engine_ok_book_of [OF ok(2)]
  show "book_ok (book_of me s)" "book_ok (book_of ne s)" "ob_symbol (book_of me s) = ob_symbol (book_of ne s)"
    by (auto intro: symbol.equality)
  show "book_rows (book_of me s) = book_rows (book_of ne s)"
    using assms resting_book [of me s] resting_book [of ne s] by (simp add: same_venue_def)
qed

lemma AddOrder_venue:
  assumes same: "same_venue me ne" and add: "MatchingEngine_AddOrder me s oid sd ty p qty clk = (res, me', clk')"
  shows "\<exists>ne'. MatchingEngine_AddOrder ne s oid sd ty p qty clk = (res, ne', clk') \<and> same_venue me' ne'"
proof -
  have ok: "engine_ok me" "engine_ok ne" "me_next_execution_id me = me_next_execution_id ne" "resting me = resting ne"
    using same by (simp_all add: same_venue_def)
  note S = same_venue_books [OF same, of s]
  obtain res2 ne' clk2 where add': "MatchingEngine_AddOrder ne s oid sd ty p qty clk = (res2, ne', clk2)"
    by (metis prod_cases3)
  have ok': "engine_ok me'" "engine_ok ne'" using Engine_AddOrder_ok ok(1,2) add add' by blast+
  show ?thesis
    using add
  proof (cases rule: Engine_AddOrder_book)
    case (1 bres b')
    note B = 1
    show ?thesis
      using add'
    proof (cases rule: Engine_AddOrder_book)
      case (1 cres c')
      note C = 1
      from AddOrder_rows [OF S B(1)] C(1) have R: "same_result bres cres" "book_rows b' = book_rows c'" "clk2 = clk'"
        by auto
      have "resting me' = resting ne'" using resting_update [OF B(2)] resting_update [OF C(2)] ok(4) R(2) by simp
      moreover have "res2 = res \<and> me_next_execution_id me' = me_next_execution_id ne'"
      proof (cases bres)
        case (Inl e)
        with B(4) C(4) R(1) ok(3) show ?thesis by (auto simp: same_result_def split: sum.splits)
      next
        case (Inr r)
        then obtain r' where r': "cres = Inr r'" "ar_resting r = ar_resting r'" "\<And>n. renumber n (ar_fills r) = renumber n (ar_fills r')"
          using R(1) by (auto simp: same_result_def split: sum.splits)
        then have "length (ar_fills r) = length (ar_fills r')" by (metis renumber_spec prod.exhaust)
        moreover have "r\<lparr>ar_fills := fs\<rparr> = r'\<lparr>ar_fills := fs\<rparr>" for fs using r'(2) by (cases r; cases r') simp
        ultimately show ?thesis using B(5) [OF Inr] C(5) [OF r'(1)] r'(3) ok(3) by simp
      qed
      ultimately show ?thesis using add' ok' R(3) by (auto simp: same_venue_def)
    qed
  qed
qed

text \<open>
  Cancelling answers alike but for one code: an order that rests nowhere is kBookNotFound when its
  symbol has no book and kOrderNotFound when it has one.
\<close>

definition cancel_code :: "oems_error \<Rightarrow> oems_error" where
  "cancel_code e = (if e = kBookNotFound then kOrderNotFound else e)"

definition same_outcome :: "'a result \<Rightarrow> 'b result \<Rightarrow> bool" where
  "same_outcome res res' \<longleftrightarrow> map_sum cancel_code (\<lambda>_. ()) res = map_sum cancel_code (\<lambda>_. ()) res'"

lemma CancelOrder_venue:
  assumes same: "same_venue me ne" and c: "MatchingEngine_CancelOrder me s oid = (res, me')"
  shows "\<exists>res' ne'. MatchingEngine_CancelOrder ne s oid = (res', ne') \<and> same_venue me' ne' \<and> same_outcome res res'"
proof -
  have ok: "engine_ok me" "engine_ok ne" using same by (simp_all add: same_venue_def)
  have norm: "\<exists>r. OrderBook_CancelOrder (book_of m s) oid = (r, b) \<and> map_sum cancel_code (\<lambda>_. ()) r = map_sum cancel_code (\<lambda>_. ()) x
      \<and> resting m' = (resting m)(sym_value s := book_rows b) \<and> me_next_execution_id m' = me_next_execution_id m"
    if "MatchingEngine_CancelOrder m s oid = (x, m')" "b = snd (OrderBook_CancelOrder (book_of m s) oid)" for m m' x b
  proof (cases "um_find (me_books m) (sym_value s)")
    case None
    then have "book_of m s = OrderBook s" by (simp add: book_of_def)
    moreover from this have "OrderBook_CancelOrder (book_of m s) oid = (Inl kOrderNotFound, OrderBook s)"
      by (simp add: CancelOrder_unknown)
    moreover have "(resting m)(sym_value s := book_rows (OrderBook s)) = resting m"
      using resting_book [of m s] calculation(1) by (simp add: fun_upd_idem)
    ultimately show ?thesis using that None by (auto simp: MatchingEngine_CancelOrder_def cancel_code_def)
  next
    case (Some d)
    then have "book_of m s = d" by (simp add: book_of_def)
    with Some that show ?thesis
      using resting_update [OF put_book_find, of s b m]
      by (auto simp: MatchingEngine_CancelOrder_def put_book_def split: prod.splits)
  qed
  obtain res' ne' where c': "MatchingEngine_CancelOrder ne s oid = (res', ne')" by force
  note N = norm [OF c refl] norm [OF c' refl]
  have codes: "map_sum (\<lambda>e. e) (\<lambda>_. ()) r = map_sum (\<lambda>e. e) (\<lambda>_. ()) r' \<Longrightarrow>
      map_sum cancel_code (\<lambda>_. ()) r = map_sum cancel_code (\<lambda>_. ()) r'" for r r' :: "book_entry result"
    by (cases r; cases r') auto
  note S = same_venue_books [OF same, of s]
  have "resting me' = resting ne'" "same_outcome res res'" "me_next_execution_id me' = me_next_execution_id ne'"
    using N CancelOrder_rows [OF S(1,2,4), of oid] same
    by (auto simp: same_venue_def same_outcome_def dest!: codes split: prod.splits)
  with Engine_CancelOrder_ok [OF ok(1) c] Engine_CancelOrder_ok [OF ok(2) c'] c' show ?thesis
    by (auto simp: same_venue_def)
qed

subsection \<open>Alike order managers\<close>

definition alike :: "'d order_manager \<Rightarrow> 'e order_manager \<Rightarrow> bool" where
  "alike om on \<longleftrightarrow> same_venue (om_engine om) (om_engine on)
     \<and> um_find (om_orders om) = um_find (om_orders on)
     \<and> distinct (map fst (om_orders om)) \<and> distinct (map fst (om_orders on))
     \<and> om_events om = om_events on \<and> om_executions om = om_executions on
     \<and> om_next_order_id om = om_next_order_id on \<and> om_next_event_id om = om_next_event_id on
     \<and> om_risk om = om_risk on \<and> om_clock om = om_clock on"

named_theorems alike_intros \<open>small steps keep order managers alike\<close>

lemma alikeD:
  assumes "alike om on"
  shows "same_venue (om_engine om) (om_engine on)" "um_find (om_orders om) = um_find (om_orders on)"
    "om_executions om = om_executions on" "om_events om = om_events on" "om_risk om = om_risk on"
    "om_next_order_id om = om_next_order_id on" "om_clock om = om_clock on"
  using assms by (simp_all add: alike_def)

lemma alike_update [alike_intros]:
  "alike om on \<Longrightarrow> alike (om\<lparr>om_clock := c\<rparr>) (on\<lparr>om_clock := c\<rparr>)"
  "alike om on \<Longrightarrow> alike (om\<lparr>om_risk := r\<rparr>) (on\<lparr>om_risk := r\<rparr>)"
  "alike om on \<Longrightarrow> alike (om\<lparr>om_next_order_id := n\<rparr>) (on\<lparr>om_next_order_id := n\<rparr>)"
  "alike om on \<Longrightarrow> alike (om\<lparr>om_executions := fs\<rparr>) (on\<lparr>om_executions := fs\<rparr>)"
  "alike om on \<Longrightarrow> same_venue e e' \<Longrightarrow> alike (om\<lparr>om_engine := e\<rparr>) (on\<lparr>om_engine := e'\<rparr>)"
  by (simp_all add: alike_def)

lemma alike_steps [alike_intros]:
  "alike om on \<Longrightarrow> alike (with_db f om) (with_db g on)"
  "alike om on \<Longrightarrow> alike (put_order k ord om) (put_order k ord on)"
  by (simp_all add: alike_def om_simps) (simp add: put_order_def umap_simps fun_eq_iff)

lemma alike_AppendEvent [alike_intros]: "alike om on \<Longrightarrow> alike (AppendEvent sq k ty d om) (AppendEvent sq' k ty d on)"
  unfolding AppendEvent_def NextEventId_def om_Now_eq Let_def split
  by (simp add: alike_def om_simps)

lemma alike_apply_passive [alike_intros]:
  assumes "alike om on"
  shows "alike (apply_passive sq f om) (apply_passive sq' f on)"
proof (cases "um_find (om_orders om) (fl_passive_order_id f)")
  case None
  with assms show ?thesis by (simp add: apply_passive_def alikeD(2) [OF assms, symmetric])
next
  case (Some ord)
  then have "um_find (om_orders on) (fl_passive_order_id f) = Some ord" by (simp add: alikeD(2) [OF assms, symmetric])
  with Some show ?thesis
    unfolding apply_passive_def om_Now_eq Let_def option.case prod.case Some alikeD(7) [OF assms]
    by (simp add: assms alike_intros)
qed

definition alike_calls :: "'a \<times> 'd order_manager \<Rightarrow> 'a \<times> 'e order_manager \<Rightarrow> bool" where
  "alike_calls x y \<longleftrightarrow> fst x = fst y \<and> alike (snd x) (snd y)"

lemma alike_ApplyFills: "alike om on \<Longrightarrow> alike_calls (ApplyFills sq ord fs om) (ApplyFills sq' ord fs on)"
proof (induction sq ord fs om arbitrary: on rule: ApplyFills.induct)
  case (2 sq ord f fs om)
  show ?case
    unfolding ApplyFills.simps Let_def alikeD(3) [OF 2(2), symmetric]
    by (rule 2(1) [OF refl refl refl refl refl]) (intro alike_intros 2(2))
qed (simp add: alike_calls_def)

lemma alike_accept_order:
  assumes "alike om on"
  shows "alike_calls (accept_order sq ord fs om) (accept_order sq' ord fs on)"
proof -
  let ?ord0 = "ord\<lparr>o_status := kAccepted, o_updated_at := shd (om_clock on)\<rparr>"
  let ?start = "\<lambda>sq om. AppendEvent sq (o_internal_id ord) kAccepted_event '''' (om\<lparr>om_clock := stl (om_clock on)\<rparr>)"
  have start: "alike (?start sq om) (?start sq' on)" by (intro alike_intros assms)
  obtain ord1 om3 where a: "ApplyFills sq ?ord0 fs (?start sq om) = (ord1, om3)" by force
  obtain ord2 on3 where b: "ApplyFills sq' ?ord0 fs (?start sq' on) = (ord2, on3)" by force
  have same: "ord2 = ord1" "alike om3 on3" using alike_ApplyFills [OF start, of sq ?ord0 fs sq'] a b by (simp_all add: alike_calls_def)
  let ?rej = "\<lambda>sq om. if o_remaining_qty ord1 \<noteq> 0 \<and> o_type ord1 = kMarket \<and> final_status ord1 = kRejected
    then AppendEvent sq (o_internal_id ord) kRejected_event ''no liquidity for market order'' om else om"
  have rej: "alike (?rej sq om3) (?rej sq' on3)" by (simp add: alike_intros same(2))
  show ?thesis
    unfolding accept_order_def om_Now_eq Let_def prod.case alikeD(7) [OF assms] a b same(1) alikeD(7) [OF rej]
      alike_calls_def fst_conv snd_conv
    by (intro conjI refl alike_intros rej)
qed

lemma alike_reject_by_risk:
  assumes "alike om on"
  shows "alike (reject_by_risk sq req e om) (reject_by_risk sq' req e on)"
  unfolding reject_by_risk_def NextOrderId_def om_Now_eq Let_def prod.case alikeD(6) [OF assms]
  by (simp add: alikeD(7) [OF assms] alike_intros assms)

lemma alike_reject_by_matching:
  assumes "alike om on"
  shows "alike (reject_by_matching sq ord e om) (reject_by_matching sq' ord e on)"
  unfolding reject_by_matching_def om_Now_eq Let_def prod.case alikeD(7) [OF assms]
  by (intro alike_intros assms)

lemma alike_SubmitOrder:
  assumes al: "alike om on"
  shows "alike_calls (SubmitOrder sq req om) (SubmitOrder sq' req on)"
proof -
  obtain res om' where s: "SubmitOrder sq req om = (res, om')" by force
  obtain res2 on' where s': "SubmitOrder sq' req on = (res2, on')" by force
  note eq = alikeD [OF al]
  from s show ?thesis
  proof (cases rule: SubmitOrder_cases)
    case (invalid e)
    with s' show ?thesis
      by (cases rule: SubmitOrder_cases [OF s']) (use s al in \<open>auto simp: alike_calls_def\<close>)
  next
    case (risk e risk' clk')
    have "alike (om\<lparr>om_risk := risk', om_clock := clk'\<rparr>) (on\<lparr>om_risk := risk', om_clock := clk'\<rparr>)"
      by (intro alike_intros al)
    from alike_reject_by_risk [OF this] risk s show ?thesis
      by (cases rule: SubmitOrder_cases [OF s']) (auto simp: s' alike_calls_def eq)
  next
    case (matched risk' clk' om4 mres e clk'')
    note M = this
    from s' show ?thesis
    proof (cases rule: SubmitOrder_cases)
      case (matched risk2 clk2 on4 mres2 e2 clk3)
      note N = this
      have chk: "risk2 = risk'" "clk2 = clk'" using M(2) N(2) by (simp_all add: eq)
      from AddOrder_venue [OF eq(1) M(3)] N(3) have v: "mres2 = mres" "clk3 = clk''" "same_venue e e2"
        by (auto simp: chk eq)
      have al4: "alike om4 on4" using M N al v chk by (auto simp: alike_def)
      let ?ord = "order_of_request (om_next_order_id on) req kPendingNew (shd clk') (shd clk')"
      show ?thesis
      proof (cases mres)
        case (Inl err)
        with M(12) N(12) alike_reject_by_matching [OF al4, of sq ?ord err sq'] show ?thesis
          by (simp add: s s' v chk eq alike_calls_def)
      next
        case (Inr r)
        with M(12) N(12) alike_accept_order [OF al4, of sq ?ord "ar_fills r" sq'] show ?thesis
          by (simp add: s s' v chk eq alike_calls_def split: prod.splits)
      qed
    qed (use M in \<open>auto simp: eq\<close>)
  qed
qed

lemma alike_CancelOrder:
  assumes al: "alike om on"
  shows "same_outcome (fst (OrderManager_CancelOrder sq req om)) (fst (OrderManager_CancelOrder sq' req on))
    \<and> (\<forall>ord. fst (OrderManager_CancelOrder sq req om) = Inr ord \<longrightarrow> fst (OrderManager_CancelOrder sq' req on) = Inr ord)
    \<and> alike (snd (OrderManager_CancelOrder sq req om)) (snd (OrderManager_CancelOrder sq' req on))"
proof (cases "um_find (om_orders on) (cr_order_id req)")
  case None
  with al show ?thesis by (simp add: OrderManager_CancelOrder_def alikeD(2) [OF al] same_outcome_def)
next
  case (Some ord)
  show ?thesis
  proof (cases "o_status ord = kFilled \<or> o_status ord = kCancelled \<or> o_status ord = kRejected")
    case True
    with Some al show ?thesis by (simp add: OrderManager_CancelOrder_def alikeD(2) [OF al] same_outcome_def)
  next
    case False
    let ?req = "\<lambda>sq om. AppendEvent sq (o_internal_id ord) kCancelRequested '''' om"
    have al1: "alike (?req sq om) (?req sq' on)" by (intro alike_intros al)
    obtain res e where c: "MatchingEngine_CancelOrder (om_engine (?req sq om)) (o_symbol ord) (o_internal_id ord) = (res, e)" by force
    obtain res2 e2 where d: "MatchingEngine_CancelOrder (om_engine (?req sq' on)) (o_symbol ord) (o_internal_id ord) = (res2, e2)"
      and v: "same_venue e e2" "same_outcome res res2"
      using CancelOrder_venue [OF alikeD(1) [OF al1] c] by blast
    have al2: "alike ((?req sq om)\<lparr>om_engine := e\<rparr>) ((?req sq' on)\<lparr>om_engine := e2\<rparr>)" by (intro alike_intros al1 v(1))
    let ?now = "shd (om_clock ((?req sq' on)\<lparr>om_engine := e2\<rparr>))"
    let ?ord = "ord\<lparr>o_status := kCancelled, o_updated_at := ?now\<rparr>"
    have fin: "alike (with_db (Database_SaveOrder sq ?ord) (AppendEvent sq (o_internal_id ?ord) kCancelled_event ''''
          (put_order (cr_order_id req) ?ord ((?req sq om)\<lparr>om_engine := e, om_clock := c\<rparr>))))
        (with_db (Database_SaveOrder sq' ?ord) (AppendEvent sq' (o_internal_id ?ord) kCancelled_event ''''
          (put_order (cr_order_id req) ?ord ((?req sq' on)\<lparr>om_engine := e2, om_clock := c\<rparr>))))" for c
      by (intro alike_intros al1 v(1))
    show ?thesis
      using v(2) fin [of "stl (om_clock ((?req sq' on)\<lparr>om_engine := e2\<rparr>))"] al2
      unfolding OrderManager_CancelOrder_def alikeD(2) [OF al] Some option.case if_not_P [OF False] Let_def c d prod.case
        om_Now_eq alikeD(7) [OF al2]
      by (cases res; cases res2) (simp_all add: same_outcome_def)
  qed
qed

subsection \<open>Sequences of calls\<close>

text \<open>A book that the engine does not have is read as one without orders (\<open>book_of\<close>).\<close>

datatype client_call = call_submit new_order_request | call_cancel cancel_order_request | call_get order_id
  | call_list "symbol option" "order_status option" | call_events order_id | call_executions | call_book symbol

datatype reply = Answer "order result" | Listed "order set" | History "order_event list" | Trades "fill list"
| Depth "price_level list option" "price_level list option"

fun call_reply :: "'d sqlite \<Rightarrow> client_call \<Rightarrow> 'd order_manager \<Rightarrow> reply \<times> 'd order_manager" where
  "call_reply sq (call_submit req) om = map_prod Answer (\<lambda>x. x) (SubmitOrder sq req om)"
| "call_reply sq (call_cancel req) om =
     map_prod (\<lambda>res. Answer (map_sum cancel_code (\<lambda>x. x) res)) (\<lambda>x. x) (OrderManager_CancelOrder sq req om)"
| "call_reply sq (call_get k) om = (Answer (GetOrder om k), om)"
| "call_reply sq (call_list s st) om = (Listed (set (GetOrders om s st)), om)"
| "call_reply sq (call_events k) om = (History (GetEvents om k), om)"
| "call_reply sq call_executions om = (Trades (GetAllExecutions om), om)"
| "call_reply sq (call_book s) om = (Depth (Bids (book_of (om_engine om) s)) (Asks (book_of (om_engine om) s)), om)"

fun replies :: "'d sqlite \<Rightarrow> client_call list \<Rightarrow> 'd order_manager \<Rightarrow> reply list" where
  "replies sq [] om = []"
| "replies sq (c # cs) om = (case call_reply sq c om of (r, om') \<Rightarrow> r # replies sq cs om')"

lemma alike_call:
  assumes al: "alike om on"
  shows "alike_calls (call_reply sq c om) (call_reply sq' c on)"
proof (cases c)
  case (call_submit req)
  with alike_SubmitOrder [OF al, of sq req sq'] show ?thesis by (simp add: alike_calls_def)
next
  case (call_cancel req)
  have "map_sum cancel_code (\<lambda>x. x) r = map_sum cancel_code (\<lambda>x. x) r'"
    if "same_outcome r r'" "\<forall>ord. r = Inr ord \<longrightarrow> r' = Inr ord" for r r' :: "order result"
    using that by (cases r; cases r') (auto simp: same_outcome_def)
  with call_cancel alike_CancelOrder [OF al, of sq req sq'] show ?thesis by (simp add: alike_calls_def)
next
  case (call_list s st)
  have "set (map snd (om_orders om)) = set (map snd (om_orders on))" using al by (metis alike_def ran_distinct set_map)
  with call_list al show ?thesis by (simp add: alike_calls_def GetOrders_def)
next
  case (call_book s)
  note B = same_venue_books [OF alikeD(1) [OF al], of s]
  from call_book al depth_rows [OF B(1,2,4)] show ?thesis by (simp add: alike_calls_def)
qed (use al in \<open>simp_all add: alike_calls_def GetOrder_def GetEvents_def GetAllExecutions_def alikeD [OF al]\<close>)

lemma alike_replies: "alike om on \<Longrightarrow> replies sq calls om = replies sq' calls on"
proof (induction calls arbitrary: om on)
  case (Cons c cs)
  with alike_call [OF Cons.prems, of sq c sq'] show ?case by (auto simp: alike_calls_def split: prod.splits)
qed simp

lemma restart_alike:
  assumes "om_inv om" and "restart_step sq om om'"
  shows "alike om (om'\<lparr>om_risk := om_risk om, om_clock := om_clock om\<rparr>)"
proof -
  note R = restart_step_same [OF assms]
  have "om_ok om" "om_ok om'" using assms(1) R(8) by (simp_all add: om_inv_def)
  with R om_okD(1,2) show ?thesis by (auto simp: alike_def same_venue_def)
qed

subsection \<open>The property\<close>

text \<open>
  C2: A server that was started again answers alike. Take a server that started on an empty database
  file, went through any sequence of submits, cancels and changes of the risk state, and may have been
  started again any number of times on the same file (not the empty path or :memory:), with values the
  columns can hold, and start it again on that file. If no SQLite call has failed up to the end of this
  start, then whatever sequence of submits, cancels and queries of orders, events, executions and
  depth views follows, the server answers it, call by call, exactly as the one that never stopped: the
  same ids, fills, execution ids, statuses, events, price levels and errors, whatever SQLite does from
  then on. This is up to four things: the limits and counters of the risk manager and the clock are
  those of the old process; the orders of a listing are compared as a set, since they come in the order
  of a hash table; a book the engine does not have counts as an empty book, since books without orders
  are not recreated (GET /v1/books/{symbol} answers 404 for such a book and 200 with no levels before
  the restart); and for the same reason kBookNotFound counts as kOrderNotFound, which is what
  cancelling a partially filled market order answers with or without a book of its symbol.
\<close>

theorem restart_answers_alike:
  assumes "sqlite_store sq t" and "service sq t path om" and "storable om" and "on_disk path"
    and "db_path_of args = path" and "quiet_start sq t path clk om"
  shows "\<exists>om'. server_main (reopened sq path om) args clk = Some (Listening (port_of args) path om')
    \<and> (\<forall>calls. replies sq' calls (om'\<lparr>om_risk := om_risk om, om_clock := om_clock om\<rparr>) = replies sq calls om)"
proof -
  have inv: "in_step t om" "om_inv om" using service_reachable assms(1,2) om_inv_reachable by blast+
  from restart [OF assms(1) this assms(3), of args clk] assms(4-6) obtain om' where
    main: "server_main (reopened sq path om) args clk = Some (Listening (port_of args) path om')"
    and "restart_step sq om om'"
    by blast
  from alike_replies [OF restart_alike [OF inv(2) this(2)], of sq _ sq', symmetric] main show ?thesis
    by blast
qed

theorem restart_answers_alike_witness:
  "\<exists>om'. server_main (reopened memory_sqlite ''oems.db'' restart_session) [] sample_clock = Some (Listening 8080 ''oems.db'' om')
    \<and> replies memory_sqlite [call_book \<lparr>sym_value = ''7203''\<rparr>, call_submit (request kSell kLimit 100 4), call_executions, call_get 2]
        (om'\<lparr>om_risk := om_risk restart_session, om_clock := om_clock restart_session\<rparr>) =
      [Depth (Some [\<lparr>pl_price = 100, pl_total_qty = 4, pl_order_count = 1\<rparr>]) (Some []),
       Answer (Inr (sample_order 3 kSell kLimit 100 4 4 kFilled)), Trades [sample_fill 1 2 1 100 5, (sample_fill 2 3 2 100 4)\<lparr>fl_aggressive_side := kSell\<rparr>],
       Answer (Inr (sample_order 2 kBuy kLimit 100 9 9 kFilled))]"
proof -
  have "replies memory_sqlite [call_book \<lparr>sym_value = ''7203''\<rparr>, call_submit (request kSell kLimit 100 4), call_executions, call_get 2]
        restart_session =
      [Depth (Some [\<lparr>pl_price = 100, pl_total_qty = 4, pl_order_count = 1\<rparr>]) (Some []),
       Answer (Inr (sample_order 3 kSell kLimit 100 4 4 kFilled)), Trades [sample_fill 1 2 1 100 5, (sample_fill 2 3 2 100 4)\<lparr>fl_aggressive_side := kSell\<rparr>],
       Answer (Inr (sample_order 2 kBuy kLimit 100 9 9 kFilled))]"
    unfolding restart_session_def restart_session0_def
    by (simp add: om_eval engine_eval sample_defs strings_eval GetAllExecutions_def GetOrder_def Bids_def Asks_def book_of_def
        i64_add_def in_i64_def i64_min_def i64_max_def)
  then show ?thesis
    using restart_answers_alike [OF memory_store restart_session_service restart_session_storable disk_path(1,3) restart_session_quiet,
      of sample_clock memory_sqlite]
    by (metis disk_path(2))
qed

end
