(* ===== verification/Server_Console.thy ===== *)
theory Server_Console
  imports Durability
begin

section \<open>What the server reports (src/src/main.cc)\<close>













end
