(* ===== verification/Db_Handle.thy ===== *)
theory Db_Handle
  imports Prelude
begin

section \<open>Who owns a database handle (src/src/core/persistence/database.h, database.cc)\<close>

text \<open>
  \<open>Database\<close> is an RAII wrapper: it closes its SQLite handle in the destructor, is not copyable, and
  hands the handle on when it is moved. The state here is what these operations are about: the
  handles SQLite has given out, the calls of \<open>sqlite3_close\<close>, and the member \<open>db_\<close> of every living
  \<open>Database\<close> object (\<open>None\<close> is the null pointer).
\<close>

subsection \<open>State\<close>

type_synonym object_name = nat

record handle_state =
  hs_given :: nat
    \<comment> \<open>the handles 0, ..., \<open>hs_given - 1\<close> came from \<open>sqlite3_open\<close>\<close>
  hs_closes :: "nat list"
    \<comment> \<open>the arguments of \<open>sqlite3_close\<close>, last call first\<close>
  hs_objects :: "(object_name, nat option) umap"

definition no_handles :: handle_state where
  "no_handles = \<lparr>hs_given = 0, hs_closes = [], hs_objects = []\<rparr>"

definition close_handle :: "nat option \<Rightarrow> handle_state \<Rightarrow> handle_state" where
  \<comment> \<open>\<open>if (db_ != nullptr) { sqlite3_close(db_); }\<close>\<close>
  "close_handle p st = (case p of None \<Rightarrow> st | Some h \<Rightarrow> st\<lparr>hs_closes := h # hs_closes st\<rparr>)"

definition db_of :: "handle_state \<Rightarrow> object_name \<Rightarrow> nat option" where
  \<comment> \<open>the member \<open>db_\<close> of a living object\<close>
  "db_of st v = (case um_find (hs_objects st) v of None \<Rightarrow> None | Some p \<Rightarrow> p)"

definition set_db :: "object_name \<Rightarrow> nat option \<Rightarrow> handle_state \<Rightarrow> handle_state" where
  "set_db v p st = st\<lparr>hs_objects := um_assign v p (hs_objects st)\<rparr>"

subsection \<open>Special members\<close>

definition construct_database :: "object_name \<Rightarrow> nat option \<Rightarrow> handle_state \<Rightarrow> handle_state" where
  \<comment> \<open>\<open>explicit Database(sqlite3* db) : db_(db) {}\<close>\<close>
  "construct_database v p st = set_db v p st"

definition destroy_database :: "object_name \<Rightarrow> handle_state \<Rightarrow> handle_state" where
  "destroy_database v st =
     (close_handle (db_of st v) st)\<lparr>hs_objects := um_erase v (hs_objects st)\<rparr>"

definition move_construct :: "object_name \<Rightarrow> object_name \<Rightarrow> handle_state \<Rightarrow> handle_state" where
  "move_construct v other st = set_db other None (set_db v (db_of st other) st)"

definition move_assign :: "object_name \<Rightarrow> object_name \<Rightarrow> handle_state \<Rightarrow> handle_state" where
  "move_assign v other st =
     (if v \<noteq> other
      then (let st1 = close_handle (db_of st v) st;
                st2 = set_db v (db_of st1 other) st1
            in set_db other None st2)
      else st)"

text \<open>
  \<open>sqlite3_open\<close> may hand out a handle even when it fails. On success the new object is built in the
  result by the move constructor, and the temporary is destroyed.
\<close>

datatype open_answer = opened | failed_with_handle | failed_without_handle

definition open_database :: "object_name \<Rightarrow> object_name \<Rightarrow> open_answer \<Rightarrow> handle_state \<Rightarrow> handle_state" where
  "open_database v tmp answer st =
     (let h = hs_given st
      in case answer of
           failed_without_handle \<Rightarrow> st
         | failed_with_handle \<Rightarrow> close_handle (Some h) (st\<lparr>hs_given := h + 1\<rparr>)
         | opened \<Rightarrow>
             destroy_database tmp
               (move_construct v tmp (construct_database tmp (Some h) (st\<lparr>hs_given := h + 1\<rparr>))))"

subsection \<open>Programs\<close>

text \<open>
  What a program can do with databases: the copy operations are deleted and the constructor is
  private. A new object has a new name, and only living objects are moved, assigned or destroyed.
\<close>

definition alive :: "object_name \<Rightarrow> handle_state \<Rightarrow> bool" where
  "alive v st \<longleftrightarrow> um_find (hs_objects st) v \<noteq> None"

inductive handle_step :: "handle_state \<Rightarrow> handle_state \<Rightarrow> bool" where
  step_open: "\<not> alive v st \<Longrightarrow> \<not> alive tmp st \<Longrightarrow> v \<noteq> tmp \<Longrightarrow> handle_step st (open_database v tmp answer st)"
| step_move: "\<not> alive v st \<Longrightarrow> alive other st \<Longrightarrow> handle_step st (move_construct v other st)"
| step_assign: "alive v st \<Longrightarrow> alive other st \<Longrightarrow> handle_step st (move_assign v other st)"
| step_destroy: "alive v st \<Longrightarrow> handle_step st (destroy_database v st)"

inductive_cases handle_stepE: "handle_step st st'"

subsection \<open>Every handle is closed once or owned by one object\<close>

definition one_owner :: "(object_name \<Rightarrow> nat option) \<Rightarrow> bool" where
  "one_owner db \<longleftrightarrow> (\<forall>v w h. db v = Some h \<longrightarrow> db w = Some h \<longrightarrow> v = w)"

definition owned_once :: "nat \<Rightarrow> nat list \<Rightarrow> (object_name \<Rightarrow> nat option) \<Rightarrow> bool" where
  "owned_once n closes db \<longleftrightarrow> distinct closes \<and> set closes \<subseteq> {..<n}
     \<and> ran db = {..<n} - set closes \<and> one_owner db"

lemma one_owner_upd: "one_owner db \<Longrightarrow> h \<notin> ran db \<Longrightarrow> one_owner (db(v \<mapsto> h))"
  unfolding one_owner_def ran_def by auto

lemma one_owner_erase: "one_owner db \<Longrightarrow> one_owner (db(v := None))"
  by (auto simp: one_owner_def)

lemma ran_erase: "one_owner db \<Longrightarrow> ran (db(v := None)) = ran db - set_option (db v)"
  unfolding one_owner_def by (auto simp: ran_def)

lemma owned_new: "owned_once n cs db \<Longrightarrow> db v = None \<Longrightarrow> owned_once (n + 1) cs (db(v \<mapsto> n))"
  unfolding owned_once_def by (auto simp: lessThan_Suc intro!: one_owner_upd)

lemma owned_given_closed: "owned_once n cs db \<Longrightarrow> owned_once (n + 1) (n # cs) db"
  unfolding owned_once_def by (auto simp: lessThan_Suc)

lemma owned_close:
  assumes "owned_once n cs db"
  shows "owned_once n (case db v of None \<Rightarrow> cs | Some h \<Rightarrow> h # cs) (db(v := None))"
proof (cases "db v")
  case (Some h)
  then have "h \<in> ran db" by (rule ranI)
  with assms Some show ?thesis unfolding owned_once_def by (auto simp: ran_erase one_owner_erase)
qed (use assms in \<open>simp add: fun_upd_idem\<close>)

lemma owned_move:
  assumes own: "owned_once n cs db" and v: "db v = None"
  shows "owned_once n cs (db(v := db other, other := None))"
proof (cases "db other")
  case (Some h)
  then have ne: "v \<noteq> other" and h: "h \<in> ran db" using v by (auto intro: ranI)
  have one: "one_owner db" using own by (simp add: owned_once_def)
  have "db(v := db other, other := None) = (db(other := None))(v \<mapsto> h)" using ne Some by (auto simp: fun_eq_iff)
  moreover have "ran ((db(other := None))(v \<mapsto> h)) = ran db"
    using v ne h Some by (subst ran_map_upd) (auto simp: ran_erase [OF one])
  moreover have "one_owner ((db(other := None))(v \<mapsto> h))"
    using Some by (intro one_owner_upd one_owner_erase one) (simp add: ran_erase [OF one])
  ultimately show ?thesis using own unfolding owned_once_def by metis
qed (use own v in \<open>simp add: fun_upd_idem\<close>)

text \<open>The members \<open>db_\<close> after an operation.\<close>

definition handles_ok :: "handle_state \<Rightarrow> bool" where
  "handles_ok st \<longleftrightarrow> owned_once (hs_given st) (hs_closes st) (db_of st)"

named_theorems handle_simps \<open>what the small steps change\<close>

lemma close_handle_simps [handle_simps]:
  "hs_given (close_handle p st) = hs_given st" "hs_objects (close_handle p st) = hs_objects st"
  "hs_closes (close_handle p st) = (case p of None \<Rightarrow> hs_closes st | Some h \<Rightarrow> h # hs_closes st)"
  "db_of (close_handle p st) = db_of st"
  by (simp_all add: close_handle_def db_of_def fun_eq_iff split: option.splits)

lemma set_db_simps [handle_simps]:
  "hs_given (set_db v p st) = hs_given st" "hs_closes (set_db v p st) = hs_closes st"
  "db_of (set_db v p st) = (db_of st)(v := p)"
  by (simp_all add: set_db_def db_of_def umap_simps fun_eq_iff)

lemma erase_simps [handle_simps]:
  "hs_objects st = hs_objects st' \<Longrightarrow> db_of (st\<lparr>hs_objects := um_erase v (hs_objects st')\<rparr>) = (db_of st')(v := None)"
  "db_of (st\<lparr>hs_given := n\<rparr>) = db_of st"
  by (simp_all add: db_of_def umap_simps fun_eq_iff)

lemma not_alive: "\<not> alive v st \<Longrightarrow> db_of st v = None"
  by (simp add: alive_def db_of_def)

lemma destroy_ok: "handles_ok st \<Longrightarrow> handles_ok (destroy_database v st)"
  using owned_close [of "hs_given st" "hs_closes st" "db_of st" v]
  by (simp add: handles_ok_def destroy_database_def handle_simps)

lemma move_construct_ok: "handles_ok st \<Longrightarrow> db_of st v = None \<Longrightarrow> handles_ok (move_construct v other st)"
  using owned_move [of "hs_given st" "hs_closes st" "db_of st" v other]
  by (simp add: handles_ok_def move_construct_def handle_simps)

lemma move_assign_ok:
  assumes "handles_ok st"
  shows "handles_ok (move_assign v other st)"
proof (cases "v = other")
  case False
  let ?db = "db_of st"
  have "owned_once (hs_given st) (case ?db v of None \<Rightarrow> hs_closes st | Some h \<Rightarrow> h # hs_closes st) (?db(v := None))"
    using assms owned_close unfolding handles_ok_def by blast
  from owned_move [OF this, of v other] False show ?thesis
    by (simp add: handles_ok_def move_assign_def handle_simps Let_def)
qed (use assms in \<open>simp add: move_assign_def\<close>)

lemma open_ok:
  assumes "handles_ok st" and "db_of st v = None" "db_of st tmp = None" "v \<noteq> tmp"
  shows "handles_ok (open_database v tmp answer st)"
proof (cases answer)
  case opened
  have "handles_ok (construct_database tmp (Some (hs_given st)) (st\<lparr>hs_given := hs_given st + 1\<rparr>))"
    using owned_new [of _ _ "db_of st" tmp] assms
    by (simp add: handles_ok_def construct_database_def handle_simps)
  then show ?thesis
    using opened assms(2,4) by (auto simp: open_database_def construct_database_def handle_simps Let_def
        intro!: destroy_ok move_construct_ok)
next
  case failed_with_handle
  then show ?thesis
    using owned_given_closed assms(1) by (simp add: handles_ok_def open_database_def handle_simps Let_def)
qed (use assms in \<open>simp add: open_database_def\<close>)

lemma handles_ok_step: "handle_step st st' \<Longrightarrow> handles_ok st \<Longrightarrow> handles_ok st'"
  by (erule handle_stepE) (auto intro: open_ok move_construct_ok move_assign_ok destroy_ok not_alive)

lemma handles_ok_start: "handles_ok no_handles"
  by (simp add: handles_ok_def no_handles_def owned_once_def one_owner_def db_of_def ran_def)

lemma handles_ok_steps: "handle_step\<^sup>*\<^sup>* no_handles st \<Longrightarrow> handles_ok st"
  by (induction rule: rtranclp_induct) (auto intro: handles_ok_start handles_ok_step)

text \<open>
  C39: No handle is closed twice, used after it was closed, or leaked. Whatever a program does with
  databases (opening them, successfully or not, moving them, assigning one to another or to itself,
  destroying them), SQLite is never asked to close a handle twice, no living object holds a closed
  handle or one that another object holds too, and every handle that SQLite gave out and that is not
  closed is held by an object; when all objects are gone, every handle has been closed exactly once.
\<close>

theorem handles_closed_once:
  assumes "handle_step\<^sup>*\<^sup>* no_handles st"
  shows "distinct (hs_closes st)
    \<and> (\<forall>v h. um_find (hs_objects st) v = Some (Some h) \<longrightarrow> h \<notin> set (hs_closes st)
         \<and> (\<forall>w. um_find (hs_objects st) w = Some (Some h) \<longrightarrow> w = v))
    \<and> (\<forall>h < hs_given st. h \<notin> set (hs_closes st) \<longrightarrow> (\<exists>v. um_find (hs_objects st) v = Some (Some h)))
    \<and> (hs_objects st = [] \<longrightarrow> mset (hs_closes st) = mset [0..<hs_given st])"
proof -
  have own: "owned_once (hs_given st) (hs_closes st) (db_of st)"
    using handles_ok_steps [OF assms] by (simp add: handles_ok_def)
  have db: "db_of st v = Some h \<longleftrightarrow> um_find (hs_objects st) v = Some (Some h)" for v h
    by (auto simp: db_of_def split: option.splits)
  have all: "mset (hs_closes st) = mset [0..<hs_given st]" if "hs_objects st = []"
  proof -
    have "ran (db_of st) = {}" using that by (simp add: db_of_def ran_def)
    with own have "distinct (hs_closes st)" "set (hs_closes st) = set [0..<hs_given st]"
      by (auto simp: owned_once_def)
    then show ?thesis using set_eq_iff_mset_eq_distinct distinct_upt by blast
  qed
  have ran: "h \<in> ran (db_of st) \<longleftrightarrow> (\<exists>v. um_find (hs_objects st) v = Some (Some h))" for h
    by (auto simp: ran_def db)
  have set: "ran (db_of st) = {..<hs_given st} - set (hs_closes st)" "distinct (hs_closes st)" "one_owner (db_of st)"
    using own by (simp_all add: owned_once_def)
  have "h \<notin> set (hs_closes st)" if "um_find (hs_objects st) v = Some (Some h)" for v h
    using that set(1) ran [of h] by blast
  moreover have "\<exists>v. um_find (hs_objects st) v = Some (Some h)" if "h < hs_given st" "h \<notin> set (hs_closes st)" for h
    using that set(1) ran [of h] by blast
  moreover have "w = v" if "um_find (hs_objects st) v = Some (Some h)" "um_find (hs_objects st) w = Some (Some h)" for v w h
    using set(3) that unfolding one_owner_def db by blast
  ultimately show ?thesis using set(2) all by blast
qed

text \<open>
  A program that opens two databases, assigns the second to the first and lets both go: the first
  handle is closed by the assignment, the second by the destructor.
\<close>

definition sample_program :: handle_state where
  "sample_program = destroy_database 1 (destroy_database 0 (move_assign 0 1
     (open_database 1 2 opened (open_database 0 2 opened no_handles))))"

lemma sample_program_run: "handle_step\<^sup>*\<^sup>* no_handles sample_program"
proof -
  let ?s1 = "open_database 0 2 opened no_handles" and ?s2 = "open_database 1 2 opened (open_database 0 2 opened no_handles)"
  note eval = open_database_def construct_database_def move_construct_def destroy_database_def move_assign_def
    set_db_def close_handle_def db_of_def alive_def no_handles_def um_erase_def um_assign_def
  note then_step = rtranclp.rtrancl_into_rtrancl
  have "handle_step no_handles ?s1" "handle_step ?s1 ?s2"
    by (rule step_open; simp add: eval)+
  then have "handle_step\<^sup>*\<^sup>* no_handles ?s2" by (blast intro: then_step)
  moreover have "handle_step ?s2 (move_assign 0 1 ?s2)"
    by (rule step_assign; simp add: eval)
  moreover have "handle_step (move_assign 0 1 ?s2) (destroy_database 0 (move_assign 0 1 ?s2))"
    "handle_step (destroy_database 0 (move_assign 0 1 ?s2)) sample_program"
    unfolding sample_program_def by (rule step_destroy; simp add: eval)+
  ultimately show ?thesis by (rule then_step [OF then_step [OF then_step]])
qed

theorem handles_closed_once_witness:
  "hs_given sample_program = 2 \<and> hs_objects sample_program = [] \<and> mset (hs_closes sample_program) = {#0, 1#}"
proof -
  have st: "hs_given sample_program = 2" "hs_objects sample_program = []"
    by (simp_all add: sample_program_def open_database_def construct_database_def move_construct_def
        destroy_database_def move_assign_def set_db_def close_handle_def db_of_def no_handles_def um_erase_def um_assign_def)
  with handles_closed_once [OF sample_program_run] show ?thesis by (auto simp: upt_rec numeral_2_eq_2)
qed

end
