(* ===== verification/Wind_Down.thy ===== *)
theory Wind_Down
  imports Order_Properties
begin

section \<open>Open orders can always be closed\<close>

text \<open>
  No state of the order manager traps an order on a book: listing the orders and cancelling each of
  them once closes every open order and empties every book, whatever happened before.
\<close>

definition cancel_each :: "'d sqlite \<Rightarrow> order_id list \<Rightarrow> 'd order_manager \<Rightarrow> 'd order_manager" where
  "cancel_each sq ks om = fold (\<lambda>k om. snd (OrderManager_CancelOrder sq \<lparr>cr_order_id = k\<rparr> om)) ks om"

lemma cancel_each_simps [simp]:
  "cancel_each sq [] om = om"
  "cancel_each sq (k # ks) om = cancel_each sq ks (snd (OrderManager_CancelOrder sq \<lparr>cr_order_id = k\<rparr> om))"
  by (simp_all add: cancel_each_def)

text \<open>What closing an entry of the order table makes of it.\<close>

definition closing :: "bool \<Rightarrow> order option \<Rightarrow> order option \<Rightarrow> bool" where
  "closing hit x x' \<longleftrightarrow> (case x of None \<Rightarrow> x' = None
     | Some ord \<Rightarrow> if hit \<and> is_open ord then \<exists>now. x' = Some (ord\<lparr>o_status := kCancelled, o_updated_at := now\<rparr>)
                   else x' = Some ord)"

lemma closing_refl: "closing False x x"
  by (simp add: closing_def split: option.splits)

lemma cancelled_not_open [simp]: "\<not> is_open (ord\<lparr>o_status := kCancelled, o_updated_at := now\<rparr>)"
  by (simp add: is_open_def)

lemma closing_trans: "closing a x y \<Longrightarrow> closing b y z \<Longrightarrow> closing (a \<or> b) x z"
  by (auto simp: closing_def split: option.splits if_splits)

lemma cancel_closing:
  assumes ok: "om_ok om" and c: "OrderManager_CancelOrder sq \<lparr>cr_order_id = i\<rparr> om = (res, om')"
  shows "closing (k = i) (um_find (om_orders om) k) (um_find (om_orders om') k) \<and> om_executions om' = om_executions om"
proof (cases "\<exists>ord. um_find (om_orders om) i = Some ord \<and> is_open ord")
  case True
  then obtain ord where ord: "um_find (om_orders om) i = Some ord" "is_open ord" by blast
  from CancelOrder_open [OF ok c _ ord(2)] ord(1) obtain now where
    "um_find (om_orders om') = (um_find (om_orders om))(i \<mapsto> ord\<lparr>o_status := kCancelled, o_updated_at := now\<rparr>)"
    "om_executions om' = om_executions om" by auto
  with ord show ?thesis by (auto simp: closing_def split: option.splits)
next
  case False
  with CancelOrder_not_open [OF ok c] show ?thesis
    by (auto simp: closing_def split: option.splits)
qed

lemma cancel_each_closing:
  assumes "reachable_om sq om"
  shows "reachable_om sq (cancel_each sq ks om) \<and> om_executions (cancel_each sq ks om) = om_executions om
    \<and> closing (k \<in> set ks) (um_find (om_orders om) k) (um_find (om_orders (cancel_each sq ks om)) k)"
  using assms
proof (induction ks arbitrary: om)
  case Nil
  then show ?case by (simp add: closing_refl)
next
  case (Cons i ks)
  obtain res om1 where c: "OrderManager_CancelOrder sq \<lparr>cr_order_id = i\<rparr> om = (res, om1)" by force
  note step = cancel_closing [OF reachable_om_ok [OF Cons.prems] c, of k]
  from Cons.IH [OF cancel_om_step [OF Cons.prems c]] closing_trans [OF step [THEN conjunct1]] step
  show ?case by (auto simp: c)
qed

lemma nothing_resting:
  assumes ok: "om_ok om" "books_ok (om_engine om)"
    and none: "\<And>k ord. um_find (om_orders om) k = Some ord \<Longrightarrow> \<not> is_open ord"
  shows "resting (om_engine om) sv sd = []"
proof -
  have "order_view sv (um_find (om_orders om) k) = None" for k
    using none by (auto simp: order_view_def split: option.splits)
  then have "set (resting (om_engine om) sv sd) = {}"
    by (simp add: resting_set [OF ok(2) om_okD(3) [OF ok(1)]])
  then show ?thesis by simp
qed

text \<open>
  C10: A participant can always get out of the market. In every reachable state of the order manager,
  listing all orders and cancelling each of them once leaves no order on any book; every order that
  was open is then cancelled with its terms and its filled quantity unchanged, every other order and
  the executions are untouched.
\<close>

theorem open_orders_can_be_closed:
  assumes reach: "reachable_om sq om"
  shows "case cancel_each sq (map o_internal_id (GetOrders om None None)) om of om' \<Rightarrow>
    (\<forall>sv sd. resting (om_engine om') sv sd = []) \<and> GetAllExecutions om' = GetAllExecutions om
    \<and> (\<forall>k. case GetOrder om k of Inl e \<Rightarrow> GetOrder om' k = Inl e
         | Inr ord \<Rightarrow> if is_open ord
             then \<exists>now. GetOrder om' k = Inr (ord\<lparr>o_status := kCancelled, o_updated_at := now\<rparr>)
             else GetOrder om' k = Inr ord)"
proof -
  define ks where "ks = map o_internal_id (GetOrders om None None)"
  define om' where "om' = cancel_each sq ks om"
  note E = cancel_each_closing [OF reach, of ks, folded om'_def]
  have ks: "k \<in> set ks" if "um_find (om_orders om) k = Some ord" for k ord
    using map_of_SomeD [OF that] om_okD(4) [OF reachable_om_ok [OF reach] that] by (force simp: ks_def GetOrders_def)
  have tbl: "case um_find (om_orders om) k of None \<Rightarrow> um_find (om_orders om') k = None
      | Some ord \<Rightarrow> if is_open ord then \<exists>now. um_find (om_orders om') k = Some (ord\<lparr>o_status := kCancelled, o_updated_at := now\<rparr>)
          else um_find (om_orders om') k = Some ord" for k
    using E [of k] ks [of k] by (auto simp: closing_def split: option.splits if_splits)
  have reach': "reachable_om sq om'" using E by blast
  have closed: "\<not> is_open ord'" if "um_find (om_orders om') k = Some ord'" for k ord'
    using tbl [of k] that by (auto split: option.splits if_splits)
  have "\<forall>sv sd. resting (om_engine om') sv sd = []"
    using nothing_resting [OF reachable_om_ok [OF reach'] books_ok_sequenced [OF reachable_om_ok reachable_sequenced, OF reach' reach']]
      closed by blast
  moreover have "case GetOrder om k of Inl e \<Rightarrow> GetOrder om' k = Inl e
         | Inr ord \<Rightarrow> if is_open ord then \<exists>now. GetOrder om' k = Inr (ord\<lparr>o_status := kCancelled, o_updated_at := now\<rparr>)
             else GetOrder om' k = Inr ord" for k
    using tbl [of k] by (cases "um_find (om_orders om) k") (auto simp: GetOrder_def split: if_splits)
  ultimately show ?thesis
    using E unfolding ks_def [symmetric] om'_def [symmetric] by (simp add: GetAllExecutions_def)
qed

theorem open_orders_can_be_closed_witness:
  "case cancel_each null_sqlite (map o_internal_id (GetOrders session4 None None)) session4 of om' \<Rightarrow>
     resting (om_engine om') ''7203'' kBuy = []
     \<and> (\<exists>now. GetOrder om' 3 = Inr (sample_order 3 kBuy kLimit 100 9 5 kPartiallyFilled\<lparr>o_status := kCancelled, o_updated_at := now\<rparr>))
     \<and> GetOrder om' 4 = Inr (sample_order 4 kBuy kMarket 0 6 4 kPartiallyFilled)"
proof -
  define om' where "om' = cancel_each null_sqlite (map o_internal_id (GetOrders session4 None None)) session4"
  have "GetOrder session4 3 = Inr (sample_order 3 kBuy kLimit 100 9 5 kPartiallyFilled)"
    "GetOrder session4 4 = Inr (sample_order 4 kBuy kMarket 0 6 4 kPartiallyFilled)"
    by (simp_all add: session4_eq GetOrder_def)
  moreover have "is_open (sample_order 3 kBuy kLimit 100 9 5 kPartiallyFilled)"
    "\<not> is_open (sample_order 4 kBuy kMarket 0 6 4 kPartiallyFilled)"
    by (simp_all add: is_open_def sample_order_def)
  ultimately show ?thesis
    using open_orders_can_be_closed [OF sessions_reachable(3), folded om'_def, THEN conjunct2, THEN conjunct2, THEN spec, of 3]
      open_orders_can_be_closed [OF sessions_reachable(3), folded om'_def, THEN conjunct2, THEN conjunct2, THEN spec, of 4]
      open_orders_can_be_closed [OF sessions_reachable(3), folded om'_def, THEN conjunct1]
    unfolding om'_def [symmetric] by simp
qed

end
