(* ===== verification/Matching_Loops.thy ===== *)
theory Matching_Loops
  imports Order_Book "HOL-Library.While_Combinator"
begin

section \<open>The matching loops as loops\<close>

text \<open>
  The two nested \<open>while\<close> loops of MatchAgainst written with the loop combinator, whose value is
  \<open>None\<close> for a loop that does not end. They end on every input and compute \<open>match_queue\<close> and
  \<open>match_side\<close>, on which the rest of the development rests.
\<close>

text \<open>The inner loop over the queue of one price level: one fill per round.\<close>

definition queue_round :: "taker \<Rightarrow> book_entry list \<times> match_state \<Rightarrow> book_entry list \<times> match_state" where
  "queue_round tk st =
     (case st of
        (passive # queue, ms) \<Rightarrow>
          (case match_front tk passive ms of (passive', ms') \<Rightarrow>
             (if be_remaining_qty passive' = 0 then queue else passive' # queue, ms'))
      | ([], ms) \<Rightarrow> ([], ms))"

definition queue_loop :: "taker \<Rightarrow> book_entry list \<times> match_state \<Rightarrow> (book_entry list \<times> match_state) option" where
  "queue_loop tk = while_option (\<lambda>(queue, ms). ms_remaining ms > 0 \<and> queue \<noteq> []) (queue_round tk)"

text \<open>The outer loop over the price levels, best first; the \<open>break\<close> is part of its condition.\<close>

definition side_continues :: "taker \<Rightarrow> (price \<Rightarrow> bool) \<Rightarrow> ladder \<times> match_state \<Rightarrow> bool" where
  "side_continues tk price_acceptable st =
     (case st of (opposite_side, ms) \<Rightarrow>
        ms_remaining ms > 0 \<and> opposite_side \<noteq> []
        \<and> \<not> (tk_type tk = kLimit \<and> \<not> price_acceptable (fst (hd opposite_side))))"

definition side_round :: "taker \<Rightarrow> ladder \<times> match_state \<Rightarrow> ladder \<times> match_state" where
  "side_round tk st =
     (case st of
        ((best_price, queue) # levels, ms) \<Rightarrow>
          (case the (queue_loop tk (queue, ms)) of (queue', ms') \<Rightarrow>
             (if queue' = [] then levels else (best_price, queue') # levels, ms'))
      | ([], ms) \<Rightarrow> ([], ms))"

definition side_loop ::
  "taker \<Rightarrow> (price \<Rightarrow> bool) \<Rightarrow> ladder \<times> match_state \<Rightarrow> (ladder \<times> match_state) option" where
  "side_loop tk price_acceptable = while_option (side_continues tk price_acceptable) (side_round tk)"

lemma queue_loop_eq: "queue_loop tk (queue, ms) = Some (match_queue tk queue ms)"
proof (induction tk queue ms rule: match_queue.induct)
  case (1 tk ms)
  then show ?case unfolding queue_loop_def by (subst while_option_unfold) simp
next
  case (2 tk p queue ms)
  then show ?case
    unfolding queue_loop_def
    by (subst while_option_unfold) (auto simp: queue_round_def split: prod.splits)
qed

lemma side_loop_eq: "side_loop tk acc (levels, ms) = Some (match_side tk acc levels ms)"
proof (induction tk acc levels ms rule: match_side.induct)
  case (1 tk acc ms)
  then show ?case unfolding side_loop_def by (subst while_option_unfold) (simp add: side_continues_def)
next
  case (2 tk acc p queue levels ms)
  then show ?case
    unfolding side_loop_def
    by (subst while_option_unfold) (auto simp: side_continues_def side_round_def queue_loop_eq split: prod.splits)
qed

text \<open>
  C11: Matching always ends. For every incoming order, every queue, every ladder and every state of the
  match (empty, with zero or negative quantities included), the inner and the outer loop of
  MatchAgainst end after finitely many rounds, with the results of the recursive functions that
  the model of AddOrder uses.
\<close>

theorem matching_loops_terminate:
  "queue_loop tk (queue, ms) = Some (match_queue tk queue ms)
   \<and> side_loop tk price_acceptable (levels, ms) = Some (match_side tk price_acceptable levels ms)"
  by (simp add: queue_loop_eq side_loop_eq)

end
