(* ===== verification/Cli.thy ===== *)
theory Cli
  imports Text
begin

section \<open>The command line client (src/src/cli/main.cc)\<close>

text \<open>
  The commands of \<open>oems-cli\<close> as functions of the arguments after the program name. The socket is a
  parameter: \<open>net\<close> maps the bytes sent to all bytes received, none when the connection fails. A run
  ends with the lines it printed and its exit code.
\<close>

type_synonym network = "string \<Rightarrow> string"

record cli_result =
  cli_lines :: "string list"
  cli_exit :: int

definition crlf :: string where
  "crlf = [CHR 0x0D, CHR 0x0A]"

subsection \<open>HTTP\<close>

definition http_request_text :: "string \<Rightarrow> string \<Rightarrow> string \<Rightarrow> string" where
  "http_request_text meth path body =
     meth @ '' '' @ path @ '' HTTP/1.1'' @ crlf @ ''Host: localhost'' @ crlf @
     ''Content-Type: application/json'' @ crlf @
     ''Content-Length: '' @ nat_to_string (length body) @ crlf @ crlf @ body"

definition SendHttp :: "network \<Rightarrow> string \<Rightarrow> string \<Rightarrow> string \<Rightarrow> string" where
  "SendHttp net meth path body =
     (let resp = net (http_request_text meth path body)
      in if resp = [] then ''''
         else (case find_text (crlf @ crlf) resp of None \<Rightarrow> resp | Some p \<Rightarrow> drop (p + 4) resp))"

subsection \<open>Arguments\<close>

fun GetArg :: "string list \<Rightarrow> string \<Rightarrow> string" where
  \<comment> \<open>the word after the first occurrence of the flag that is not the last word\<close>
  "GetArg (a # b # args) flag = (if a = flag then b else GetArg (b # args) flag)"
| "GetArg _ flag = ''''"

definition Usage :: cli_result where
  "Usage = \<lparr>cli_lines =
     [''Usage: oems-cli <command> [options]'',
      ''Commands:'',
      ''  server-status'',
      ''  new-order  --symbol SYMBOL --side buy|sell --qty QTY '' @ ''--type limit|market [--price PRICE]'',
      ''  cancel-order --order-id ID'',
      ''  show-orders [--symbol S] [--status S]'',
      ''  show-book --symbol S'',
      ''  show-trades''],
     cli_exit = 1\<rparr>"

definition answer :: "string \<Rightarrow> cli_result" where
  "answer text = \<lparr>cli_lines = [text], cli_exit = 0\<rparr>"

definition new_order_body :: "string list \<Rightarrow> string" where
  "new_order_body args =
     (let cl = GetArg args ''--cl-ord-id''; prc = GetArg args ''--price''
      in ''{\"client_order_id\":\"'' @ (if cl = [] then ''CLI1'' else cl) @
         ''\",\"symbol\":\"'' @ GetArg args ''--symbol'' @
         ''\",\"side\":\"'' @ GetArg args ''--side'' @
         ''\",\"type\":\"'' @ GetArg args ''--type'' @
         ''\",\"price\":'' @ (if prc = [] then ''0'' else prc) @
         '',\"quantity\":'' @ GetArg args ''--qty'' @ ''}'')"

definition show_orders_path :: "string list \<Rightarrow> string" where
  "show_orders_path args =
     (let sy = GetArg args ''--symbol''; status = GetArg args ''--status'';
          q1 = (if sy \<noteq> [] then ''symbol='' @ sy else '''');
          q2 = (if status \<noteq> [] then q1 @ (if q1 \<noteq> [] then ''&'' else '''') @ ''status='' @ status else q1)
      in ''/v1/orders'' @ (if q2 \<noteq> [] then ''?'' @ q2 else ''''))"

definition cli_main :: "network \<Rightarrow> string list \<Rightarrow> cli_result" where
  "cli_main net args =
     (case args of
        [] \<Rightarrow> Usage
      | cmd # _ \<Rightarrow>
          if cmd = ''server-status'' then answer (SendHttp net ''GET'' ''/v1/health'' '''')
          else if cmd = ''new-order'' then answer (SendHttp net ''POST'' ''/v1/orders'' (new_order_body args))
          else if cmd = ''cancel-order''
          then answer (SendHttp net ''POST'' (''/v1/orders/'' @ GetArg args ''--order-id'' @ ''/cancel'') '''')
          else if cmd = ''show-orders'' then answer (SendHttp net ''GET'' (show_orders_path args) '''')
          else if cmd = ''show-book''
          then answer (SendHttp net ''GET'' (''/v1/books/'' @ GetArg args ''--symbol'') '''')
          else if cmd = ''show-trades'' then answer (SendHttp net ''GET'' ''/v1/executions'' '''')
          else Usage)"

end
