(* ===== verification/Routing.thy ===== *)
theory Routing
  imports Http_Api Cli
begin

section \<open>Routing (src/src/api-gen/api/, the controllers that main.cc registers)\<close>

text \<open>
  The endpoints of the generated API classes and what each passes to the controller that overrides
  its handler. Reading a request from the wire, matching it with a pattern, reading the parameters and
  JSON are the library's: a parameter \<open>web_library\<close>.
\<close>

subsection \<open>Endpoints\<close>

datatype endpoint_call =
  get_health_handler | get_book_handler | list_executions_handler | cancel_order_handler
| get_order_handler | list_orders_handler | submit_order_handler

record endpoint =
  ep_method :: string
  ep_pattern :: string
  ep_call :: endpoint_call

definition health_endpoint :: endpoint where
  "health_endpoint = \<lparr>ep_method = ''GET'', ep_pattern = ''/v1/health'', ep_call = get_health_handler\<rparr>"

definition cancel_endpoint :: endpoint where
  "cancel_endpoint = \<lparr>ep_method = ''POST'', ep_pattern = ''/v1/orders/{id}/cancel'', ep_call = cancel_order_handler\<rparr>"

definition order_endpoint :: endpoint where
  "order_endpoint = \<lparr>ep_method = ''GET'', ep_pattern = ''/v1/orders/{id}'', ep_call = get_order_handler\<rparr>"

definition orders_endpoint :: endpoint where
  "orders_endpoint = \<lparr>ep_method = ''GET'', ep_pattern = ''/v1/orders'', ep_call = list_orders_handler\<rparr>"

definition submit_endpoint :: endpoint where
  "submit_endpoint = \<lparr>ep_method = ''POST'', ep_pattern = ''/v1/orders'', ep_call = submit_order_handler\<rparr>"

definition book_endpoint :: endpoint where
  "book_endpoint = \<lparr>ep_method = ''GET'', ep_pattern = ''/v1/books/{symbol}'', ep_call = get_book_handler\<rparr>"

definition executions_endpoint :: endpoint where
  "executions_endpoint = \<lparr>ep_method = ''GET'', ep_pattern = ''/v1/executions'', ep_call = list_executions_handler\<rparr>"

definition router :: "endpoint list" where
  \<comment> \<open>the four controllers in the order main adds them\<close>
  "router = [health_endpoint] @ [cancel_endpoint, order_endpoint, orders_endpoint, submit_endpoint]
     @ [book_endpoint] @ [executions_endpoint]"

subsection \<open>The library\<close>

text \<open>
  \<open>lb_query\<close> and \<open>lb_body\<close> give the value passed to the handler or the response with which the library
  refuses the request itself.
\<close>

record web_library =
  lb_request :: "string \<Rightarrow> (string \<times> string \<times> string) option"
  lb_route :: "endpoint list \<Rightarrow> string \<Rightarrow> string \<Rightarrow> endpoint option"
  lb_path :: "string \<Rightarrow> string \<Rightarrow> string \<Rightarrow> string option"
  lb_int64 :: "string \<Rightarrow> int option"
  lb_query :: "string \<Rightarrow> string \<Rightarrow> response + string option"
  lb_body :: "string \<Rightarrow> response + new_order_dto option"
  lb_bad_path :: response
  lb_no_route :: response

definition path_id :: "web_library \<Rightarrow> endpoint \<Rightarrow> string \<Rightarrow> int option" where
  "path_id lib e target = (case lb_path lib (ep_pattern e) target ''id'' of None \<Rightarrow> None | Some w \<Rightarrow> lb_int64 lib w)"

definition cancel_order_call ::
  "web_library \<Rightarrow> 'd sqlite \<Rightarrow> endpoint \<Rightarrow> string \<Rightarrow> 'd services \<Rightarrow> response \<times> 'd services" where
  "cancel_order_call lib sq e target services =
     (case path_id lib e target of
        None \<Rightarrow> (lb_bad_path lib, services)
      | Some i \<Rightarrow> cancel_order sq (Some i) services)"

definition get_order_call :: "web_library \<Rightarrow> endpoint \<Rightarrow> string \<Rightarrow> 'd services \<Rightarrow> response" where
  "get_order_call lib e target services =
     (case path_id lib e target of
        None \<Rightarrow> lb_bad_path lib
      | Some i \<Rightarrow> get_order (Some i) services)"

definition list_orders_call :: "web_library \<Rightarrow> string \<Rightarrow> 'd services \<Rightarrow> response" where
  "list_orders_call lib target services =
     (case lb_query lib target ''symbol'' of
        Inl r \<Rightarrow> r
      | Inr sy \<Rightarrow>
          (case lb_query lib target ''status'' of
             Inl r \<Rightarrow> r
           | Inr st \<Rightarrow> list_orders sy st services))"

definition submit_order_call ::
  "web_library \<Rightarrow> 'd sqlite \<Rightarrow> string \<Rightarrow> 'd services \<Rightarrow> response \<times> 'd services" where
  "submit_order_call lib sq body services =
     (case lb_body lib body of Inl r \<Rightarrow> (r, services) | Inr d \<Rightarrow> submit_order sq d services)"

definition get_book_call :: "web_library \<Rightarrow> endpoint \<Rightarrow> string \<Rightarrow> 'd services \<Rightarrow> response option" where
  "get_book_call lib e target services = get_book (lb_path lib (ep_pattern e) target ''symbol'') services"

definition call_endpoint ::
  "web_library \<Rightarrow> 'd sqlite \<Rightarrow> endpoint \<Rightarrow> string \<Rightarrow> string \<Rightarrow> 'd services \<Rightarrow> (response \<times> 'd services) option" where
  \<comment> \<open>\<open>None\<close>: undefined behaviour in get_book\<close>
  "call_endpoint lib sq e target body services =
     (case ep_call e of
        get_health_handler \<Rightarrow> Some (get_health, services)
      | get_book_handler \<Rightarrow> map_option (\<lambda>r. (r, services)) (get_book_call lib e target services)
      | list_executions_handler \<Rightarrow> Some (list_executions services, services)
      | cancel_order_handler \<Rightarrow> Some (cancel_order_call lib sq e target services)
      | get_order_handler \<Rightarrow> Some (get_order_call lib e target services, services)
      | list_orders_handler \<Rightarrow> Some (list_orders_call lib target services, services)
      | submit_order_handler \<Rightarrow> Some (submit_order_call lib sq body services))"

definition handle_request ::
  "web_library \<Rightarrow> 'd sqlite \<Rightarrow> string \<Rightarrow> string \<Rightarrow> string \<Rightarrow> 'd services \<Rightarrow> (response \<times> 'd services) option" where
  "handle_request lib sq meth target body services =
     (case lb_route lib router meth target of
        None \<Rightarrow> Some (lb_no_route lib, services)
      | Some e \<Rightarrow> call_endpoint lib sq e target body services)"

end
