(* ===== verification/Routing_Properties.thy ===== *)
theory Routing_Properties
  imports Routing Order_Properties
begin

section \<open>The command line client reaches the handlers\<close>

text \<open>
  What HTTP and JSON say of plain input (\<open>web_library_ok\<close>): words of letters, digits, hyphen, dot,
  underscore and tilde, which need no escaping in a path, a query or a JSON text. Of anything else
  nothing is assumed. Under it every command of the client with plain arguments ends in the handler
  that was written for it, with these arguments.
\<close>

subsection \<open>Plain words\<close>

definition plain_char :: "char \<Rightarrow> bool" where
  "plain_char c \<longleftrightarrow> (let n = (of_char c :: nat) in 48 \<le> n \<and> n \<le> 57 \<or> 65 \<le> n \<and> n \<le> 90 \<or> 97 \<le> n \<and> n \<le> 122)
     \<or> c \<in> set ''-._~''"

definition plain_word :: "string \<Rightarrow> bool" where
  "plain_word w \<longleftrightarrow> w \<noteq> [] \<and> list_all plain_char w"

fun splits :: "char \<Rightarrow> string \<Rightarrow> string list" where
  "splits c [] = [[]]"
| "splits c (x # xs) = (if x = c then [] # splits c xs
     else case splits c xs of s # ss \<Rightarrow> (x # s) # ss | [] \<Rightarrow> [[x]])"

fun join :: "char \<Rightarrow> string list \<Rightarrow> string" where
  "join c [] = []"
| "join c [w] = w"
| "join c (w # v # ws) = w @ c # join c (v # ws)"

lemma splits_word: "c \<notin> set w \<Longrightarrow> splits c w = [w]" "c \<notin> set w \<Longrightarrow> splits c (w @ c # r) = w # splits c r"
  by (induction w) auto

lemma splits_join: "ws \<noteq> [] \<Longrightarrow> \<forall>w \<in> set ws. c \<notin> set w \<Longrightarrow> splits c (join c ws) = ws"
  by (induction c ws rule: join.induct) (auto simp: splits_word)

lemma plain_chars: "plain_char c \<Longrightarrow> c \<notin> set ''/?&= ,:{}'' \<and> c \<noteq> CHR 0x22"
  by (auto simp: plain_char_def Let_def)

lemma plain_not_in: "list_all plain_char w \<Longrightarrow> c \<in> set ''/?&= ,:{}'' \<or> c = CHR 0x22 \<Longrightarrow> c \<notin> set w"
  using plain_chars by (fastforce simp: list_all_iff)

subsection \<open>Paths, queries and JSON objects\<close>

definition path_segments :: "string \<Rightarrow> string list" where
  "path_segments target = splits (CHR ''/'') (takeWhile (\<lambda>c. c \<noteq> CHR ''?'') target)"

definition variable_segment :: "string \<Rightarrow> bool" where
  "variable_segment p \<longleftrightarrow> p \<noteq> [] \<and> hd p = CHR ''{''"

definition fits :: "string \<Rightarrow> string \<Rightarrow> bool" where
  "fits pattern target =
     list_all2 (\<lambda>p s. if variable_segment p then s \<noteq> [] else s = p) (splits (CHR ''/'') pattern) (path_segments target)"

definition path_var :: "string \<Rightarrow> string \<Rightarrow> string \<Rightarrow> string option" where
  "path_var pattern target name = map_of (zip (splits (CHR ''/'') pattern) (path_segments target)) (''{'' @ name @ ''}'')"

text \<open>A path of plain words, and one with a query of plain names and values.\<close>

definition plain_path :: "string \<Rightarrow> bool" where
  "plain_path t \<longleftrightarrow> (case splits (CHR ''/'') t of e # ws \<Rightarrow> e = [] \<and> ws \<noteq> [] \<and> list_all plain_word ws | [] \<Rightarrow> False)"

definition query_text :: "(string \<times> string) list \<Rightarrow> string" where
  "query_text kvs = CHR ''?'' # join (CHR ''&'') (map (\<lambda>(k, v). k @ CHR ''='' # v) kvs)"

definition plain_query :: "(string \<times> string) list \<Rightarrow> bool" where
  "plain_query kvs \<longleftrightarrow> kvs \<noteq> [] \<and> distinct (map fst kvs) \<and> list_all (\<lambda>(k, v). plain_word k \<and> plain_word v) kvs"

definition plain_target :: "string \<Rightarrow> bool" where
  "plain_target t \<longleftrightarrow> (\<exists>p. plain_path p \<and> (t = p \<or> (\<exists>kvs. plain_query kvs \<and> t = p @ query_text kvs)))"

datatype json_value = JString string | JInt int

fun json_text :: "json_value \<Rightarrow> string" where
  "json_text (JString s) = CHR 0x22 # s @ [CHR 0x22]"
| "json_text (JInt i) = int_to_string i"

definition json_object :: "(string \<times> json_value) list \<Rightarrow> string" where
  "json_object ms = ''{'' @ join (CHR '','') (map (\<lambda>(k, v). json_text (JString k) @ CHR '':'' # json_text v) ms) @ ''}''"

text \<open>The members of an order request, each with a value of its type, and the object they are read as.\<close>

definition order_member :: "string \<times> json_value \<Rightarrow> bool" where
  "order_member m \<longleftrightarrow> (case m of
     (k, JString s) \<Rightarrow> k \<in> {''client_order_id'', ''symbol'', ''side'', ''type''} \<and> list_all plain_char s
   | (k, JInt i) \<Rightarrow> k \<in> {''price'', ''quantity''} \<and> in_i64 i)"

definition text_member :: "(string \<times> json_value) list \<Rightarrow> string \<Rightarrow> string option" where
  "text_member ms k = (case map_of ms k of Some (JString s) \<Rightarrow> Some s | _ \<Rightarrow> None)"

definition int_member :: "(string \<times> json_value) list \<Rightarrow> string \<Rightarrow> int option" where
  "int_member ms k = (case map_of ms k of Some (JInt i) \<Rightarrow> Some i | _ \<Rightarrow> None)"

definition order_dto_of :: "(string \<times> json_value) list \<Rightarrow> new_order_dto" where
  "order_dto_of ms = \<lparr>nd_client_order_id = text_member ms ''client_order_id'', nd_symbol = text_member ms ''symbol'',
     nd_side = text_member ms ''side'', nd_type = text_member ms ''type'',
     nd_price = int_member ms ''price'', nd_quantity = int_member ms ''quantity''\<rparr>"

subsection \<open>The library on plain input\<close>

definition web_library_ok :: "web_library \<Rightarrow> bool" where
  "web_library_ok lib \<longleftrightarrow>
     (\<forall>m t b. m \<in> {''GET'', ''POST''} \<and> plain_target t \<longrightarrow> lb_request lib (http_request_text m t b) = Some (m, t, b))
     \<and> (\<forall>m t. m \<in> {''GET'', ''POST''} \<and> plain_target t \<longrightarrow> (case lb_route lib router m t of
          Some e \<Rightarrow> e \<in> set router \<and> ep_method e = m \<and> fits (ep_pattern e) t
        | None \<Rightarrow> \<forall>e \<in> set router. \<not> (ep_method e = m \<and> fits (ep_pattern e) t)))
     \<and> (\<forall>e \<in> set router. \<forall>t n. plain_target t \<and> fits (ep_pattern e) t \<longrightarrow> lb_path lib (ep_pattern e) t n = path_var (ep_pattern e) t n)
     \<and> (\<forall>i. in_i64 i \<longrightarrow> lb_int64 lib (int_to_string i) = Some i)
     \<and> (\<forall>p kvs k v. plain_path p \<and> plain_query kvs \<and> (k, v) \<in> set kvs \<longrightarrow> lb_query lib (p @ query_text kvs) k = Inr (Some v))
     \<and> (\<forall>ms. ms \<noteq> [] \<and> distinct (map fst ms) \<and> list_all order_member ms \<longrightarrow>
          lb_body lib (json_object ms) = Inr (Some (order_dto_of ms)))"

lemma no_query: "CHR ''?'' \<notin> set w \<Longrightarrow> takeWhile (\<lambda>c. c \<noteq> CHR ''?'') (w @ r) = w @ takeWhile (\<lambda>c. c \<noteq> CHR ''?'') r"
  by (rule takeWhile_append2) auto

lemma no_query_word: "CHR ''?'' \<notin> set w \<Longrightarrow> takeWhile (\<lambda>c. c \<noteq> CHR ''?'') w = w"
  by (simp add: takeWhile_eq_all_conv) auto

lemma plain_wordD:
  "plain_word w \<Longrightarrow> w \<noteq> [] \<and> CHR ''/'' \<notin> set w \<and> CHR ''?'' \<notin> set w \<and> CHR '' '' \<notin> set w"
  using plain_not_in [of w] by (auto simp: plain_word_def)

lemma path_segments:
  "plain_word w \<Longrightarrow> path_segments (''/v1/orders/'' @ w @ ''/cancel'') = ['''', ''v1'', ''orders'', w, ''cancel'']"
  "plain_word w \<Longrightarrow> path_segments (''/v1/books/'' @ w) = ['''', ''v1'', ''books'', w]"
  "path_segments (''/v1/orders'') = ['''', ''v1'', ''orders'']" "path_segments (''/v1/orders'' @ query_text kvs) = ['''', ''v1'', ''orders'']"
  "path_segments (''/v1/health'') = ['''', ''v1'', ''health'']" "path_segments (''/v1/executions'') = ['''', ''v1'', ''executions'']"
  by (auto simp: path_segments_def query_text_def no_query no_query_word splits_word dest!: plain_wordD)

lemma plain_paths:
  "plain_word w \<Longrightarrow> plain_path (''/v1/orders/'' @ w @ ''/cancel'')" "plain_word w \<Longrightarrow> plain_path (''/v1/books/'' @ w)"
  "plain_path ''/v1/orders''" "plain_path ''/v1/health''" "plain_path ''/v1/executions''"
proof -
  have words: "plain_word ''v1''" "plain_word ''orders''" "plain_word ''books''" "plain_word ''cancel''" "plain_word ''health''"
    "plain_word ''executions''" by code_simp+
  show "plain_word w \<Longrightarrow> plain_path (''/v1/orders/'' @ w @ ''/cancel'')" "plain_word w \<Longrightarrow> plain_path (''/v1/books/'' @ w)"
    "plain_path ''/v1/orders''" "plain_path ''/v1/health''" "plain_path ''/v1/executions''"
    using words plain_wordD [of w] by (simp_all add: plain_path_def splits_word)
qed

lemma plain_targets: "plain_path t \<Longrightarrow> plain_target t" "plain_path p \<Longrightarrow> plain_query kvs \<Longrightarrow> plain_target (p @ query_text kvs)"
  by (auto simp: plain_target_def)

lemma pattern_segments:
  "splits (CHR ''/'') ''/v1/health'' = ['''', ''v1'', ''health'']" "splits (CHR ''/'') ''/v1/orders'' = ['''', ''v1'', ''orders'']"
  "splits (CHR ''/'') ''/v1/orders/{id}/cancel'' = ['''', ''v1'', ''orders'', ''{id}'', ''cancel'']"
  "splits (CHR ''/'') ''/v1/orders/{id}'' = ['''', ''v1'', ''orders'', ''{id}'']"
  "splits (CHR ''/'') ''/v1/books/{symbol}'' = ['''', ''v1'', ''books'', ''{symbol}'']"
  "splits (CHR ''/'') ''/v1/executions'' = ['''', ''v1'', ''executions'']"
  by simp_all

lemmas endpoint_defs = health_endpoint_def cancel_endpoint_def order_endpoint_def orders_endpoint_def submit_endpoint_def
  book_endpoint_def executions_endpoint_def

text \<open>Exactly one endpoint of the router fits: then the library takes it.\<close>

lemma routed:
  assumes "web_library_ok lib" and "e \<in> set router" "ep_method e = m" "fits (ep_pattern e) t" "plain_target t"
    and "list_all (\<lambda>x. x = e \<or> \<not> (ep_method x = m \<and> fits (ep_pattern x) t)) router"
  shows "lb_route lib router m t = Some e"
proof -
  have "m \<in> {''GET'', ''POST''}" using assms(2,3) by (auto simp: router_def endpoint_defs)
  then have "case lb_route lib router m t of
          Some e \<Rightarrow> e \<in> set router \<and> ep_method e = m \<and> fits (ep_pattern e) t
        | None \<Rightarrow> \<forall>e \<in> set router. \<not> (ep_method e = m \<and> fits (ep_pattern e) t)"
    using assms(1,5) unfolding web_library_ok_def by blast
  with assms(2-) show ?thesis by (cases "lb_route lib router m t") (auto simp: list_all_iff)
qed

lemma endpoint_simps [simp]:
  "ep_method health_endpoint = ''GET''" "ep_method cancel_endpoint = ''POST''" "ep_method order_endpoint = ''GET''"
  "ep_method orders_endpoint = ''GET''" "ep_method submit_endpoint = ''POST''" "ep_method book_endpoint = ''GET''"
  "ep_method executions_endpoint = ''GET''"
  by (simp_all add: endpoint_defs)

lemma fits_endpoint:
  "fits (ep_pattern health_endpoint) t \<longleftrightarrow> path_segments t = ['''', ''v1'', ''health'']"
  "fits (ep_pattern executions_endpoint) t \<longleftrightarrow> path_segments t = ['''', ''v1'', ''executions'']"
  "fits (ep_pattern orders_endpoint) t \<longleftrightarrow> path_segments t = ['''', ''v1'', ''orders'']"
  "fits (ep_pattern submit_endpoint) t \<longleftrightarrow> path_segments t = ['''', ''v1'', ''orders'']"
  "fits (ep_pattern order_endpoint) t \<longleftrightarrow> (\<exists>w. w \<noteq> [] \<and> path_segments t = ['''', ''v1'', ''orders'', w])"
  "fits (ep_pattern book_endpoint) t \<longleftrightarrow> (\<exists>w. w \<noteq> [] \<and> path_segments t = ['''', ''v1'', ''books'', w])"
  "fits (ep_pattern cancel_endpoint) t \<longleftrightarrow> (\<exists>w. w \<noteq> [] \<and> path_segments t = ['''', ''v1'', ''orders'', w, ''cancel''])"
  by (auto simp: fits_def endpoint_defs pattern_segments variable_segment_def list_all2_Cons1 simp del: splits.simps)

lemma routes:
  assumes ok: "web_library_ok lib"
  shows "lb_route lib router ''GET'' ''/v1/health'' = Some health_endpoint"
    "lb_route lib router ''GET'' ''/v1/executions'' = Some executions_endpoint"
    "lb_route lib router ''POST'' ''/v1/orders'' = Some submit_endpoint"
    "plain_query kvs \<Longrightarrow> lb_route lib router ''GET'' (''/v1/orders'' @ query_text kvs) = Some orders_endpoint"
    "plain_word w \<Longrightarrow> lb_route lib router ''POST'' (''/v1/orders/'' @ w @ ''/cancel'') = Some cancel_endpoint"
    "plain_word w \<Longrightarrow> lb_route lib router ''GET'' (''/v1/books/'' @ w) = Some book_endpoint"
  by (rule routed [OF ok]; simp add: router_def fits_endpoint path_segments plain_paths plain_targets plain_wordD del: append.simps)+

lemma path_vars:
  assumes ok: "web_library_ok lib" and w: "plain_word w"
  shows "lb_path lib (ep_pattern cancel_endpoint) (''/v1/orders/'' @ w @ ''/cancel'') ''id'' = Some w"
    "lb_path lib (ep_pattern book_endpoint) (''/v1/books/'' @ w) ''symbol'' = Some w"
proof -
  have law: "\<forall>e \<in> set router. \<forall>t n. plain_target t \<and> fits (ep_pattern e) t \<longrightarrow> lb_path lib (ep_pattern e) t n = path_var (ep_pattern e) t n"
    using ok unfolding web_library_ok_def by blast
  have "cancel_endpoint \<in> set router" "book_endpoint \<in> set router" by (simp_all add: router_def)
  moreover have "fits (ep_pattern cancel_endpoint) (''/v1/orders/'' @ w @ ''/cancel'')" "fits (ep_pattern book_endpoint) (''/v1/books/'' @ w)"
    using w by (simp_all add: fits_endpoint path_segments plain_wordD del: append.simps)
  ultimately have "lb_path lib (ep_pattern cancel_endpoint) (''/v1/orders/'' @ w @ ''/cancel'') ''id'' =
      path_var (ep_pattern cancel_endpoint) (''/v1/orders/'' @ w @ ''/cancel'') ''id''"
    "lb_path lib (ep_pattern book_endpoint) (''/v1/books/'' @ w) ''symbol'' = path_var (ep_pattern book_endpoint) (''/v1/books/'' @ w) ''symbol''"
    using law plain_targets(1) [OF plain_paths(1) [OF w]] plain_targets(1) [OF plain_paths(2) [OF w]] by blast+
  then show "lb_path lib (ep_pattern cancel_endpoint) (''/v1/orders/'' @ w @ ''/cancel'') ''id'' = Some w"
    "lb_path lib (ep_pattern book_endpoint) (''/v1/books/'' @ w) ''symbol'' = Some w"
    using path_segments(1,2) [OF w] unfolding path_var_def
    by (simp_all add: endpoint_defs pattern_segments del: splits.simps)
qed

subsection \<open>Commands\<close>

text \<open>
  A command reaches a handler: whatever the socket delivers, the client sends one request and prints
  what \<open>SendHttp\<close> makes of the bytes it receives; the library reads the request back from the bytes
  that were sent; and the server handles it with this outcome.
\<close>

definition reaches ::
  "web_library \<Rightarrow> 'd sqlite \<Rightarrow> 'd services \<Rightarrow> string list \<Rightarrow> (response \<times> 'd services) option \<Rightarrow> bool" where
  "reaches lib sq services args outcome \<longleftrightarrow> (\<exists>m t b. (\<forall>net. cli_main net args = answer (SendHttp net m t b))
     \<and> lb_request lib (http_request_text m t b) = Some (m, t, b) \<and> handle_request lib sq m t b services = outcome)"

lemma reachesI:
  assumes "web_library_ok lib" and "\<And>net. cli_main net args = answer (SendHttp net m t b)" and "m \<in> {''GET'', ''POST''}"
    and "plain_target t" and "handle_request lib sq m t b services = outcome"
  shows "reaches lib sq services args outcome"
proof -
  have "\<forall>m t b. m \<in> {''GET'', ''POST''} \<and> plain_target t \<longrightarrow> lb_request lib (http_request_text m t b) = Some (m, t, b)"
    using assms(1) unfolding web_library_ok_def by (rule conjunct1)
  with assms(3,4) have "lb_request lib (http_request_text m t b) = Some (m, t, b)" by simp
  with assms(2,5) show ?thesis unfolding reaches_def by (intro exI [of _ m] exI [of _ t] exI [of _ b]) simp
qed

lemma plain_digits: "is_digit c \<Longrightarrow> plain_char c" "plain_char (CHR ''-'')"
  by (simp add: plain_char_def is_digit_def Let_def) code_simp

lemma plain_int: "plain_word (int_to_string i)"
  using nat_to_string_Cons [of "nat i"] plain_digits nat_to_string_digits
  by (auto simp: plain_word_def int_to_string_def list_all_iff)

lemma new_order_json:
  assumes "GetArg args ''--price'' = (case prc of None \<Rightarrow> '''' | Some p \<Rightarrow> int_to_string p)" and "GetArg args ''--qty'' = int_to_string q"
  shows "new_order_body args = json_object
    [(''client_order_id'', JString (if GetArg args ''--cl-ord-id'' = [] then ''CLI1'' else GetArg args ''--cl-ord-id'')),
     (''symbol'', JString (GetArg args ''--symbol'')), (''side'', JString (GetArg args ''--side'')),
     (''type'', JString (GetArg args ''--type'')), (''price'', JInt (case prc of None \<Rightarrow> 0 | Some p \<Rightarrow> p)), (''quantity'', JInt q)]"
proof -
  have "int_to_string 0 = ''0''" by (simp add: strings_eval)
  then have price: "(if GetArg args ''--price'' = [] then ''0'' else GetArg args ''--price'') =
      int_to_string (case prc of None \<Rightarrow> 0 | Some p \<Rightarrow> p)"
    using plain_wordD [OF plain_int] by (cases prc) (simp_all add: assms(1))
  show ?thesis unfolding new_order_body_def Let_def price assms(2) by (simp add: json_object_def)
qed

lemma show_orders_query:
  assumes "GetArg args ''--symbol'' = sy" "GetArg args ''--status'' = st" "sy \<noteq> []" "st \<noteq> []"
  shows "show_orders_path args = ''/v1/orders'' @ query_text [(''symbol'', sy), (''status'', st)]"
  using assms by (simp add: show_orders_path_def query_text_def Let_def)

lemma reach_status:
  assumes ok: "web_library_ok lib"
  shows "reaches lib sq services (''server-status'' # args) (Some (get_health, services))"
    "reaches lib sq services (''show-trades'' # args) (Some (list_executions services, services))"
  by (rule reachesI [OF ok, of _ "''GET''" "''/v1/health''" "''''"], simp_all add: cli_main_def plain_targets plain_paths
      handle_request_def routes [OF ok] call_endpoint_def endpoint_defs)
    (rule reachesI [OF ok, of _ "''GET''" "''/v1/executions''" "''''"], simp_all add: cli_main_def plain_targets plain_paths
      handle_request_def routes [OF ok] call_endpoint_def endpoint_defs)

lemma reach_orders:
  assumes ok: "web_library_ok lib" and w: "GetArg (''show-orders'' # args) ''--symbol'' = sy" "plain_word sy"
    "GetArg (''show-orders'' # args) ''--status'' = st" "plain_word st"
  shows "reaches lib sq services (''show-orders'' # args) (Some (list_orders (Some sy) (Some st) services, services))"
proof -
  let ?q = "[(''symbol'', sy), (''status'', st)]" and ?p = "''/v1/orders''"
  have path: "show_orders_path (''show-orders'' # args) = ?p @ query_text ?q"
    using w plain_wordD by (intro show_orders_query) blast+
  have "plain_word ''symbol''" "plain_word ''status''" by code_simp+
  then have q: "plain_query ?q" using w by (simp add: plain_query_def)
  have law: "\<forall>p kvs k v. plain_path p \<and> plain_query kvs \<and> (k, v) \<in> set kvs \<longrightarrow> lb_query lib (p @ query_text kvs) k = Inr (Some v)"
    using ok unfolding web_library_ok_def by (elim conjE)
  have vals: "lb_query lib (?p @ query_text ?q) ''symbol'' = Inr (Some sy)" "lb_query lib (?p @ query_text ?q) ''status'' = Inr (Some st)"
    by (rule law [rule_format], simp add: plain_paths q)+
  show ?thesis
    by (rule reachesI [OF ok, of _ "''GET''" "?p @ query_text ?q" "''''"])
      (simp_all add: cli_main_def path plain_targets plain_paths q handle_request_def routes(4) [OF ok q] call_endpoint_def
        orders_endpoint_def list_orders_call_def vals del: append.simps GetArg.simps)
qed

lemma reach_book:
  assumes ok: "web_library_ok lib" and w: "GetArg (''show-book'' # args) ''--symbol'' = sy" "plain_word sy"
  shows "reaches lib sq services (''show-book'' # args) (map_option (\<lambda>r. (r, services)) (get_book (Some sy) services))"
  by (rule reachesI [OF ok, of _ "''GET''" "''/v1/books/'' @ sy" "''''"])
    (simp_all add: cli_main_def w plain_targets plain_paths handle_request_def routes(6) [OF ok w(2)] call_endpoint_def
      get_book_call_def path_vars(2) [OF ok w(2)] book_endpoint_def [THEN arg_cong [where f = ep_call]] del: append.simps GetArg.simps)

lemma reach_cancel:
  assumes ok: "web_library_ok lib" and w: "GetArg (''cancel-order'' # args) ''--order-id'' = int_to_string i" and i: "in_i64 i"
  shows "reaches lib sq services (''cancel-order'' # args) (Some (cancel_order sq (Some i) services))"
proof -
  have id_law: "\<forall>i. in_i64 i \<longrightarrow> lb_int64 lib (int_to_string i) = Some i" using ok unfolding web_library_ok_def by (elim conjE)
  show ?thesis
    by (rule reachesI [OF ok, of _ "''POST''" "''/v1/orders/'' @ int_to_string i @ ''/cancel''" "''''"])
      (simp_all add: cli_main_def w plain_int plain_targets plain_paths handle_request_def routes(5) [OF ok plain_int] call_endpoint_def
        cancel_order_call_def path_id_def path_vars(1) [OF ok plain_int] id_law i
        cancel_endpoint_def [THEN arg_cong [where f = ep_call]] del: append.simps GetArg.simps)
qed

lemma reach_submit:
  assumes ok: "web_library_ok lib" and args: "args = ''new-order'' # rest"
    and texts: "list_all plain_char (GetArg args ''--cl-ord-id'')" "list_all plain_char (GetArg args ''--symbol'')"
      "list_all plain_char (GetArg args ''--side'')" "list_all plain_char (GetArg args ''--type'')"
    and qty: "GetArg args ''--qty'' = int_to_string q" "in_i64 q"
    and price: "GetArg args ''--price'' = (case prc of None \<Rightarrow> '''' | Some p \<Rightarrow> int_to_string p)" "in_i64 (case prc of None \<Rightarrow> 0 | Some p \<Rightarrow> p)"
  shows "reaches lib sq services args (Some (submit_order sq (Some \<lparr>
      nd_client_order_id = Some (if GetArg args ''--cl-ord-id'' = [] then ''CLI1'' else GetArg args ''--cl-ord-id''),
      nd_symbol = Some (GetArg args ''--symbol''), nd_side = Some (GetArg args ''--side''), nd_type = Some (GetArg args ''--type''),
      nd_price = Some (case prc of None \<Rightarrow> 0 | Some p \<Rightarrow> p), nd_quantity = Some q\<rparr>) services))"
proof -
  let ?cl = "if GetArg args ''--cl-ord-id'' = [] then ''CLI1'' else GetArg args ''--cl-ord-id''"
  let ?ms = "[(''client_order_id'', JString ?cl), (''symbol'', JString (GetArg args ''--symbol'')),
     (''side'', JString (GetArg args ''--side'')), (''type'', JString (GetArg args ''--type'')),
     (''price'', JInt (case prc of None \<Rightarrow> 0 | Some p \<Rightarrow> p)), (''quantity'', JInt q)]"
  have "list_all plain_char ''CLI1''" by code_simp
  then have ms: "list_all order_member ?ms" "distinct (map fst ?ms)" using texts qty(2) price(2) by (simp_all add: order_member_def)
  have law: "\<forall>ms. ms \<noteq> [] \<and> distinct (map fst ms) \<and> list_all order_member ms \<longrightarrow> lb_body lib (json_object ms) = Inr (Some (order_dto_of ms))"
    using ok unfolding web_library_ok_def by (elim conjE)
  have body: "lb_body lib (json_object ?ms) = Inr (Some (order_dto_of ?ms))" by (rule law [rule_format]) (use ms in simp)
  have main: "cli_main net args = answer (SendHttp net ''POST'' ''/v1/orders'' (json_object ?ms))" for net
    using new_order_json [OF price(1) qty(1)] by (simp add: cli_main_def args del: GetArg.simps)
  show ?thesis
    by (rule reachesI [OF ok main])
      (simp_all add: plain_targets plain_paths handle_request_def routes(3) [OF ok] call_endpoint_def submit_order_call_def body
        submit_endpoint_def order_dto_of_def text_member_def int_member_def del: GetArg.simps)
qed

text \<open>
  C12: Every command of the client reaches the handler that was written for it, with the arguments it
  was given. Assume a web library that treats plain input as HTTP and JSON say (plain words are made of
  letters, digits, hyphen, dot, underscore and tilde). Then the one request that each command
  sends is read by the library and handled by the server as follows: server-status by get_health;
  show-trades by list_executions; show-orders with a plain symbol and status by list_orders with these
  two; show-book with a plain symbol by get_book with it; cancel-order with a 64-bit number by
  cancel_order with this id; and new-order with plain texts and 64-bit numbers by submit_order with an
  object whose six fields are the six arguments, CLI1 for a missing client order id and 0 for a missing
  price. The theorem is about the request: what comes back over the socket is printed as it is
  received, and is not part of it. A command that is not known prints the usage, exits with 1 and sends
  nothing.
\<close>

theorem cli_commands_reach_handlers:
  assumes ok: "web_library_ok lib"
    and cancel: "GetArg (''cancel-order'' # cargs) ''--order-id'' = int_to_string i" "in_i64 i"
    and book: "GetArg (''show-book'' # bargs) ''--symbol'' = bsy" "plain_word bsy"
    and orders: "GetArg (''show-orders'' # oargs) ''--symbol'' = osy" "plain_word osy"
      "GetArg (''show-orders'' # oargs) ''--status'' = ost" "plain_word ost"
    and new: "nargs = ''new-order'' # rest" "list_all plain_char (GetArg nargs ''--cl-ord-id'')"
      "list_all plain_char (GetArg nargs ''--symbol'')" "list_all plain_char (GetArg nargs ''--side'')"
      "list_all plain_char (GetArg nargs ''--type'')"
    and qty: "GetArg nargs ''--qty'' = int_to_string q" "in_i64 q"
    and price: "GetArg nargs ''--price'' = (case prc of None \<Rightarrow> '''' | Some p \<Rightarrow> int_to_string p)"
      "in_i64 (case prc of None \<Rightarrow> 0 | Some p \<Rightarrow> p)"
    and other: "cmd \<notin> {''server-status'', ''new-order'', ''cancel-order'', ''show-orders'', ''show-book'', ''show-trades''}"
  shows "reaches lib sq services (''server-status'' # args) (Some (get_health, services))
    \<and> reaches lib sq services (''show-trades'' # args) (Some (list_executions services, services))
    \<and> reaches lib sq services (''show-orders'' # oargs) (Some (list_orders (Some osy) (Some ost) services, services))
    \<and> reaches lib sq services (''show-book'' # bargs) (map_option (\<lambda>r. (r, services)) (get_book (Some bsy) services))
    \<and> reaches lib sq services (''cancel-order'' # cargs) (Some (cancel_order sq (Some i) services))
    \<and> reaches lib sq services nargs (Some (submit_order sq (Some \<lparr>
        nd_client_order_id = Some (if GetArg nargs ''--cl-ord-id'' = [] then ''CLI1'' else GetArg nargs ''--cl-ord-id''),
        nd_symbol = Some (GetArg nargs ''--symbol''), nd_side = Some (GetArg nargs ''--side''),
        nd_type = Some (GetArg nargs ''--type''), nd_price = Some (case prc of None \<Rightarrow> 0 | Some p \<Rightarrow> p),
        nd_quantity = Some q\<rparr>) services))
    \<and> (\<forall>net. cli_main net (cmd # args) = Usage) \<and> cli_exit Usage = 1"
proof -
  have "cli_main net (cmd # args) = Usage" for net using other by (simp add: cli_main_def del: GetArg.simps)
  moreover have "cli_exit Usage = 1" by (simp add: Usage_def)
  ultimately show ?thesis
    using reach_status [OF ok] reach_orders [OF ok orders] reach_book [OF ok book] reach_cancel [OF ok cancel]
      reach_submit [OF ok new qty price]
    by blast
qed

subsection \<open>A library that behaves like that\<close>

definition header_text :: string where
  "header_text = '' HTTP/1.1'' @ crlf @ ''Host: localhost'' @ crlf @ ''Content-Type: application/json'' @ crlf @ ''Content-Length: ''"

definition read_request :: "string \<Rightarrow> (string \<times> string \<times> string) option" where
  "read_request text =
     (let m = takeWhile (\<lambda>c. c \<noteq> CHR '' '') text; r1 = drop (Suc (length m)) text;
          t = takeWhile (\<lambda>c. c \<noteq> CHR '' '') r1; r2 = drop (length t + length header_text) r1
      in Some (m, t, drop 4 (dropWhile is_digit r2)))"

lemma word_prefix: "CHR '' '' \<notin> set w \<Longrightarrow> takeWhile (\<lambda>c. c \<noteq> CHR '' '') (w @ CHR '' '' # r) = w"
  by (subst takeWhile_append2) auto

lemma drop_past: "drop (Suc (length t + n)) (t @ c # r) = drop n r" "drop (Suc (length t)) (t @ c # r) = r" "drop (length t) (t @ r) = r"
  by simp_all

lemma read_request_text:
  assumes "CHR '' '' \<notin> set m" "CHR '' '' \<notin> set t"
  shows "read_request (http_request_text m t b) = Some (m, t, b)"
proof -
  let ?tail = "nat_to_string (length b) @ crlf @ crlf @ b"
  have whole: "http_request_text m t b = m @ CHR '' '' # t @ CHR '' '' # tl header_text @ ?tail"
    by (simp add: http_request_text_def header_text_def)
  have "dropWhile is_digit ?tail = crlf @ crlf @ b"
    by (subst dropWhile_append2) (auto dest: nat_to_string_digits simp: crlf_def is_digit_def)
  then have body: "drop 4 (dropWhile is_digit ?tail) = b" by (simp add: crlf_def)
  have "header_text = CHR '' '' # tl header_text" by (simp add: header_text_def)
  then have len: "length header_text = Suc (length (tl header_text))" by (metis length_Cons)
  show ?thesis
    unfolding read_request_def whole Let_def word_prefix [OF assms(1)]
    by (simp only: word_prefix [OF assms(2)] len drop_past body add_Suc_right)
qed

text \<open>Splitting a text at the first occurrence of a character.\<close>

definition cut :: "char \<Rightarrow> string \<Rightarrow> string \<times> string" where
  "cut c s = (takeWhile (\<lambda>x. x \<noteq> c) s, tl (dropWhile (\<lambda>x. x \<noteq> c) s))"

lemma cut_append: "c \<notin> set w \<Longrightarrow> cut c (w @ c # r) = (w, r)"
  by (induction w) (auto simp: cut_def)

definition read_query :: "string \<Rightarrow> string \<Rightarrow> response + string option" where
  "read_query t k = (case map_of (map (cut (CHR ''='')) (splits (CHR ''&'') (snd (cut (CHR ''?'') t)))) k of
     None \<Rightarrow> Inl (HttpError 400 '''') | Some v \<Rightarrow> Inr (Some v))"

definition read_member :: "string \<Rightarrow> string \<times> json_value" where
  "read_member s = (case cut (CHR '':'') s of (k, v) \<Rightarrow>
     (tl (butlast k), if hd v = CHR 0x22 then JString (butlast (tl v)) else JInt (case from_chars_i64 v of Some i \<Rightarrow> i | None \<Rightarrow> 0)))"

definition read_body :: "string \<Rightarrow> response + new_order_dto option" where
  "read_body b = Inr (Some (order_dto_of (map read_member (splits (CHR '','') (butlast (tl b))))))"

definition plain_web :: web_library where
  "plain_web = \<lparr>lb_request = read_request, lb_route = (\<lambda>eps m t. List.find (\<lambda>e. ep_method e = m \<and> fits (ep_pattern e) t) eps),
     lb_path = path_var, lb_int64 = from_chars_i64, lb_query = read_query, lb_body = read_body,
     lb_bad_path = HttpError 400 '''', lb_no_route = HttpError 404 ''''\<rparr>"

lemma set_join: "x \<in> set (join c ws) \<Longrightarrow> x = c \<or> (\<exists>w \<in> set ws. x \<in> set w)"
  by (induction c ws rule: join.induct) auto

lemma splits_nonempty: "splits c s \<noteq> []"
  by (induction s) (auto split: list.splits)

lemma join_splits: "join c (splits c s) = s"
proof (induction s)
  case (Cons x s)
  obtain w ws where "splits c s = w # ws" using splits_nonempty [of c s] by (cases "splits c s") auto
  with Cons show ?case by (cases ws) auto
qed simp

lemma plain_path_chars:
  assumes "plain_path p" and "x \<in> set p"
  shows "x = CHR ''/'' \<or> plain_char x"
proof -
  obtain ws where ws: "splits (CHR ''/'') p = [] # ws" "list_all plain_word ws"
    using assms(1) by (auto simp: plain_path_def split: list.splits)
  have "x = CHR ''/'' \<or> (\<exists>w \<in> set (splits (CHR ''/'') p). x \<in> set w)"
    using set_join [of x "CHR ''/''" "splits (CHR ''/'') p"] assms(2) unfolding join_splits by blast
  with ws show ?thesis by (auto simp: list_all_iff plain_word_def)
qed

lemma plain_query_chars:
  assumes "plain_query kvs" and "x \<in> set (query_text kvs)"
  shows "x \<in> set ''?&='' \<or> plain_char x"
proof -
  have "x = CHR ''?'' \<or> x = CHR ''&'' \<or> (\<exists>(k, v) \<in> set kvs. x \<in> set (k @ CHR ''='' # v))"
    using assms(2) set_join [of x "CHR ''&''" "map (\<lambda>(k, v). k @ CHR ''='' # v) kvs"] by (auto simp: query_text_def)
  with assms(1) show ?thesis by (auto simp: plain_query_def list_all_iff plain_word_def)
qed

lemma plain_target_no_space: "plain_target t \<Longrightarrow> CHR '' '' \<notin> set t"
proof -
  assume "plain_target t"
  then obtain p where p: "plain_path p" "t = p \<or> (\<exists>kvs. plain_query kvs \<and> t = p @ query_text kvs)"
    unfolding plain_target_def by blast
  have no: "\<not> plain_char (CHR '' '')" by code_simp
  have "CHR '' '' \<notin> set p" using plain_path_chars [OF p(1), of "CHR '' ''"] no by auto
  moreover have "CHR '' '' \<notin> set (query_text kvs)" if "plain_query kvs" for kvs
    using plain_query_chars [OF that, of "CHR '' ''"] no by auto
  ultimately show ?thesis using p(2) by auto
qed

lemma read_query_text:
  assumes p: "plain_path p" and q: "plain_query kvs" and kv: "(k, v) \<in> set kvs"
  shows "read_query (p @ query_text kvs) k = Inr (Some v)"
proof -
  have no: "\<not> plain_char (CHR ''?'')" by code_simp
  let ?text = "\<lambda>(k, v). k @ CHR ''='' # v"
  have words: "CHR ''='' \<notin> set k \<and> CHR ''&'' \<notin> set (k @ CHR ''='' # v)" if "(k, v) \<in> set kvs" for k v
  proof -
    have "list_all plain_char k" "list_all plain_char v" using q that by (auto simp: plain_query_def list_all_iff plain_word_def)
    from plain_not_in [OF this(1), of "CHR ''=''"] plain_not_in [OF this(1), of "CHR ''&''"]
      plain_not_in [OF this(2), of "CHR ''&''"]
    show ?thesis by simp
  qed
  have "CHR ''?'' \<notin> set p" using plain_path_chars [OF p] no by blast
  then have "snd (cut (CHR ''?'') (p @ query_text kvs)) = join (CHR ''&'') (map ?text kvs)"
    by (simp add: query_text_def cut_append)
  moreover have "splits (CHR ''&'') (join (CHR ''&'') (map ?text kvs)) = map ?text kvs"
    using q words by (intro splits_join) (auto simp: plain_query_def)
  moreover have "map (cut (CHR ''='')) (map ?text kvs) = kvs"
    using words by (auto simp: cut_append intro!: map_idI)
  ultimately have "read_query (p @ query_text kvs) k = (case map_of kvs k of None \<Rightarrow> Inl (HttpError 400 '''') | Some v \<Rightarrow> Inr (Some v))"
    by (simp add: read_query_def)
  with q kv show ?thesis by (simp add: plain_query_def)
qed

lemma read_member_text:
  assumes "order_member (k, v)"
  shows "read_member (json_text (JString k) @ CHR '':'' # json_text v) = (k, v)"
    "CHR '','' \<notin> set (json_text (JString k) @ CHR '':'' # json_text v)"
proof -
  have names: "list_all (list_all plain_char) [''client_order_id'', ''symbol'', ''side'', ''type'', ''price'', ''quantity'']" by code_simp
  with assms have k: "list_all plain_char k" by (auto simp: order_member_def split: json_value.splits)
  then have "CHR '':'' \<notin> set (json_text (JString k))" using plain_not_in [OF k, of "CHR '':''"] by simp
  then have cut: "cut (CHR '':'') (json_text (JString k) @ CHR '':'' # json_text v) = (json_text (JString k), json_text v)"
    by (rule cut_append)
  have num: "from_chars_i64 (int_to_string i) = Some i" if "in_i64 i" for i
    using that from_chars_signed_int_to_string [of "[]" i64_min i i64_max] by (simp add: from_chars_i64_def in_i64_def)
  have word: "list_all plain_char (int_to_string i) \<and> hd (int_to_string i) \<noteq> CHR 0x22" for i
    using plain_int [of i] plain_chars by (cases "int_to_string i") (auto simp: plain_word_def)
  show "read_member (json_text (JString k) @ CHR '':'' # json_text v) = (k, v)"
    unfolding read_member_def cut prod.case using assms word by (cases v) (simp_all add: num order_member_def)
  show "CHR '','' \<notin> set (json_text (JString k) @ CHR '':'' # json_text v)"
    using assms plain_not_in [OF k, of "CHR '',''"] word plain_not_in [of _ "CHR '',''"]
    by (cases v) (auto simp: order_member_def)
qed

lemma read_body_object:
  assumes "ms \<noteq> []" and "list_all order_member ms"
  shows "read_body (json_object ms) = Inr (Some (order_dto_of ms))"
proof -
  let ?text = "\<lambda>(k, v). json_text (JString k) @ CHR '':'' # json_text v"
  have "splits (CHR '','') (join (CHR '','') (map ?text ms)) = map ?text ms"
    using assms read_member_text(2) by (intro splits_join) (auto simp: list_all_iff)
  moreover have "map read_member (map ?text ms) = ms"
    using assms(2) read_member_text(1) by (auto simp: list_all_iff intro!: map_idI)
  ultimately show ?thesis by (simp add: read_body_def json_object_def butlast_append)
qed

lemma plain_web_ok: "web_library_ok plain_web"
proof -
  have "case List.find (\<lambda>e. ep_method e = m \<and> fits (ep_pattern e) t) router of
      Some e \<Rightarrow> e \<in> set router \<and> ep_method e = m \<and> fits (ep_pattern e) t
    | None \<Rightarrow> \<forall>e \<in> set router. \<not> (ep_method e = m \<and> fits (ep_pattern e) t)" for m t
    by (auto simp: find_None_iff find_Some_iff split: option.splits)
  moreover have "from_chars_i64 (int_to_string i) = Some i" if "in_i64 i" for i
    using that from_chars_signed_int_to_string [of "[]" i64_min i i64_max] by (simp add: from_chars_i64_def in_i64_def)
  moreover have "read_request (http_request_text m t b) = Some (m, t, b)" if "m \<in> {''GET'', ''POST''}" "plain_target t" for m t b
    using that plain_target_no_space by (intro read_request_text) auto
  ultimately show ?thesis
    unfolding web_library_ok_def plain_web_def by (simp add: read_query_text read_body_object)
qed

text \<open>
  A session with an order resting under id 3, in which the commands cancel it, submit another one and
  ask for a book.
\<close>

theorem cli_commands_reach_handlers_witness:
  "reaches plain_web null_sqlite (Some session4) [''cancel-order'', ''--order-id'', ''3''] (Some (cancel_order null_sqlite (Some 3) (Some session4)))
   \<and> reaches plain_web null_sqlite (Some session4) [''new-order'', ''--symbol'', ''7203'', ''--side'', ''buy'', ''--qty'', ''5'', ''--type'', ''market'']
       (Some (submit_order null_sqlite (Some \<lparr>nd_client_order_id = Some ''CLI1'', nd_symbol = Some ''7203'', nd_side = Some ''buy'',
          nd_type = Some ''market'', nd_price = Some 0, nd_quantity = Some 5\<rparr>) (Some session4)))
   \<and> reaches plain_web null_sqlite (Some session4) [''show-book'', ''--symbol'', ''9984'']
       (Some (Response 404 (ApiError (ErrorName kBookNotFound)), Some session4))"
proof -
  let ?new = "[''--symbol'', ''7203'', ''--side'', ''buy'', ''--qty'', ''5'', ''--type'', ''market'']"
  let ?list = "[''--symbol'', ''7203'', ''--status'', ''Filled'']"
  have numbers: "int_to_string 3 = ''3''" "int_to_string 5 = ''5''" by (simp_all add: strings_eval)
  have plain: "plain_word ''9984''" "plain_word ''7203''" "plain_word ''Filled''" "list_all plain_char ''7203''" "list_all plain_char ''buy''"
    "list_all plain_char ''market''" by code_simp+
  have book: "get_book (Some ''9984'') (Some session4) = Some (Response 404 (ApiError (ErrorName kBookNotFound)))"
    unfolding session4_eq by (simp add: get_book_def GetBook_def)
  show ?thesis
    using cli_commands_reach_handlers [where args = "[]" and cargs = "[''--order-id'', ''3'']" and i = 3
        and bargs = "[''--symbol'', ''9984'']" and bsy = "''9984''" and oargs = ?list and osy = "''7203''" and ost = "''Filled''"
        and nargs = "''new-order'' # ?new" and rest = ?new and q = 5 and prc = None and cmd = "''help''" and sq = null_sqlite
        and services = "Some session4", OF plain_web_ok] plain
    by (simp add: numbers book in_i64_def i64_min_def i64_max_def)
qed

end
