(* ===== verification/Spec2Isabelle.thy ===== *)
theory Spec2Isabelle
  imports Risk_Properties Order_Properties Database_Properties Algo_Properties Fix_Properties Http_Properties Resumption
    Server_Console Db_Handle Wind_Down Matching_Loops Routing_Properties
begin

text \<open>
  Verification of Mini OEMS, an order and execution management system in C++ (src/src/).

  \<^bold>\<open>The program.\<close> \<open>OrderManager\<close> (core/order) validates a request, asks \<open>RiskManager\<close> (core/risk) for
  a verdict, gives the order an id, hands it to \<open>MatchingEngine\<close> (core/matching), applies the fills to
  its own table of orders and writes orders, events and executions through \<open>Database\<close>
  (core/persistence). The engine keeps one \<open>OrderBook\<close> per symbol. \<open>MarketDataHandler\<close>
  (core/market_data) feeds reference prices to the risk manager. The FIX gateway (core/fix), the HTTP
  controllers (core/api, with the endpoints of src/api-gen) and the execution algorithms (core/algo)
  sit on top of the order manager. main.cc starts the server and recovers the state from the
  database; cli/main.cc is a command line client of the HTTP interface.

  \<^bold>\<open>How code becomes definitions.\<close> A class is a record of its members, an operation a function from the
  state to its result and the next state; a \<open>Result\<close> is a sum whose left side is the error code.
  Definitions have the names of the source, prefixed with the class where two classes share one.
  Identifiers are \<open>64 word\<close> and wrap; prices, quantities and times are \<open>int\<close>, and where the code
  computes with them the 64-bit range is either proved to be kept (Book_Properties for matching,
  Risk_Properties for the checks) or an overflow, which is undefined behaviour, is the value \<open>None\<close>
  (\<open>level_total\<close>, \<open>bbo_reference\<close>, \<open>child_at\<close>). A \<open>std::map\<close> is its sorted list of nodes
  (Price_Ladder), a \<open>std::unordered_map\<close> an association list (Prelude). The clock is a stream of
  readings, one consumed by every call of \<open>now()\<close>, in the order of the code. Doubles are exact
  binary64 values with rounding written out (Doubles).

  \<^bold>\<open>The theories.\<close>

  \<^item> Prelude, Types, Price_Ladder: integer types, containers, core/types and the sorted map of price levels
    (locale \<open>price_order\<close>, interpreted for bids and asks).
  \<^item> Order_Book, Matching_Engine: order_book.cc, matching_engine.cc. Book_Matching relates the matching
    loops to a reference allocation, Book_Correctness states the invariant of a book and the abstract
    price-time priority book that \<open>AddOrder\<close> and \<open>CancelOrder\<close> refine, Book_Properties and
    Engine_Properties hold the theorems, Matching_Loops shows that the loops, written as loops, end.
  \<^item> Venue: what the order manager relies on in the engine, as the locale \<open>venue\<close>, interpreted by the
    engine; \<open>tracks\<close> is the agreement of an order table with the live orders of a venue.
  \<^item> Risk_Manager, Market_Data: risk_manager.cc, market_data_handler.cc; Risk_Properties gives the controls
    as the documentation states them, the bound of the rate limiter, the tick table and the effect of
    market data.
  \<^item> Order_Types, Decimal, Order_Manager: order.h, order_event.h, order_manager.cc. Order_Invariants proves
    the invariant \<open>om_ok\<close> of every reachable state, Order_Lifecycle the event log, the outcomes of the
    operations and how orders evolve; Order_Properties holds the theorems and a sample session.
  \<^item> Reachability: the steps of a running order manager and its restarts, and the states they reach
    (\<open>reachable_om\<close>), on which the theorems about the whole system rest.
  \<^item> Database, Database_Properties: database.cc over SQLite as a parameter (record \<open>sqlite\<close>): the SQL
    texts, the values bound, the result codes tested and the decoding of rows. Db_Handle: the constructor,
    the destructor and the moves of \<open>Database\<close>, and that every handle is closed exactly once.
  \<^item> Server, Server_Console: main.cc up to the services it serves, what it prints and how it ends; whether
    the socket could be bound is a parameter. Time_Priority proves what recovery relies on (ids without
    gaps, books ordered by price and id), Recovery what \<open>RestoreFromDatabase\<close> makes of the rows it loads,
    Durability that a restart loses nothing as long as no SQLite call has failed and the database is a
    file on disk: \<open>sqlite_store\<close> states what the statements of the program do while no call has failed and
    allows every call to fail, every operation keeps the tables in step with the memory until then, and
    a server that was started again any number of times (\<open>service\<close>) is in a reachable state. Resumption
    proves that order managers that agree on orders, logs and resting orders (\<open>alike\<close>) answer every
    sequence of calls alike, and so does a server after a restart, where a book without orders counts
    as a missing one.
  \<^item> Wind_Down: from every reachable state all open orders can be cancelled.
  \<^item> Doubles, Algo, Algo_Properties: twap.cc, vwap.cc, algo_engine.cc.
  \<^item> Text, Fix_Message, Fix_Session, Fix_Gateway: fix_message.cc, fix_session.cc, fix_gateway.cc. Fix_Codec
    holds the theorems on the codec, Fix_Properties those on the session and the gateway.
  \<^item> Http_Api, Http_Properties: oems_controllers.cpp. Cli: cli/main.cc. Routing: the endpoints of
    src/api-gen/api and the controllers main registers, over the web library as a parameter;
    Routing_Properties shows that every command of the client reaches its handler with the arguments
    it was given, for plain arguments, whose HTTP and JSON forms need no escapes.

  \<^bold>\<open>What is shown.\<close> Components one by one: refinement of a price-time priority book, the meaning of every
  risk control, round trips of the wire format and of the rows, exact TWAP and VWAP slices, the session
  protocol, the ownership of database handles. Across components: in every reachable state
  (\<open>reachable_om\<close>: any submits, cancels, changes of the risk state and restarts on a database that kept
  every write, from an empty order manager) orders, executions, books and events agree; each outcome
  of submitting and cancelling is characterised with everything it leaves alone; the same over HTTP and
  FIX; the database never influences trading; and over a restart nothing is lost that it kept.

  \<^bold>\<open>Bounds.\<close> Loops are recursive functions with a termination proof; no fuel is used. Theorems about ids
  assume what the counters need: fewer than 2 ^ 64 ids are given, and for a restart fewer than
  2 ^ 63, since SQLite orders the ids as signed numbers.

  \<^bold>\<open>Not modelled.\<close> Every function body under src/src/core, main and the client are modelled. SQLite and
  oatpp (HTTP, JSON, routing of targets, sockets) are not part of the repository's code and are
  parameters. The hypotheses on them are \<open>sqlite_columns\<close> (integers and texts read back as they were
  stored), \<open>sqlite_store\<close> (the effect of the statements while no call has failed; what the program does
  after a failed write, whose result it drops, is covered by \<open>persistence_is_transparent\<close> for the
  running server and by nothing for the next start) and \<open>web_library_ok\<close> (routing, parameters and JSON
  of plain input). Not modelled at all: the Environment and component macros of
  oatpp, the accept loop, and the lifetime of prepared statements (every function finalizes the one it
  prepares before it returns); benchmarks and tests are not part of the program.
  Concurrency is not: order_manager.h asks the callers to serialise their calls, and the model does,
  each call of a handler being one step; the server takes no lock around them. An enumerator code in
  the database that names no enumerator, and a schedule or a total outside the 64-bit range, are
  undefined behaviour and stop the model with \<open>None\<close>. Memory exhaustion is not modelled.
\<close>

end
